(* ===== verification/Grpc_Prelude.thy ===== *)
theory Grpc_Prelude
  imports Main "HOL-Library.Word"
begin

text \<open>
  The types and facts every component shares. A Rust byte (\<^verbatim>\<open>u8\<close> used as
  data) is HOL's \<^typ>\<open>char\<close>, a type of exactly 256 values whose numeric value is
  \<^term>\<open>of_char c\<close>; so \<^verbatim>\<open>&str\<close>, \<^verbatim>\<open>String\<close>,
  \<^verbatim>\<open>Vec<u8>\<close> and \<^verbatim>\<open>&[u8]\<close> are all lists of bytes and
  \<^verbatim>\<open>as_bytes\<close> is the identity. A \<^verbatim>\<open>panic!\<close>, a failed
  \<^verbatim>\<open>assert!\<close> and an \<^verbatim>\<open>unwrap\<close> of nothing are the value
  \<open>Panic\<close> of the type \<open>outcome\<close>; \<^verbatim>\<open>Result<T>\<close> is a sum
  whose left side is the error. Reachability of a step relation and the rule for
  invariants are here once, as is the interface of an iterator.
\<close>

section \<open>Collections of facts\<close>

named_theorems wf_intros \<open>every operation keeps the invariant of its component\<close>
named_theorems op_defs \<open>definitions of small operations that proofs unfold freely\<close>

section \<open>Types of the source language\<close>

type_synonym byte = char
type_synonym bytes = "byte list"
type_synonym u32 = "32 word"
type_synonym u64 = "64 word"

datatype 'a poll = Pending | Ready 'a

datatype 'a outcome = Panic string | Ret 'a

definition obind :: "'a outcome \<Rightarrow> ('a \<Rightarrow> 'b outcome) \<Rightarrow> 'b outcome" where
  "obind m f = (case m of Panic p \<Rightarrow> Panic p | Ret a \<Rightarrow> f a)"

lemma obind_simps [simp]:
  "obind (Panic p) f = Panic p"
  "obind (Ret a) f = f a"
  by (simp_all add: obind_def)

lemma obind_Ret_iff: "obind m f = Ret b \<longleftrightarrow> (\<exists>a. m = Ret a \<and> f a = Ret b)"
  by (cases m) auto

lemma obind_split: "P (obind m f) \<longleftrightarrow> (\<forall>p. m = Panic p \<longrightarrow> P (Panic p)) \<and> (\<forall>a. m = Ret a \<longrightarrow> P (f a))"
  by (cases m) auto

lemma obind_split_asm:
  "P (obind m f) \<longleftrightarrow> \<not> ((\<exists>p. m = Panic p \<and> \<not> P (Panic p)) \<or> (\<exists>a. m = Ret a \<and> \<not> P (f a)))"
  by (cases m) auto

lemmas obind_splits = obind_split obind_split_asm

lemma obind_cong [fundef_cong]:
  "m = m' \<Longrightarrow> (\<And>a. m' = Ret a \<Longrightarrow> f a = f' a) \<Longrightarrow> obind m f = obind m' f'"
  by (cases m') (simp_all add: obind_def)

text \<open>\<open>assert!(b)\<close> and \<open>x.unwrap()\<close>.\<close>

definition rust_assert :: "bool \<Rightarrow> string \<Rightarrow> unit outcome" where
  "rust_assert b msg = (if b then Ret () else Panic msg)"

definition unwrap :: "'a option \<Rightarrow> 'a outcome" where
  "unwrap x = (case x of None \<Rightarrow> Panic ''called Option::unwrap() on a None value'' | Some a \<Rightarrow> Ret a)"

lemma rust_assert_simps [simp]:
  "rust_assert True msg = Ret ()"
  "rust_assert False msg = Panic msg"
  by (simp_all add: rust_assert_def)

lemma unwrap_simps [simp]:
  "unwrap (Some a) = Ret a"
  "unwrap None = Panic ''called Option::unwrap() on a None value''"
  by (simp_all add: unwrap_def)

lemma unwrap_Ret_iff [simp]: "unwrap x = Ret a \<longleftrightarrow> x = Some a"
  by (cases x) auto

section \<open>Decimal numbers\<close>

text \<open>The \<^verbatim>\<open>{}\<close> of \<^verbatim>\<open>format!\<close> for unsigned and signed integers.\<close>

definition digit :: "nat \<Rightarrow> char" where
  "digit n = char_of (48 + n)"

fun show_nat :: "nat \<Rightarrow> string" where
  "show_nat n = (if n < 10 then [digit n] else show_nat (n div 10) @ [digit (n mod 10)])"

declare show_nat.simps [simp del]

definition show_int :: "int \<Rightarrow> string" where
  "show_int i = (if i < 0 then CHR ''-'' # show_nat (nat (- i)) else show_nat (nat i))"

definition digit_value :: "char \<Rightarrow> nat" where
  "digit_value c = of_char c - 48"

definition read_nat :: "string \<Rightarrow> nat" where
  "read_nat s = foldl (\<lambda>acc c. 10 * acc + digit_value c) 0 s"

lemma of_char_digit: "n < 10 \<Longrightarrow> (of_char (digit n) :: nat) = 48 + n"
  by (simp add: digit_def of_char_of take_bit_eq_mod)

lemma read_nat_snoc: "read_nat (s @ [c]) = 10 * read_nat s + digit_value c"
  by (simp add: read_nat_def)

lemma read_show_nat [simp]: "read_nat (show_nat n) = n"
proof (induction n rule: show_nat.induct)
  case (1 n)
  show ?case
  proof (cases "n < 10")
    case True
    then show ?thesis
      by (subst show_nat.simps) (simp add: read_nat_def digit_value_def of_char_digit)
  next
    case False
    then show ?thesis
      by (subst show_nat.simps) (simp add: read_nat_snoc 1 digit_value_def of_char_digit)
  qed
qed

lemma show_nat_inject [simp]: "show_nat m = show_nat n \<longleftrightarrow> m = n"
  by (metis read_show_nat)

section \<open>Bytes and ASCII\<close>

definition is_upper :: "byte \<Rightarrow> bool" where
  "is_upper b \<longleftrightarrow> 65 \<le> (of_char b :: nat) \<and> (of_char b :: nat) \<le> 90"

definition is_lower :: "byte \<Rightarrow> bool" where
  "is_lower b \<longleftrightarrow> 97 \<le> (of_char b :: nat) \<and> (of_char b :: nat) \<le> 122"

definition is_digit :: "byte \<Rightarrow> bool" where
  "is_digit b \<longleftrightarrow> 48 \<le> (of_char b :: nat) \<and> (of_char b :: nat) \<le> 57"

definition to_lower :: "byte \<Rightarrow> byte" where
  "to_lower b = (if is_upper b then char_of ((of_char b :: nat) + 32) else b)"

definition to_upper :: "byte \<Rightarrow> byte" where
  "to_upper b = (if is_lower b then char_of ((of_char b :: nat) - 32) else b)"

definition is_ascii :: "bytes \<Rightarrow> bool" where
  "is_ascii s \<longleftrightarrow> list_all (\<lambda>b. (of_char b :: nat) < 128) s"

lemma of_char_to_lower:
  "(of_char (to_lower b) :: nat) = (if is_upper b then of_char b + 32 else of_char b)"
  by (auto simp: to_lower_def is_upper_def of_char_of take_bit_eq_mod)

lemma of_char_to_upper:
  "(of_char (to_upper b) :: nat) = (if is_lower b then of_char b - 32 else of_char b)"
  by (auto simp: to_upper_def is_lower_def of_char_of take_bit_eq_mod)

lemma to_lower_not_upper [simp]: "\<not> is_upper (to_lower b)"
  by (auto simp: is_upper_def of_char_to_lower)

lemma to_lower_idem [simp]: "to_lower (to_lower b) = to_lower b"
  by (simp add: to_lower_def [of "to_lower b"])

lemma to_lower_id: "\<not> is_upper b \<Longrightarrow> to_lower b = b"
  by (simp add: to_lower_def)

lemma to_lower_lower: "is_upper b \<Longrightarrow> is_lower (to_lower b)"
  by (auto simp: is_lower_def is_upper_def of_char_to_lower)

definition starts_with :: "bytes \<Rightarrow> bytes \<Rightarrow> bool" where
  "starts_with s p \<longleftrightarrow> take (length p) s = p"

definition ends_with :: "bytes \<Rightarrow> bytes \<Rightarrow> bool" where
  "ends_with s p \<longleftrightarrow> length p \<le> length s \<and> drop (length s - length p) s = p"

lemma ends_with_append [simp]: "ends_with (s @ p) p"
  by (simp add: ends_with_def)

section \<open>Lists\<close>

lemma drop_add_append_ge: "length xs \<le> n \<Longrightarrow> drop n (xs @ ys) = drop (n - length xs) ys"
  by simp

lemma drop_eq_ConsD:
  assumes "drop n xs = a # as"
  shows "n < length xs" "xs ! n = a" "drop (Suc n) xs = as"
proof -
  show "n < length xs" using assms by (metis drop_all list.distinct(1) not_le)
  show "xs ! n = a" using assms by (rule nth_via_drop)
  show "drop (Suc n) xs = as" using assms by (simp add: drop_Suc tl_drop [symmetric])
qed

lemma take_drop_split: "k \<le> length xs \<Longrightarrow> take k xs @ drop k xs = xs"
  by simp

text \<open>How many threads of a list of program counters are at a given place.\<close>

definition tcount :: "('a \<Rightarrow> bool) \<Rightarrow> 'a list \<Rightarrow> nat" where
  "tcount P xs = length (filter P xs)"

lemma tcount_update:
  "i < length xs \<Longrightarrow> tcount P (xs[i := x]) + of_bool (P (xs ! i)) = tcount P xs + of_bool (P x)"
proof (induction xs arbitrary: i)
  case (Cons a xs)
  then show ?case
  proof (cases i)
    case (Suc j)
    with Cons.prems Cons.IH [of j] show ?thesis by (simp add: tcount_def)
  qed (simp add: tcount_def)
qed simp

lemma tcount_pos: "i < length xs \<Longrightarrow> P (xs ! i) \<Longrightarrow> 0 < tcount P xs"
  by (auto simp: tcount_def filter_empty_conv)

lemma tcount_0_iff: "tcount P xs = 0 \<longleftrightarrow> (\<forall>x \<in> set xs. \<not> P x)"
  by (auto simp: tcount_def filter_empty_conv)

lemma tcount_unique:
  assumes "tcount P xs \<le> 1" "i < length xs" "P (xs ! i)" "j < length xs" "P (xs ! j)"
  shows "i = j"
proof (rule ccontr)
  assume "i \<noteq> j"
  have "{i, j} \<subseteq> {k. k < length xs \<and> P (xs ! k)}" using assms by auto
  then have "card {i, j} \<le> tcount P xs"
    unfolding tcount_def length_filter_conv_card by (intro card_mono) auto
  with \<open>i \<noteq> j\<close> assms(1) show False by simp
qed

section \<open>Atomic operations\<close>

text \<open>
  \<^verbatim>\<open>compare_exchange_weak\<close> on a cell holding \<open>mem\<close>: the outcome and the new
  contents of the cell. A weak exchange may fail although the value matches
  (\<open>spurious\<close>); \<^verbatim>\<open>compare_exchange\<close> is the case \<open>spurious = False\<close>.
\<close>

definition cas :: "bool \<Rightarrow> 'a \<Rightarrow> 'a \<Rightarrow> 'a \<Rightarrow> ('a + 'a) \<times> 'a" where
  "cas spurious mem old new =
     (if mem = old \<and> \<not> spurious then (Inr mem, new) else (Inl mem, mem))"

section \<open>Step relations, reachable states, invariants\<close>

inductive reach :: "('s \<Rightarrow> bool) \<Rightarrow> ('s \<Rightarrow> 's \<Rightarrow> bool) \<Rightarrow> 's \<Rightarrow> bool"
  for init :: "'s \<Rightarrow> bool" and step :: "'s \<Rightarrow> 's \<Rightarrow> bool" where
  reach_init: "init s \<Longrightarrow> reach init step s"
| reach_step: "reach init step s \<Longrightarrow> step s t \<Longrightarrow> reach init step t"

text \<open>
  A system whose threads choose actions: \<open>exec a s\<close> is the state after action
  \<open>a\<close>, or nothing when the action is not possible; a schedule is a list of actions.
\<close>

definition exec_step :: "('a \<Rightarrow> 's \<Rightarrow> 's option) \<Rightarrow> 's \<Rightarrow> 's \<Rightarrow> bool" where
  "exec_step exec s t \<longleftrightarrow> (\<exists>a. exec a s = Some t)"

fun run_acts :: "('a \<Rightarrow> 's \<Rightarrow> 's option) \<Rightarrow> 'a list \<Rightarrow> 's \<Rightarrow> 's option" where
  "run_acts exec [] s = Some s"
| "run_acts exec (a # as) s = Option.bind (exec a s) (run_acts exec as)"

lemma run_acts_reach:
  "run_acts exec as s = Some t \<Longrightarrow> reach init (exec_step exec) s \<Longrightarrow> reach init (exec_step exec) t"
proof (induction as arbitrary: s)
  case (Cons a as)
  then obtain u where u: "exec a s = Some u" "run_acts exec as u = Some t" by (auto simp: bind_eq_Some_conv)
  then have "exec_step exec s u" by (auto simp: exec_step_def)
  with Cons.prems(2) have "reach init (exec_step exec) u" by (rule reach.reach_step)
  with Cons.IH u show ?case by blast
qed simp

lemma run_acts_steps: "run_acts exec as s = Some t \<Longrightarrow> (exec_step exec)\<^sup>*\<^sup>* s t"
proof (induction as arbitrary: s)
  case (Cons a as)
  then obtain u where u: "exec a s = Some u" "run_acts exec as u = Some t" by (auto simp: bind_eq_Some_conv)
  then have "exec_step exec s u" by (auto simp: exec_step_def)
  then show ?case using Cons.IH [OF u(2)] by (rule converse_rtranclp_into_rtranclp)
qed simp

text \<open>A transition system with an inductive invariant.\<close>

locale invariant_system =
  fixes init :: "'s \<Rightarrow> bool"
    and step :: "'s \<Rightarrow> 's \<Rightarrow> bool"
    and inv :: "'s \<Rightarrow> bool"
  assumes init_inv: "init s \<Longrightarrow> inv s"
    and step_inv: "inv s \<Longrightarrow> step s t \<Longrightarrow> inv t"
begin

lemma reach_inv: "reach init step s \<Longrightarrow> inv s"
  by (induction rule: reach.induct) (auto intro: init_inv step_inv)

lemma run_inv: "step\<^sup>*\<^sup>* s t \<Longrightarrow> inv s \<Longrightarrow> inv t"
  by (induction rule: rtranclp_induct) (auto intro: step_inv)

end

text \<open>
  A forward simulation: every concrete step is matched by an abstract step or leaves the
  abstract state alone.
\<close>

locale refinement_system =
  fixes cinit :: "'c \<Rightarrow> bool"
    and cstep :: "'c \<Rightarrow> 'c \<Rightarrow> bool"
    and ainit :: "'a \<Rightarrow> bool"
    and astep :: "'a \<Rightarrow> 'a \<Rightarrow> bool"
    and abs :: "'c \<Rightarrow> 'a"
    and inv :: "'c \<Rightarrow> bool"
  assumes inv_init: "cinit s \<Longrightarrow> inv s"
    and inv_step: "inv s \<Longrightarrow> cstep s t \<Longrightarrow> inv t"
    and sim_init: "cinit s \<Longrightarrow> ainit (abs s)"
    and sim_step: "inv s \<Longrightarrow> cstep s t \<Longrightarrow> abs t = abs s \<or> astep (abs s) (abs t)"
begin

lemma refines_run: "cstep\<^sup>*\<^sup>* s t \<Longrightarrow> inv s \<Longrightarrow> inv t"
  by (induction rule: rtranclp_induct) (auto intro: inv_step)

lemma refines: "reach cinit cstep s \<Longrightarrow> inv s \<and> reach ainit astep (abs s)"
proof (induction rule: reach.induct)
  case (reach_init s)
  then show ?case by (auto intro: inv_init sim_init reach.reach_init)
next
  case (reach_step s t)
  then have "inv t" by (auto intro: inv_step)
  moreover from reach_step have "abs t = abs s \<or> astep (abs s) (abs t)"
    using sim_step by blast
  ultimately show ?case using reach_step by (auto intro: reach.reach_step)
qed

end

section \<open>Iterators\<close>

text \<open>
  What \<^verbatim>\<open>Iterator::next\<close> promises: it hands out the items one by one.
  \<open>collect\<close> drives an iterator a bounded number of times, as a \<^verbatim>\<open>for\<close>
  loop does.
\<close>

fun collect :: "('s \<Rightarrow> ('a \<times> 's) option) \<Rightarrow> nat \<Rightarrow> 's \<Rightarrow> 'a list" where
  "collect nxt 0 s = []"
| "collect nxt (Suc n) s = (case nxt s of None \<Rightarrow> [] | Some (a, s') \<Rightarrow> a # collect nxt n s')"

locale iterator =
  fixes nxt :: "'s \<Rightarrow> ('a \<times> 's) option"
    and items :: "'s \<Rightarrow> 'a list"
    and inv :: "'s \<Rightarrow> bool"
  assumes next_none: "inv s \<Longrightarrow> items s = [] \<Longrightarrow> nxt s = None"
    and next_some: "inv s \<Longrightarrow> items s = a # as \<Longrightarrow> \<exists>s'. nxt s = Some (a, s') \<and> items s' = as \<and> inv s'"
begin

lemma collect_take: "inv s \<Longrightarrow> collect nxt n s = take n (items s)"
proof (induction n arbitrary: s)
  case 0
  then show ?case by simp
next
  case (Suc n)
  show ?case
  proof (cases "items s")
    case Nil
    with Suc.prems show ?thesis by (simp add: next_none)
  next
    case (Cons a as)
    then obtain s' where "nxt s = Some (a, s')" "items s' = as" "inv s'"
      using Suc.prems next_some by blast
    with Cons Suc.IH show ?thesis by simp
  qed
qed

lemma collect_all: "inv s \<Longrightarrow> length (items s) \<le> n \<Longrightarrow> collect nxt n s = items s"
  by (simp add: collect_take)

end

end
