(* ===== verification/Grpc_Status.thy ===== *)
theory Grpc_Status
  imports Grpc_Prelude
begin

text \<open>
  Status codes and statuses of \<^verbatim>\<open>src/call/mod.rs\<close> and the error type of
  \<^verbatim>\<open>src/error.rs\<close>: the code table of the macro
  \<^verbatim>\<open>status_codes!\<close>, the constructors of \<^verbatim>\<open>RpcStatus\<close>, and what
  \<^verbatim>\<open>Display\<close> prints for an error.
\<close>

section \<open>Status codes\<close>

datatype RpcStatusCode = RpcStatusCode (code_i32: int)

text \<open>The constants of \<^verbatim>\<open>status_codes!\<close>, in the order of the macro call.\<close>

definition status_codes :: "(int \<times> string) list" where
  "status_codes =
    [(0, ''OK''),
     (1, ''CANCELLED''),
     (2, ''UNKNOWN''),
     (3, ''INVALID_ARGUMENT''),
     (4, ''DEADLINE_EXCEEDED''),
     (5, ''NOT_FOUND''),
     (6, ''ALREADY_EXISTS''),
     (7, ''PERMISSION_DENIED''),
     (8, ''RESOURCE_EXHAUSTED''),
     (9, ''FAILED_PRECONDITION''),
     (10, ''ABORTED''),
     (11, ''OUT_OF_RANGE''),
     (12, ''UNIMPLEMENTED''),
     (13, ''INTERNAL''),
     (14, ''UNAVAILABLE''),
     (15, ''DATA_LOSS''),
     (16, ''UNAUTHENTICATED''),
     (-1, ''DO_NOT_USE'')]"

abbreviation OK :: RpcStatusCode where "OK \<equiv> RpcStatusCode 0"
abbreviation CANCELLED :: RpcStatusCode where "CANCELLED \<equiv> RpcStatusCode 1"
abbreviation UNKNOWN :: RpcStatusCode where "UNKNOWN \<equiv> RpcStatusCode 2"
abbreviation NOT_FOUND :: RpcStatusCode where "NOT_FOUND \<equiv> RpcStatusCode 5"
abbreviation UNIMPLEMENTED :: RpcStatusCode where "UNIMPLEMENTED \<equiv> RpcStatusCode 12"
abbreviation INTERNAL :: RpcStatusCode where "INTERNAL \<equiv> RpcStatusCode 13"

text \<open>
  \<^verbatim>\<open>Debug\<close> and \<^verbatim>\<open>Display\<close> of a code: the number, a dash and the
  constant's name, found by the first matching arm.
\<close>

definition code_name :: "int \<Rightarrow> string" where
  "code_name c = (case map_of status_codes c of Some n \<Rightarrow> n | None \<Rightarrow> ''INVALID_STATUS_CODE'')"

definition fmt_status_code :: "RpcStatusCode \<Rightarrow> string" where
  "fmt_status_code c = show_int (code_i32 c) @ ''-'' @ code_name (code_i32 c)"

section \<open>Statuses\<close>

record RpcStatus =
  code :: RpcStatusCode
  message :: string
  details :: bytes

definition with_details :: "RpcStatusCode \<Rightarrow> string \<Rightarrow> bytes \<Rightarrow> RpcStatus" where
  "with_details c m d = \<lparr>code = c, message = m, details = d\<rparr>"

definition with_message :: "RpcStatusCode \<Rightarrow> string \<Rightarrow> RpcStatus" where
  "with_message c m = with_details c m []"

definition status_new :: "RpcStatusCode \<Rightarrow> RpcStatus" where
  "status_new c = with_message c []"

definition status_ok :: RpcStatus where
  "status_ok = status_new OK"

lemmas status_defs [op_defs] = with_details_def with_message_def status_new_def status_ok_def

section \<open>Errors\<close>

datatype grpc_call_error =
    GRPC_CALL_OK
  | GRPC_CALL_ERROR nat

datatype error =
    Codec string
  | CallFailure grpc_call_error
  | RpcFailure RpcStatus
  | RpcFinished "RpcStatus option"
  | RemoteStopped
  | ShutdownFailed
  | BindFail string nat
  | QueueShutdown
  | GoogleAuthenticationFailed
  | InvalidMetadata string

type_synonym 'a result = "error + 'a"

text \<open>
  \<^verbatim>\<open>impl Display for Error\<close>. The derived \<^verbatim>\<open>Debug\<close>, which prints
  every error but an RPC failure, is the argument \<open>debug\<close>.
\<close>

fun fmt_error :: "(error \<Rightarrow> string) \<Rightarrow> error \<Rightarrow> string" where
  "fmt_error debug (RpcFailure s) =
     (if message s = [] then ''RpcFailure: '' @ fmt_status_code (code s)
      else ''RpcFailure: '' @ fmt_status_code (code s) @ '' '' @ message s)"
| "fmt_error debug other_error = debug other_error"

text \<open>\<^verbatim>\<open>Error::source\<close>: only a codec error has a cause.\<close>

fun error_source :: "error \<Rightarrow> string option" where
  "error_source (Codec e) = Some e"
| "error_source _ = None"

section \<open>Facts\<close>

lemma status_codes_distinct: "distinct (map fst status_codes)" "distinct (map snd status_codes)"
  by (simp_all add: status_codes_def)

lemma takeWhile_show_nat:
  "takeWhile (\<lambda>c. c \<noteq> CHR ''-'') (show_nat n @ CHR ''-'' # r) = show_nat n"
proof -
  have "\<forall>c \<in> set (show_nat n). c \<noteq> CHR ''-''"
  proof (induction n rule: show_nat.induct)
    case (1 n)
    have digit: "digit k \<noteq> CHR ''-''" if "k < 10" for k
    proof
      assume "digit k = CHR ''-''"
      then have "(of_char (digit k) :: nat) = 45" by simp
      with that show False by (simp add: of_char_digit)
    qed
    show ?case
      by (subst show_nat.simps) (use 1 digit in auto)
  qed
  then show ?thesis by simp
qed

end
