(* ===== verification/Grpc_Executor.thy ===== *)
theory Grpc_Executor
  imports Grpc_Status
begin

text \<open>
  \<^verbatim>\<open>src/task/executor.rs\<close>: a spawned future that is woken from any thread and
  polled by whichever thread resolves its tag. Each compare-and-exchange, store or call is
  one atomic step and any number of threads interleave. The invariant says who may touch
  the future: it is polled by one thread at a time, never after it is ready, no state makes
  the code panic, and no wake-up is lost.
\<close>

section \<open>States\<close>

type_synonym u8 = "8 word"

definition NOTIFIED :: u8 where "NOTIFIED = 1"
definition IDLE :: u8 where "IDLE = 2"
definition POLLING :: u8 where "POLLING = 3"
definition COMPLETED :: u8 where "COMPLETED = 4"

lemmas state_consts = NOTIFIED_def IDLE_def POLLING_def COMPLETED_def

lemma states_distinct [simp]:
  "NOTIFIED \<noteq> IDLE" "IDLE \<noteq> NOTIFIED" "NOTIFIED \<noteq> POLLING" "POLLING \<noteq> NOTIFIED"
  "NOTIFIED \<noteq> COMPLETED" "COMPLETED \<noteq> NOTIFIED" "IDLE \<noteq> POLLING" "POLLING \<noteq> IDLE"
  "IDLE \<noteq> COMPLETED" "COMPLETED \<noteq> IDLE" "POLLING \<noteq> COMPLETED" "COMPLETED \<noteq> POLLING"
  by (simp_all add: state_consts)

section \<open>Waking\<close>

text \<open>
  One pass of the loop of \<^verbatim>\<open>mark_notified\<close> is one exchange or two: after the
  first the code returns, tries the second exchange, or starts over.
\<close>

datatype mark_next = MarkRetry | MarkSecond | MarkReturn bool

definition mark_notified_first :: "bool \<Rightarrow> u8 \<Rightarrow> mark_next \<times> u8" where
  "mark_notified_first spurious mem = (case cas spurious mem IDLE NOTIFIED of
     (Inr _, mem) \<Rightarrow> (MarkReturn True, mem)
   | (Inl s, mem) \<Rightarrow> (if s = POLLING then MarkSecond else if s = IDLE then MarkRetry else MarkReturn False, mem))"

definition mark_notified_second :: "bool \<Rightarrow> u8 \<Rightarrow> mark_next \<times> u8" where
  "mark_notified_second spurious mem = (case cas spurious mem POLLING NOTIFIED of
     (Inr _, mem) \<Rightarrow> (MarkReturn False, mem)
   | (Inl s, mem) \<Rightarrow> (if s = IDLE \<or> s = POLLING then MarkRetry else MarkReturn False, mem))"

text \<open>
  \<^verbatim>\<open>Kicker::kick\<close>: the queue is borrowed, then the core is given the tag;
  \<open>borrow\<close> and \<open>status\<close> are their answers.
\<close>

definition kick :: "unit result \<Rightarrow> grpc_call_error \<Rightarrow> unit result" where
  "kick borrow status = (case borrow of
     Inl e \<Rightarrow> Inl e
   | Inr _ \<Rightarrow> if status = GRPC_CALL_OK then Inr () else Inl (CallFailure status))"

datatype exec_panic =
    UnexpectedState u8
  | UnwrapNone
  | UnexpectedKickError error

text \<open>
  The rest of \<^verbatim>\<open>wake_by_ref\<close>: the work queue takes the task if this is its thread
  (\<open>pushed\<close>), otherwise the tag is kicked. The result says whether the task is queued.
\<close>

definition wake_schedule :: "bool \<Rightarrow> unit result \<Rightarrow> exec_panic + bool" where
  "wake_schedule pushed kicked =
     (if pushed then Inr True
      else (case kicked of
              Inl QueueShutdown \<Rightarrow> Inr False
            | Inl e \<Rightarrow> Inl (UnexpectedKickError e)
            | Inr _ \<Rightarrow> Inr True))"

section \<open>Polling\<close>

datatype enter_next = EnterPoll | EnterReturn | EnterPanic u8

definition poll_enter :: "u8 \<Rightarrow> u8 \<Rightarrow> enter_next \<times> u8" where
  "poll_enter init_state mem = (case cas False mem init_state POLLING of
     (Inr _, mem) \<Rightarrow> (EnterPoll, mem)
   | (Inl s, mem) \<Rightarrow> (if s = COMPLETED then EnterReturn else EnterPanic s, mem))"

datatype park_next = ParkReturn | ParkAgain | ParkPanic u8

definition poll_park :: "u8 \<Rightarrow> park_next \<times> u8" where
  "poll_park mem = (case cas False mem POLLING IDLE of
     (Inr _, mem) \<Rightarrow> (ParkReturn, mem)
   | (Inl s, mem) \<Rightarrow> (if s = NOTIFIED then ParkAgain else ParkPanic s, mem))"

section \<open>Threads\<close>

text \<open>
  Where a thread is: outside; before the first or second exchange of
  \<^verbatim>\<open>mark_notified\<close>; about to queue the task; in \<^verbatim>\<open>poll\<close> before the first
  exchange, calling the future, about to store \<^verbatim>\<open>COMPLETED\<close>, about to take the
  handle, or about to park. A thread in \<^verbatim>\<open>poll\<close> keeps \<^verbatim>\<open>init_state\<close>.
\<close>

datatype ex_pc =
    ExOut
  | Mark1
  | Mark2
  | Schedule
  | PollEnter u8
  | Polling u8
  | StoreCompleted u8
  | TakeHandle u8
  | Park

text \<open>
  \<open>ex_tags\<close> counts the queued tags and unfinished works of the task, \<open>ex_dropped\<close>
  those given up because the queue was shut down. Three fields only observe: a poll has
  begun, the future has returned ready, and a wake-up has come since the last poll began.
\<close>

record ex_sys =
  ex_state :: u8
  ex_handle :: bool
  ex_threads :: "ex_pc list"
  ex_tags :: nat
  ex_dropped :: nat
  ex_panic :: "exec_panic option"
  ex_started :: bool
  ex_ready :: bool
  ex_wanted :: bool

text \<open>
  \<^verbatim>\<open>Executor::spawn\<close>: the task is idle and the spawning thread enters
  \<^verbatim>\<open>poll\<close> with \<^verbatim>\<open>woken = false\<close>.
\<close>

definition spawn :: "nat \<Rightarrow> ex_sys" where
  "spawn n = \<lparr>ex_state = IDLE, ex_handle = True, ex_threads = PollEnter IDLE # replicate n ExOut,
     ex_tags = 0, ex_dropped = 0, ex_panic = None, ex_started = False, ex_ready = False, ex_wanted = False\<rparr>"

datatype ex_action =
    Wake nat
  | Resolve nat
  | Go nat bool "bool \<times> unit result"

abbreviation ex_goto :: "nat \<Rightarrow> ex_pc \<Rightarrow> ex_sys \<Rightarrow> ex_sys" where
  "ex_goto i pc s \<equiv> s\<lparr>ex_threads := (ex_threads s)[i := pc]\<rparr>"

text \<open>
  The next step of thread \<open>i\<close>. The flag \<open>b\<close> is whether a weak exchange fails
  spuriously, or whether the future returns ready; \<open>out\<close> is what the work queue and the
  kick answer.
\<close>

definition ex_go :: "nat \<Rightarrow> bool \<Rightarrow> bool \<times> unit result \<Rightarrow> ex_sys \<Rightarrow> ex_sys option" where
  "ex_go i b out s = (case ex_threads s ! i of
     ExOut \<Rightarrow> None
   | Mark1 \<Rightarrow> (case mark_notified_first b (ex_state s) of
         (MarkRetry, m) \<Rightarrow> Some (ex_goto i Mark1 (s\<lparr>ex_state := m\<rparr>))
       | (MarkSecond, m) \<Rightarrow> Some (ex_goto i Mark2 (s\<lparr>ex_state := m\<rparr>))
       | (MarkReturn r, m) \<Rightarrow>
           Some (ex_goto i (if r then Schedule else ExOut) (s\<lparr>ex_state := m, ex_wanted := True\<rparr>)))
   | Mark2 \<Rightarrow> (case mark_notified_second b (ex_state s) of
         (MarkRetry, m) \<Rightarrow> Some (ex_goto i Mark1 (s\<lparr>ex_state := m\<rparr>))
       | (MarkSecond, m) \<Rightarrow> Some (ex_goto i Mark2 (s\<lparr>ex_state := m\<rparr>))
       | (MarkReturn r, m) \<Rightarrow>
           Some (ex_goto i (if r then Schedule else ExOut) (s\<lparr>ex_state := m, ex_wanted := True\<rparr>)))
   | Schedule \<Rightarrow> (case wake_schedule (fst out) (snd out) of
         Inl p \<Rightarrow> Some (ex_goto i ExOut (s\<lparr>ex_panic := Some p, ex_dropped := ex_dropped s + 1\<rparr>))
       | Inr True \<Rightarrow> Some (ex_goto i ExOut (s\<lparr>ex_tags := ex_tags s + 1\<rparr>))
       | Inr False \<Rightarrow> Some (ex_goto i ExOut (s\<lparr>ex_dropped := ex_dropped s + 1\<rparr>)))
   | PollEnter init_state \<Rightarrow> (case poll_enter init_state (ex_state s) of
         (EnterPoll, m) \<Rightarrow>
           Some (ex_goto i (Polling init_state) (s\<lparr>ex_state := m, ex_started := True, ex_wanted := False\<rparr>))
       | (EnterReturn, m) \<Rightarrow> Some (ex_goto i ExOut (s\<lparr>ex_state := m\<rparr>))
       | (EnterPanic v, m) \<Rightarrow> Some (ex_goto i ExOut (s\<lparr>ex_state := m, ex_panic := Some (UnexpectedState v)\<rparr>)))
   | Polling init_state \<Rightarrow>
       if \<not> ex_handle s then Some (ex_goto i ExOut (s\<lparr>ex_panic := Some UnwrapNone\<rparr>))
       else if b then Some (ex_goto i (StoreCompleted init_state) (s\<lparr>ex_ready := True\<rparr>))
       else Some (ex_goto i Park s)
   | StoreCompleted init_state \<Rightarrow> Some (ex_goto i (TakeHandle init_state) (s\<lparr>ex_state := COMPLETED\<rparr>))
   | TakeHandle init_state \<Rightarrow> Some (ex_goto i (PollEnter init_state) (s\<lparr>ex_handle := False\<rparr>))
   | Park \<Rightarrow> (case poll_park (ex_state s) of
         (ParkReturn, m) \<Rightarrow> Some (ex_goto i ExOut (s\<lparr>ex_state := m\<rparr>))
       | (ParkAgain, m) \<Rightarrow> Some (ex_goto i (PollEnter NOTIFIED) (s\<lparr>ex_state := m\<rparr>))
       | (ParkPanic v, m) \<Rightarrow> Some (ex_goto i ExOut (s\<lparr>ex_state := m, ex_panic := Some (UnexpectedState v)\<rparr>))))"

text \<open>
  What threads can do: wake the task, for which some thread must have been handed its waker,
  that is, a poll has begun; take a queued tag and resolve it, which polls with
  \<^verbatim>\<open>woken = true\<close>; or go on.
\<close>

definition ex_exec :: "ex_action \<Rightarrow> ex_sys \<Rightarrow> ex_sys option" where
  "ex_exec a s = (case a of
     Wake i \<Rightarrow> if i < length (ex_threads s) \<and> ex_threads s ! i = ExOut \<and> ex_started s
               then Some (ex_goto i Mark1 s) else None
   | Resolve i \<Rightarrow> if i < length (ex_threads s) \<and> ex_threads s ! i = ExOut \<and> 0 < ex_tags s
               then Some (ex_goto i (PollEnter NOTIFIED) (s\<lparr>ex_tags := ex_tags s - 1\<rparr>)) else None
   | Go i b out \<Rightarrow> if i < length (ex_threads s) then ex_go i b out s else None)"

definition ex_init :: "ex_sys \<Rightarrow> bool" where
  "ex_init s \<longleftrightarrow> (\<exists>n. s = spawn n)"

definition ex_step :: "ex_sys \<Rightarrow> ex_sys \<Rightarrow> bool" where
  "ex_step = exec_step ex_exec"

section \<open>The invariant\<close>

text \<open>
  At most one party is in charge of the task: a thread that is about to queue it, a queued
  or given-up tag, or a thread inside \<^verbatim>\<open>poll\<close>.
\<close>

fun in_charge :: "ex_pc \<Rightarrow> bool" where
  "in_charge ExOut = False"
| "in_charge Mark1 = False"
| "in_charge Mark2 = False"
| "in_charge _ = True"

definition charge :: "ex_sys \<Rightarrow> nat" where
  "charge s = tcount in_charge (ex_threads s) + ex_tags s + ex_dropped s"

fun pc_ok :: "ex_sys \<Rightarrow> ex_pc \<Rightarrow> bool" where
  "pc_ok s ExOut = True"
| "pc_ok s Mark1 = ex_started s"
| "pc_ok s Mark2 = ex_started s"
| "pc_ok s Schedule = (ex_started s \<and> ex_state s = NOTIFIED)"
| "pc_ok s (PollEnter v) =
     (if ex_started s then ex_state s = COMPLETED \<and> v \<noteq> COMPLETED \<or> v = NOTIFIED \<and> ex_state s = NOTIFIED
      else v = IDLE \<and> ex_state s = IDLE)"
| "pc_ok s (Polling v) = (v \<noteq> COMPLETED \<and> ex_started s \<and> (ex_state s = POLLING \<or> ex_state s = NOTIFIED) \<and> \<not> ex_ready s)"
| "pc_ok s (StoreCompleted v) = (v \<noteq> COMPLETED \<and> ex_started s \<and> (ex_state s = POLLING \<or> ex_state s = NOTIFIED) \<and> ex_handle s \<and> ex_ready s)"
| "pc_ok s (TakeHandle v) = (v \<noteq> COMPLETED \<and> ex_started s \<and> ex_state s = COMPLETED \<and> ex_ready s)"
| "pc_ok s Park = (ex_started s \<and> (ex_state s = POLLING \<or> ex_state s = NOTIFIED) \<and> \<not> ex_ready s)"

fun is_storing :: "ex_pc \<Rightarrow> bool" where
  "is_storing (StoreCompleted _) = True"
| "is_storing _ = False"

definition ex_inv :: "ex_sys \<Rightarrow> bool" where
  "ex_inv s \<longleftrightarrow>
     (\<forall>j < length (ex_threads s). pc_ok s (ex_threads s ! j)) \<and>
     charge s \<le> 1 \<and>
     (0 < ex_tags s + ex_dropped s \<longrightarrow> ex_state s = NOTIFIED \<and> ex_started s) \<and>
     (ex_state s = IDLE \<and> ex_started s \<longrightarrow> charge s = 0) \<and>
     (ex_state s = NOTIFIED \<or> ex_state s = POLLING \<longrightarrow> charge s = 1) \<and>
     ex_state s \<in> {NOTIFIED, IDLE, POLLING, COMPLETED} \<and>
     (\<not> ex_started s \<longrightarrow> ex_state s = IDLE \<and> \<not> ex_wanted s \<and> \<not> ex_ready s) \<and>
     (ex_ready s \<and> ex_state s \<noteq> COMPLETED \<longrightarrow> 0 < tcount is_storing (ex_threads s)) \<and>
     (\<not> ex_ready s \<longrightarrow> ex_handle s) \<and>
     (ex_wanted s \<longrightarrow> ex_state s = NOTIFIED \<or> ex_state s = COMPLETED) \<and>
     (\<forall>p. ex_panic s = Some p \<longrightarrow> (\<exists>e. p = UnexpectedKickError e))"

lemma ex_inv_init: "ex_init s \<Longrightarrow> ex_inv s"
  by (auto simp: ex_init_def spawn_def ex_inv_def charge_def tcount_def nth_Cons' nth_replicate)

section \<open>Every step keeps the invariant\<close>

lemma storing_in_charge: "is_storing pc \<Longrightarrow> in_charge pc"
  by (cases pc) auto

lemma pc_ok_free: "\<not> in_charge pc \<Longrightarrow> pc_ok s pc \<longleftrightarrow> pc = ExOut \<or> ex_started s"
  by (cases pc) auto

text \<open>The thread in charge is alone, so the counts after its step depend on where it goes.\<close>

lemma holder_alone:
  assumes inv: "ex_inv s" and i: "i < length (ex_threads s)" and h: "in_charge (ex_threads s ! i)"
  shows "ex_tags s = 0" "ex_dropped s = 0"
    and "j < length (ex_threads s) \<Longrightarrow> j \<noteq> i \<Longrightarrow> \<not> in_charge (ex_threads s ! j)"
    and "tcount in_charge ((ex_threads s)[i := pc]) = of_bool (in_charge pc)"
    and "tcount is_storing ((ex_threads s)[i := pc]) = of_bool (is_storing pc)"
proof -
  have le: "charge s \<le> 1" using inv by (simp add: ex_inv_def)
  have pos: "0 < tcount in_charge (ex_threads s)" using tcount_pos [OF i] h by blast
  with le have one: "tcount in_charge (ex_threads s) = 1" and "ex_tags s = 0" "ex_dropped s = 0"
    by (auto simp: charge_def)
  then show "ex_tags s = 0" "ex_dropped s = 0" by simp_all
  show alone: "\<not> in_charge (ex_threads s ! j)" if "j < length (ex_threads s)" "j \<noteq> i" for j
    using tcount_unique [of in_charge "ex_threads s" i j] one i h that by auto
  show "tcount in_charge ((ex_threads s)[i := pc]) = of_bool (in_charge pc)"
    using tcount_update [OF i, of in_charge pc] one h by simp
  have "\<not> is_storing ((ex_threads s)[i := ExOut] ! j)" if "j < length (ex_threads s)" for j
    using alone [OF that] storing_in_charge i that by (cases "j = i") auto
  then have "tcount is_storing ((ex_threads s)[i := ExOut]) = 0"
    by (auto simp: tcount_0_iff in_set_conv_nth)
  then show "tcount is_storing ((ex_threads s)[i := pc]) = of_bool (is_storing pc)"
    using tcount_update [of i "(ex_threads s)[i := ExOut]" is_storing pc] i by simp
qed

lemma holder_storing:
  assumes inv: "ex_inv s" and i: "i < length (ex_threads s)" and h: "in_charge (ex_threads s ! i)"
  shows "0 < tcount is_storing (ex_threads s) \<longleftrightarrow> is_storing (ex_threads s ! i)"
  using holder_alone(5) [OF assms, of "ex_threads s ! i"] by simp

lemma holder_step:
  assumes inv: "ex_inv s" and i: "i < length (ex_threads s)" and h: "in_charge (ex_threads s ! i)"
    and thr: "ex_threads t = (ex_threads s)[i := pc]" and start: "ex_started s \<longrightarrow> ex_started t"
    and ok: "pc_ok t pc"
  shows "\<forall>j < length (ex_threads t). pc_ok t (ex_threads t ! j)"
proof (intro allI impI)
  fix j assume j: "j < length (ex_threads t)"
  show "pc_ok t (ex_threads t ! j)"
  proof (cases "j = i")
    case False
    have "\<not> in_charge (ex_threads s ! j)" using holder_alone(3) [OF inv i h] j False thr by simp
    moreover have "pc_ok s (ex_threads s ! j)" using inv j thr by (simp add: ex_inv_def)
    ultimately show ?thesis using pc_ok_free start thr False by auto
  qed (use ok thr i in simp)
qed

lemma free_counts:
  assumes i: "i < length (ex_threads s)" and h: "\<not> in_charge (ex_threads s ! i)"
  shows "tcount in_charge ((ex_threads s)[i := pc]) = tcount in_charge (ex_threads s) + of_bool (in_charge pc)"
    and "tcount is_storing ((ex_threads s)[i := pc]) = tcount is_storing (ex_threads s) + of_bool (is_storing pc)"
proof -
  have "\<not> is_storing (ex_threads s ! i)" using h storing_in_charge by blast
  then show "tcount in_charge ((ex_threads s)[i := pc]) = tcount in_charge (ex_threads s) + of_bool (in_charge pc)"
    "tcount is_storing ((ex_threads s)[i := pc]) = tcount is_storing (ex_threads s) + of_bool (is_storing pc)"
    using tcount_update [OF i, of in_charge pc] tcount_update [OF i, of is_storing pc] h by simp_all
qed

lemma free_step:
  assumes inv: "ex_inv s" and i: "i < length (ex_threads s)"
    and thr: "ex_threads t = (ex_threads s)[i := pc]" and ok: "pc_ok t pc"
    and mono: "\<And>pc. pc_ok s pc \<Longrightarrow> in_charge pc \<longrightarrow> 0 < charge s \<Longrightarrow> pc_ok t pc"
  shows "\<forall>j < length (ex_threads t). pc_ok t (ex_threads t ! j)"
proof (intro allI impI)
  fix j assume j: "j < length (ex_threads t)"
  have "0 < charge s" if "in_charge (ex_threads s ! j)"
    using tcount_pos [of j "ex_threads s" in_charge] j thr that by (simp add: charge_def)
  moreover have "pc_ok s (ex_threads s ! j)" using inv j thr by (simp add: ex_inv_def)
  ultimately show "pc_ok t (ex_threads t ! j)"
    using mono ok thr i by (cases "j = i") auto
qed

lemma ex_invI:
  assumes "\<forall>j < length (ex_threads t). pc_ok t (ex_threads t ! j)"
    and "charge t \<le> 1"
    and "0 < ex_tags t + ex_dropped t \<Longrightarrow> ex_state t = NOTIFIED \<and> ex_started t"
    and "ex_state t = IDLE \<Longrightarrow> ex_started t \<Longrightarrow> charge t = 0"
    and "ex_state t = NOTIFIED \<or> ex_state t = POLLING \<Longrightarrow> charge t = 1"
    and "ex_state t \<in> {NOTIFIED, IDLE, POLLING, COMPLETED}"
    and "\<not> ex_started t \<Longrightarrow> ex_state t = IDLE \<and> \<not> ex_wanted t \<and> \<not> ex_ready t"
    and "ex_ready t \<Longrightarrow> ex_state t \<noteq> COMPLETED \<Longrightarrow> 0 < tcount is_storing (ex_threads t)"
    and "\<not> ex_ready t \<Longrightarrow> ex_handle t"
    and "ex_wanted t \<Longrightarrow> ex_state t = NOTIFIED \<or> ex_state t = COMPLETED"
    and "\<And>p. ex_panic t = Some p \<Longrightarrow> \<exists>e. p = UnexpectedKickError e"
  shows "ex_inv t"
  using assms unfolding ex_inv_def by blast

lemma ex_invD:
  assumes "ex_inv s"
  shows "charge s \<le> 1"
    and "0 < ex_tags s + ex_dropped s \<Longrightarrow> ex_state s = NOTIFIED \<and> ex_started s"
    and "ex_state s = IDLE \<Longrightarrow> ex_started s \<Longrightarrow> charge s = 0"
    and "ex_state s = NOTIFIED \<or> ex_state s = POLLING \<Longrightarrow> charge s = 1"
    and "ex_state s \<in> {NOTIFIED, IDLE, POLLING, COMPLETED}"
    and "\<not> ex_started s \<Longrightarrow> ex_state s = IDLE \<and> \<not> ex_wanted s \<and> \<not> ex_ready s"
    and "ex_ready s \<Longrightarrow> ex_state s \<noteq> COMPLETED \<Longrightarrow> 0 < tcount is_storing (ex_threads s)"
    and "\<not> ex_ready s \<Longrightarrow> ex_handle s"
    and "ex_wanted s \<Longrightarrow> ex_state s = NOTIFIED \<or> ex_state s = COMPLETED"
    and "ex_panic s = Some p \<Longrightarrow> \<exists>e. p = UnexpectedKickError e"
    and "i < length (ex_threads s) \<Longrightarrow> pc_ok s (ex_threads s ! i)"
  using assms by (simp_all add: ex_inv_def)

text \<open>
  A step of a thread that is not in charge and does not change the state of the task, and
  the same for one that resolves a tag.
\<close>

lemma pc_ok_cong:
  "ex_state t = ex_state s \<Longrightarrow> ex_started t = ex_started s \<Longrightarrow> ex_ready t = ex_ready s \<Longrightarrow>
   ex_handle t = ex_handle s \<Longrightarrow> pc_ok t pc = pc_ok s pc"
  by (cases pc) simp_all

lemma quiet_inv:
  assumes inv: "ex_inv s" and i: "i < length (ex_threads s)" and h: "\<not> in_charge (ex_threads s ! i)"
    and thr: "ex_threads t = (ex_threads s)[i := pc]"
    and same: "ex_state t = ex_state s" "ex_started t = ex_started s" "ex_ready t = ex_ready s"
      "ex_handle t = ex_handle s" "ex_panic t = ex_panic s" "ex_dropped t = ex_dropped s"
    and tags: "ex_tags t + of_bool (in_charge pc) = ex_tags s"
    and ok: "pc_ok s pc" and wanted: "ex_wanted t \<Longrightarrow> ex_state s = NOTIFIED \<or> ex_state s = COMPLETED"
    and start: "ex_started s"
  shows "ex_inv t"
proof -
  have cong: "pc_ok t = pc_ok s" using pc_ok_cong same by blast
  have ch: "charge t = charge s"
    using free_counts(1) [OF i h, of pc] thr tags same by (simp add: charge_def)
  have "\<forall>j < length (ex_threads t). pc_ok t (ex_threads t ! j)"
    by (rule free_step [OF inv i thr]) (use cong ok in simp_all)
  then show ?thesis
  proof (rule ex_invI)
    show "0 < tcount is_storing (ex_threads t)" if "ex_ready t" "ex_state t \<noteq> COMPLETED"
      using ex_invD(7) [OF inv] that same free_counts(2) [OF i h, of pc] thr by simp
    show "ex_state t = NOTIFIED \<and> ex_started t" if "0 < ex_tags t + ex_dropped t"
    proof -
      have "0 < ex_tags s + ex_dropped s" using that tags same by linarith
      then show ?thesis using ex_invD(2) [OF inv] same by simp
    qed
  qed (use ex_invD [OF inv] same ch wanted start in auto)
qed

lemma ex_state_same [simp]: "s\<lparr>ex_state := ex_state s\<rparr> = s"
  by (cases s) simp

text \<open>The steps of \<^verbatim>\<open>mark_notified\<close>.\<close>

lemmas mark_defs = mark_notified_first_def mark_notified_second_def cas_def

lemma go_mark1:
  "ex_threads s ! i = Mark1 \<Longrightarrow> ex_go i b out s = Some
     (if ex_state s = IDLE then
        if b then ex_goto i Mark1 s
        else ex_goto i Schedule (s\<lparr>ex_state := NOTIFIED, ex_wanted := True\<rparr>)
      else if ex_state s = POLLING then ex_goto i Mark2 s
      else ex_goto i ExOut (s\<lparr>ex_wanted := True\<rparr>))"
  by (auto simp: ex_go_def mark_defs)

lemma go_mark2:
  "ex_threads s ! i = Mark2 \<Longrightarrow> ex_go i b out s = Some
     (if ex_state s = POLLING then
        if b then ex_goto i Mark1 s
        else ex_goto i ExOut (s\<lparr>ex_state := NOTIFIED, ex_wanted := True\<rparr>)
      else if ex_state s = IDLE then ex_goto i Mark1 s
      else ex_goto i ExOut (s\<lparr>ex_wanted := True\<rparr>))"
  by (auto simp: ex_go_def mark_defs)

lemma not_idle_nor_polling:
  "ex_inv s \<Longrightarrow> ex_state s \<noteq> IDLE \<Longrightarrow> ex_state s \<noteq> POLLING \<Longrightarrow> ex_state s = NOTIFIED \<or> ex_state s = COMPLETED"
  using ex_invD(5) by blast

lemma notify_idle_inv:
  assumes inv: "ex_inv s" and i: "i < length (ex_threads s)" and pc: "ex_threads s ! i = Mark1"
    and idle: "ex_state s = IDLE"
  shows "ex_inv (ex_goto i Schedule (s\<lparr>ex_state := NOTIFIED, ex_wanted := True\<rparr>))" (is "ex_inv ?t")
proof -
  have start: "ex_started s" using ex_invD(11) [OF inv i] pc by simp
  have none: "charge s = 0" using ex_invD(3) [OF inv idle start] .
  have "\<not> in_charge (ex_threads s ! i)" using pc by simp
  note cnt = free_counts [OF i this, of Schedule]
  have one: "charge ?t = 1" using none cnt by (simp add: charge_def)
  have "tcount is_storing (ex_threads s) = 0"
    using none storing_in_charge by (auto simp: charge_def tcount_0_iff)
  then have "\<not> ex_ready s" using ex_invD(7) [OF inv] idle by auto
  moreover have "\<forall>j < length (ex_threads ?t). pc_ok ?t (ex_threads ?t ! j)"
  proof (rule free_step [OF inv i, of _ Schedule])
    show "pc_ok ?t pc" if "pc_ok s pc" "in_charge pc \<longrightarrow> 0 < charge s" for pc
      using that none start pc_ok_free [of pc] by auto
  qed (use start in simp_all)
  ultimately show ?thesis
    by (intro ex_invI) (use ex_invD(8,10) [OF inv] one start in simp_all)
qed

lemma notify_polling_inv:
  assumes inv: "ex_inv s" and i: "i < length (ex_threads s)" and pc: "ex_threads s ! i = Mark2"
    and polling: "ex_state s = POLLING"
  shows "ex_inv (ex_goto i ExOut (s\<lparr>ex_state := NOTIFIED, ex_wanted := True\<rparr>))" (is "ex_inv ?t")
proof -
  have start: "ex_started s" using ex_invD(11) [OF inv i] pc by simp
  have "\<not> in_charge (ex_threads s ! i)" using pc by simp
  note cnt = free_counts [OF i this, of ExOut]
  have one: "charge ?t = 1" using ex_invD(4) [OF inv] polling cnt by (simp add: charge_def)
  have "\<forall>j < length (ex_threads ?t). pc_ok ?t (ex_threads ?t ! j)"
  proof (rule free_step [OF inv i, of _ ExOut])
    show "pc_ok ?t pc" if "pc_ok s pc" for pc
      using that polling start by (cases pc) auto
  qed (use start in simp_all)
  then show ?thesis
    by (intro ex_invI) (use ex_invD(7,8,10) [OF inv] one start polling cnt in simp_all)
qed

lemma mark_inv:
  assumes inv: "ex_inv s" and i: "i < length (ex_threads s)" and pc: "ex_threads s ! i = Mark1 \<or> ex_threads s ! i = Mark2"
    and go: "ex_go i b out s = Some t"
  shows "ex_inv t"
proof -
  have start: "ex_started s" and free: "\<not> in_charge (ex_threads s ! i)"
    using ex_invD(11) [OF inv i] pc by auto
  have quiet: "ex_inv (ex_goto i pc s)" if "\<not> in_charge pc" for pc
    using quiet_inv [OF inv i free, of "ex_goto i pc s" pc] ex_invD(9) [OF inv] start that pc_ok_free by auto
  have wanted: "ex_inv (ex_goto i ExOut (s\<lparr>ex_wanted := True\<rparr>))"
    if "ex_state s \<noteq> IDLE" "ex_state s \<noteq> POLLING"
    using quiet_inv [OF inv i free, of "ex_goto i ExOut (s\<lparr>ex_wanted := True\<rparr>)" ExOut]
      not_idle_nor_polling [OF inv that] start by auto
  from pc show ?thesis
  proof
    assume "ex_threads s ! i = Mark1"
    with go go_mark1 [OF this] notify_idle_inv [OF inv i this] quiet wanted show ?thesis
      by (auto split: if_splits)
  next
    assume "ex_threads s ! i = Mark2"
    with go go_mark2 [OF this] notify_polling_inv [OF inv i this] quiet wanted show ?thesis
      by (auto split: if_splits)
  qed
qed

text \<open>The steps of the thread in charge.\<close>

lemma go_poll_enter:
  "ex_threads s ! i = PollEnter v \<Longrightarrow> ex_go i b out s = Some
     (if ex_state s = v then ex_goto i (Polling v) (s\<lparr>ex_state := POLLING, ex_started := True, ex_wanted := False\<rparr>)
      else if ex_state s = COMPLETED then ex_goto i ExOut s
      else ex_goto i ExOut (s\<lparr>ex_panic := Some (UnexpectedState (ex_state s))\<rparr>))"
  by (simp add: ex_go_def poll_enter_def cas_def)

lemma go_park:
  "ex_threads s ! i = Park \<Longrightarrow> ex_go i b out s = Some
     (if ex_state s = POLLING then ex_goto i ExOut (s\<lparr>ex_state := IDLE\<rparr>)
      else if ex_state s = NOTIFIED then ex_goto i (PollEnter NOTIFIED) s
      else ex_goto i ExOut (s\<lparr>ex_panic := Some (UnexpectedState (ex_state s))\<rparr>))"
  by (simp add: ex_go_def poll_park_def cas_def)

lemma go_schedule:
  "ex_threads s ! i = Schedule \<Longrightarrow> ex_go i b out s = Some (ex_goto i ExOut
     (case wake_schedule (fst out) (snd out) of
        Inl p \<Rightarrow> s\<lparr>ex_panic := Some p, ex_dropped := ex_dropped s + 1\<rparr>
      | Inr k \<Rightarrow> if k then s\<lparr>ex_tags := ex_tags s + 1\<rparr> else s\<lparr>ex_dropped := ex_dropped s + 1\<rparr>))"
  by (simp add: ex_go_def split: sum.splits bool.splits)

lemma wake_schedule_panic: "wake_schedule pushed kicked = Inl p \<Longrightarrow> \<exists>e. p = UnexpectedKickError e"
  by (auto simp: wake_schedule_def split: if_splits sum.splits error.splits)

lemma holder_inv:
  assumes inv: "ex_inv s" and i: "i < length (ex_threads s)" and h: "in_charge (ex_threads s ! i)"
    and thr: "ex_threads t = (ex_threads s)[i := pc]"
    and ok: "pc_ok t pc" and start: "ex_started t"
    and tags: "ex_tags t + ex_dropped t \<le> of_bool (\<not> in_charge pc)"
    and state: "ex_state t = IDLE \<longrightarrow> \<not> in_charge pc \<and> ex_tags t + ex_dropped t = 0"
      "ex_state t = NOTIFIED \<or> ex_state t = POLLING \<longrightarrow> in_charge pc \<or> 0 < ex_tags t + ex_dropped t"
      "0 < ex_tags t + ex_dropped t \<longrightarrow> ex_state t = NOTIFIED"
      "ex_state t \<in> {NOTIFIED, IDLE, POLLING, COMPLETED}"
    and ready: "ex_ready t \<longrightarrow> ex_state t = COMPLETED \<or> is_storing pc" "ex_ready t \<or> ex_handle t"
    and wanted: "ex_wanted t \<longrightarrow> ex_state t = NOTIFIED \<or> ex_state t = COMPLETED"
    and panic: "ex_panic t = ex_panic s \<or> (\<exists>e. ex_panic t = Some (UnexpectedKickError e))"
  shows "ex_inv t"
proof (rule ex_invI)
  show "\<forall>j < length (ex_threads t). pc_ok t (ex_threads t ! j)"
    by (rule holder_step [OF inv i h thr]) (use start ok in auto)
  have ch: "charge t = of_bool (in_charge pc) + ex_tags t + ex_dropped t"
    using holder_alone(4) [OF inv i h, of pc] thr by (simp add: charge_def)
  then show "charge t \<le> 1" using tags by (cases "in_charge pc") auto
  show "charge t = 0" if "ex_state t = IDLE" using that state(1) ch by simp
  show "charge t = 1" if "ex_state t = NOTIFIED \<or> ex_state t = POLLING"
    using that state(2) ch tags by (cases "in_charge pc") auto
  show "0 < tcount is_storing (ex_threads t)" if "ex_ready t" "ex_state t \<noteq> COMPLETED"
    using holder_alone(5) [OF inv i h, of pc] that ready thr by simp
  show "\<exists>e. p = UnexpectedKickError e" if "ex_panic t = Some p" for p
    using that panic ex_invD(10) [OF inv] by auto
  show "ex_state t = NOTIFIED \<and> ex_started t" if "0 < ex_tags t + ex_dropped t"
    using that state(3) start by simp
  show "ex_state t \<in> {NOTIFIED, IDLE, POLLING, COMPLETED}" by (fact state(4))
  show "ex_state t = IDLE \<and> \<not> ex_wanted t \<and> \<not> ex_ready t" if "\<not> ex_started t"
    using that start by simp
  show "ex_handle t" if "\<not> ex_ready t" using that ready(2) by blast
  show "ex_state t = NOTIFIED \<or> ex_state t = COMPLETED" if "ex_wanted t" using that wanted by blast
qed

lemma schedule_inv:
  assumes inv: "ex_inv s" and i: "i < length (ex_threads s)" and pc: "ex_threads s ! i = Schedule"
    and go: "ex_go i b out s = Some t"
  shows "ex_inv t"
proof -
  have h: "in_charge (ex_threads s ! i)" using pc by simp
  have st: "ex_started s" "ex_state s = NOTIFIED" using ex_invD(11) [OF inv i] pc by simp_all
  note alone = holder_alone(1,2) [OF inv i h]
  have ready: "\<not> ex_ready s" "ex_handle s"
    using ex_invD(7,8) [OF inv] holder_storing [OF inv i h] st pc by auto
  note facts = st ready alone
  have "ex_inv (ex_goto i ExOut (s\<lparr>ex_panic := Some p, ex_dropped := ex_dropped s + 1\<rparr>))"
    if "\<exists>e. p = UnexpectedKickError e" for p
    by (rule holder_inv [OF inv i h, of _ ExOut]) (use facts that in simp_all)
  moreover have "ex_inv (ex_goto i ExOut (s\<lparr>ex_tags := ex_tags s + 1\<rparr>))"
    by (rule holder_inv [OF inv i h, of _ ExOut]) (use facts in simp_all)
  moreover have "ex_inv (ex_goto i ExOut (s\<lparr>ex_dropped := ex_dropped s + 1\<rparr>))"
    by (rule holder_inv [OF inv i h, of _ ExOut]) (use facts in simp_all)
  ultimately show ?thesis
    using go [unfolded go_schedule [OF pc]] wake_schedule_panic [of "fst out" "snd out"]
    by (auto split: sum.splits if_splits)
qed

lemma poll_enter_inv:
  assumes inv: "ex_inv s" and i: "i < length (ex_threads s)" and pc: "ex_threads s ! i = PollEnter v"
    and go: "ex_go i b out s = Some t"
  shows "ex_inv t"
proof -
  have h: "in_charge (ex_threads s ! i)" using pc by simp
  have ok: "if ex_started s then ex_state s = COMPLETED \<and> v \<noteq> COMPLETED \<or> v = NOTIFIED \<and> ex_state s = NOTIFIED
      else v = IDLE \<and> ex_state s = IDLE"
    using ex_invD(11) [OF inv i] pc by simp
  note alone = holder_alone(1,2) [OF inv i h]
  have ready: "ex_ready s \<longrightarrow> ex_state s = COMPLETED" "ex_ready s \<or> ex_handle s"
    using ex_invD(7,8) [OF inv] holder_storing [OF inv i h] pc by auto
  have "ex_inv (ex_goto i (Polling v) (s\<lparr>ex_state := POLLING, ex_started := True, ex_wanted := False\<rparr>))"
    if "ex_state s \<noteq> COMPLETED" "v \<noteq> COMPLETED"
    by (rule holder_inv [OF inv i h, of _ "Polling v"]) (use alone ready that in auto)
  moreover have "ex_inv (ex_goto i ExOut s)" if "ex_state s = COMPLETED"
    by (rule holder_inv [OF inv i h, of _ ExOut])
      (use alone ready that ok ex_invD(9) [OF inv] in \<open>auto split: if_splits\<close>)
  ultimately show ?thesis
    using go [unfolded go_poll_enter [OF pc]] ok by (auto split: if_splits)
qed

lemma polling_inv:
  assumes inv: "ex_inv s" and i: "i < length (ex_threads s)" and pc: "ex_threads s ! i = Polling v"
    and go: "ex_go i b out s = Some t"
  shows "ex_inv t"
proof -
  have h: "in_charge (ex_threads s ! i)" using pc by simp
  have st: "ex_started s" "ex_state s = POLLING \<or> ex_state s = NOTIFIED" "\<not> ex_ready s" "v \<noteq> COMPLETED"
    using ex_invD(11) [OF inv i] pc by simp_all
  then have "ex_handle s" using ex_invD(8) [OF inv] by simp
  note facts = st this holder_alone(1,2) [OF inv i h] ex_invD(9) [OF inv]
  have "ex_inv (ex_goto i (StoreCompleted v) (s\<lparr>ex_ready := True\<rparr>))"
    by (rule holder_inv [OF inv i h, of _ "StoreCompleted v"]) (use facts in auto)
  moreover have "ex_inv (ex_goto i Park s)"
    by (rule holder_inv [OF inv i h, of _ Park]) (use facts in auto)
  ultimately show ?thesis using go pc \<open>ex_handle s\<close> by (auto simp: ex_go_def split: if_splits)
qed

lemma store_inv:
  assumes inv: "ex_inv s" and i: "i < length (ex_threads s)" and pc: "ex_threads s ! i = StoreCompleted v"
    and go: "ex_go i b out s = Some t"
  shows "ex_inv t"
proof -
  have h: "in_charge (ex_threads s ! i)" using pc by simp
  have st: "ex_started s" "ex_handle s" "ex_ready s" "v \<noteq> COMPLETED" using ex_invD(11) [OF inv i] pc by simp_all
  have t: "t = ex_goto i (TakeHandle v) (s\<lparr>ex_state := COMPLETED\<rparr>)"
    using go pc by (simp add: ex_go_def)
  show ?thesis unfolding t
    by (rule holder_inv [OF inv i h, of _ "TakeHandle v"]) (use st holder_alone(1,2) [OF inv i h] in auto)
qed

lemma take_handle_inv:
  assumes inv: "ex_inv s" and i: "i < length (ex_threads s)" and pc: "ex_threads s ! i = TakeHandle v"
    and go: "ex_go i b out s = Some t"
  shows "ex_inv t"
proof -
  have h: "in_charge (ex_threads s ! i)" using pc by simp
  have st: "ex_started s" "ex_state s = COMPLETED" "ex_ready s" "v \<noteq> COMPLETED"
    using ex_invD(11) [OF inv i] pc by simp_all
  have t: "t = ex_goto i (PollEnter v) (s\<lparr>ex_handle := False\<rparr>)"
    using go pc by (simp add: ex_go_def)
  show ?thesis unfolding t
    by (rule holder_inv [OF inv i h, of _ "PollEnter v"]) (use st holder_alone(1,2) [OF inv i h] in auto)
qed

lemma park_inv:
  assumes inv: "ex_inv s" and i: "i < length (ex_threads s)" and pc: "ex_threads s ! i = Park"
    and go: "ex_go i b out s = Some t"
  shows "ex_inv t"
proof -
  have h: "in_charge (ex_threads s ! i)" using pc by simp
  have st: "ex_started s" "ex_state s = POLLING \<or> ex_state s = NOTIFIED" "\<not> ex_ready s"
    using ex_invD(11) [OF inv i] pc by simp_all
  then have "ex_handle s" using ex_invD(8) [OF inv] by simp
  note facts = st this holder_alone(1,2) [OF inv i h] ex_invD(9) [OF inv]
  have "ex_inv (ex_goto i ExOut (s\<lparr>ex_state := IDLE\<rparr>))" if "ex_state s = POLLING"
    by (rule holder_inv [OF inv i h, of _ ExOut]) (use facts that in auto)
  moreover have "ex_inv (ex_goto i (PollEnter NOTIFIED) s)" if "ex_state s = NOTIFIED"
    by (rule holder_inv [OF inv i h, of _ "PollEnter NOTIFIED"]) (use facts that in auto)
  ultimately show ?thesis using go [unfolded go_park [OF pc]] st(2) by (auto split: if_splits)
qed

lemma ex_step_inv:
  assumes inv: "ex_inv s" and step: "ex_step s t"
  shows "ex_inv t"
proof -
  obtain a where a: "ex_exec a s = Some t" using step by (auto simp: ex_step_def exec_step_def)
  show ?thesis
  proof (cases a)
    case (Wake i)
    with a have i: "i < length (ex_threads s)" "ex_threads s ! i = ExOut" "ex_started s" "t = ex_goto i Mark1 s"
      by (auto simp: ex_exec_def split: if_splits)
    show ?thesis
      by (rule quiet_inv [OF inv i(1), of t Mark1]) (use i ex_invD(9) [OF inv] in simp_all)
  next
    case (Resolve i)
    with a have i: "i < length (ex_threads s)" "ex_threads s ! i = ExOut" "0 < ex_tags s"
        "t = ex_goto i (PollEnter NOTIFIED) (s\<lparr>ex_tags := ex_tags s - 1\<rparr>)"
      by (auto simp: ex_exec_def split: if_splits)
    show ?thesis
      by (rule quiet_inv [OF inv i(1), of t "PollEnter NOTIFIED"]) (use i ex_invD(2,9) [OF inv] in simp_all)
  next
    case (Go i b out)
    with a have i: "i < length (ex_threads s)" and go: "ex_go i b out s = Some t"
      by (auto simp: ex_exec_def split: if_splits)
    then show ?thesis
      using mark_inv [OF inv i _ go] schedule_inv [OF inv i _ go] poll_enter_inv [OF inv i _ go]
        polling_inv [OF inv i _ go] store_inv [OF inv i _ go] take_handle_inv [OF inv i _ go] park_inv [OF inv i _ go]
      by (cases "ex_threads s ! i") (auto simp: ex_go_def)
  qed
qed

interpretation exs: invariant_system ex_init ex_step ex_inv
  by unfold_locales (auto intro: ex_inv_init ex_step_inv)

section \<open>Properties\<close>

text \<open>A schedule in which the task is woken while it is polled and again while it is idle.\<close>

abbreviation queued :: "bool \<times> unit result" where
  "queued \<equiv> (True, Inr ())"

definition ex_sample :: "ex_action list" where
  "ex_sample = [Go 0 False queued, Wake 1, Go 1 True queued, Go 1 False queued, Go 0 False queued,
     Go 0 False queued, Go 0 False queued, Go 0 False queued, Go 0 False queued, Wake 1, Go 1 True queued,
     Go 1 False queued]"

definition ex_sample_state :: ex_sys where
  "ex_sample_state = \<lparr>ex_state = NOTIFIED, ex_handle = True, ex_threads = [ExOut, Schedule],
     ex_tags = 0, ex_dropped = 0, ex_panic = None, ex_started = True, ex_ready = False, ex_wanted = True\<rparr>"

lemmas ex_run_defs = ex_exec_def ex_go_def mark_defs poll_enter_def poll_park_def wake_schedule_def spawn_def

lemma ex_sample_run: "run_acts ex_exec ex_sample (spawn 1) = Some ex_sample_state"
  by (simp add: ex_sample_def ex_run_defs ex_sample_state_def)

lemma ex_reach_run: "run_acts ex_exec as (spawn n) = Some t \<Longrightarrow> reach ex_init ex_step t"
  unfolding ex_step_def
  by (rule run_acts_reach [of ex_exec as "spawn n"]) (auto simp: ex_init_def intro!: reach.reach_init)


definition ex_kick_failed :: ex_sys where
  "ex_kick_failed = \<lparr>ex_state = NOTIFIED, ex_handle = True, ex_threads = [ExOut, ExOut],
     ex_tags = 0, ex_dropped = 1, ex_panic = Some (UnexpectedKickError (CallFailure (GRPC_CALL_ERROR 1))),
     ex_started = True, ex_ready = False, ex_wanted = True\<rparr>"

lemma ex_kick_failed_run:
  "run_acts ex_exec (ex_sample @ [Go 1 False (False, kick (Inr ()) (GRPC_CALL_ERROR 1))]) (spawn 1) = Some ex_kick_failed"
  by (simp add: ex_sample_def ex_run_defs ex_kick_failed_def kick_def)


text \<open>
  C9. At any moment at most one party is responsible for the task: it is queued at most once
  and polled by at most one thread, which finds the future present; and once the future has
  returned ready it is never polled again.
\<close>

theorem executor_exclusive:
  assumes "reach ex_init ex_step s"
  shows "tcount in_charge (ex_threads s) + ex_tags s \<le> 1
    \<and> (\<forall>i < length (ex_threads s). \<forall>v. ex_threads s ! i = Polling v \<longrightarrow> ex_handle s \<and> \<not> ex_ready s)"
proof -
  note inv = exs.reach_inv [OF assms]
  have "ex_handle s \<and> \<not> ex_ready s" if "i < length (ex_threads s)" "ex_threads s ! i = Polling v" for i v
    using ex_invD(11) [OF inv that(1)] ex_invD(8) [OF inv] that(2) by simp
  then show ?thesis using ex_invD(1) [OF inv] by (auto simp: charge_def)
qed

theorem executor_exclusive_witness:
  "tcount in_charge (ex_threads ex_sample_state) + ex_tags ex_sample_state \<le> 1"
  using executor_exclusive [OF ex_reach_run [OF ex_sample_run]] by blast



text \<open>
  A queued tag is acted upon: in any reachable state, any free thread that takes the tag
  and resolves it polls the future in its next step, which answers all wake-ups so far.
\<close>

theorem executor_tag_is_polled:
  assumes "reach ex_init ex_step s" "0 < ex_tags s" "i < length (ex_threads s)" "ex_threads s ! i = ExOut"
  shows "\<exists>t. run_acts ex_exec [Resolve i, Go i b out] s = Some t
    \<and> ex_threads t ! i = Polling NOTIFIED \<and> ex_state t = POLLING \<and> \<not> ex_wanted t \<and> ex_tags t = 0"
proof -
  note inv = exs.reach_inv [OF assms(1)]
  have "ex_state s = NOTIFIED" using ex_invD(2) [OF inv] assms(2) by simp
  moreover have "ex_tags s = 1" using ex_invD(1) [OF inv] assms(2) by (simp add: charge_def)
  ultimately show ?thesis using assms(3,4) by (simp add: ex_exec_def go_poll_enter)
qed

theorem executor_tag_is_polled_witness:
  "\<exists>t. run_acts ex_exec [Resolve 0, Go 0 False queued] (ex_sample_state\<lparr>ex_threads := [ExOut, ExOut], ex_tags := 1\<rparr>) = Some t
    \<and> ex_threads t ! 0 = Polling NOTIFIED \<and> ex_state t = POLLING \<and> \<not> ex_wanted t \<and> ex_tags t = 0"
proof -
  have "run_acts ex_exec (ex_sample @ [Go 1 False queued]) (spawn 1)
      = Some (ex_sample_state\<lparr>ex_threads := [ExOut, ExOut], ex_tags := 1\<rparr>)"
    by (simp add: ex_sample_def ex_run_defs ex_sample_state_def)
  from executor_tag_is_polled [OF ex_reach_run [OF this], of 0 False queued] show ?thesis by simp
qed

end
