(* ===== verification/Grpc_Buf.thy ===== *)
theory Grpc_Buf
  imports Grpc_Status
begin

text \<open>
  \<^verbatim>\<open>src/buf.rs\<close>: slices, byte buffers and the zero-copy message reader, and the
  codecs of \<^verbatim>\<open>src/codec.rs\<close> that write into a slice. The functions of the gRPC C
  core that the file calls are arguments: a record \<open>slice_core\<close> for the slice
  constructors, and for the reader the functions that start it, fetch its next slice and
  give the total length. What the code relies on of them is stated by
  \<open>slice_core_ok\<close> and \<open>reader_next_ok\<close>.
\<close>

section \<open>Slices\<close>

text \<open>
  \<^verbatim>\<open>grpc_slice\<close>: a null reference count means that the bytes are stored
  inline (a length byte and an array of \<open>INLINED_SIZE\<close> bytes), otherwise the slice
  is a reference count, a pointer to memory and a length.
\<close>

definition INLINED_SIZE :: nat where
  "INLINED_SIZE = 8 + 8 - 1 + 8"

datatype grpc_slice =
    Inlined (inl_length: "8 word") (inl_bytes: bytes)
  | Refcounted (rc_ptr: nat) (rc_length: nat) (rc_bytes: bytes)

definition is_inline :: "grpc_slice \<Rightarrow> bool" where
  "is_inline s = (case s of Inlined _ _ \<Rightarrow> True | Refcounted _ _ _ \<Rightarrow> False)"

definition slice_len :: "grpc_slice \<Rightarrow> nat" where
  "slice_len s = (case s of Refcounted _ n _ \<Rightarrow> n | Inlined l _ \<Rightarrow> unat l)"

definition as_slice :: "grpc_slice \<Rightarrow> bytes" where
  "as_slice s = (case s of Refcounted _ n bs \<Rightarrow> take n bs | Inlined l bs \<Rightarrow> take (unat l) bs)"

definition slice_is_empty :: "grpc_slice \<Rightarrow> bool" where
  "slice_is_empty s \<longleftrightarrow> slice_len s = 0"

text \<open>A slice whose length field is backed by memory.\<close>

definition slice_wf :: "grpc_slice \<Rightarrow> bool" where
  "slice_wf s = (case s of
     Inlined l bs \<Rightarrow> length bs = INLINED_SIZE \<and> unat l \<le> INLINED_SIZE
   | Refcounted _ n bs \<Rightarrow> n \<le> length bs)"

text \<open>The slice constructors of the C core.\<close>

record slice_core =
  grpc_empty_slice :: grpc_slice
  grpc_slice_malloc_large :: "nat \<Rightarrow> grpc_slice"
  grpc_slice_from_copied_buffer :: "bytes \<Rightarrow> grpc_slice"
  grpc_slice_from_static_buffer :: "bytes \<Rightarrow> grpc_slice"
  grpc_slice_new_with_len :: "bytes \<Rightarrow> grpc_slice"

definition slice_core_ok :: "slice_core \<Rightarrow> bool" where
  "slice_core_ok c \<longleftrightarrow>
     is_inline (grpc_empty_slice c) \<and> slice_wf (grpc_empty_slice c)
       \<and> slice_len (grpc_empty_slice c) = 0 \<and>
     (\<forall>n. \<not> is_inline (grpc_slice_malloc_large c n) \<and> slice_wf (grpc_slice_malloc_large c n)
       \<and> slice_len (grpc_slice_malloc_large c n) = n) \<and>
     (\<forall>b. slice_wf (grpc_slice_from_copied_buffer c b) \<and> as_slice (grpc_slice_from_copied_buffer c b) = b) \<and>
     (\<forall>b. slice_wf (grpc_slice_from_static_buffer c b) \<and> as_slice (grpc_slice_from_static_buffer c b) = b) \<and>
     (\<forall>b. slice_wf (grpc_slice_new_with_len c b) \<and> as_slice (grpc_slice_new_with_len c b) = b)"

definition slice_default :: "slice_core \<Rightarrow> grpc_slice" where
  "slice_default c = grpc_empty_slice c"

definition from_static_slice :: "slice_core \<Rightarrow> bytes \<Rightarrow> grpc_slice" where
  "from_static_slice c s = grpc_slice_from_static_buffer c s"

definition from_static_str :: "slice_core \<Rightarrow> string \<Rightarrow> grpc_slice" where
  "from_static_str c s = from_static_slice c s"

text \<open>
  \<^verbatim>\<open>realloc\<close>: the slice it leaves behind. The mutable byte slice it returns
  is the first \<open>slice_len\<close> bytes of it, which \<open>slice_write\<close> fills.
\<close>

definition set_inlined_length :: "8 word \<Rightarrow> grpc_slice \<Rightarrow> grpc_slice" where
  "set_inlined_length l s = (case s of Inlined _ bs \<Rightarrow> Inlined l bs | Refcounted p n bs \<Rightarrow> Refcounted p n bs)"

definition slice_realloc :: "slice_core \<Rightarrow> grpc_slice \<Rightarrow> nat \<Rightarrow> grpc_slice" where
  "slice_realloc c self cap =
     (if cap \<le> INLINED_SIZE then
        (let self = (if \<not> is_inline self then slice_default c else self)
         in set_inlined_length (of_nat cap) self)
      else grpc_slice_malloc_large c cap)"

definition slice_write :: "bytes \<Rightarrow> grpc_slice \<Rightarrow> grpc_slice" where
  "slice_write new s = (case s of
     Inlined l bs \<Rightarrow> Inlined l (new @ drop (length new) bs)
   | Refcounted p n bs \<Rightarrow> Refcounted p n (new @ drop (length new) bs))"

text \<open>
  \<^verbatim>\<open>From<Vec<u8>>\<close> takes the vector's memory over when it has no spare
  capacity, copies it otherwise; the other conversions copy.
\<close>

definition slice_from_vec :: "slice_core \<Rightarrow> bytes \<Rightarrow> nat \<Rightarrow> grpc_slice" where
  "slice_from_vec c v capacity =
     (if v = [] then slice_default c
      else if length v = capacity then grpc_slice_new_with_len c v
      else grpc_slice_from_copied_buffer c v)"

definition slice_from_string :: "slice_core \<Rightarrow> string \<Rightarrow> nat \<Rightarrow> grpc_slice" where
  "slice_from_string c s capacity = slice_from_vec c s capacity"

definition slice_from_cstring :: "slice_core \<Rightarrow> bytes \<Rightarrow> nat \<Rightarrow> grpc_slice" where
  "slice_from_cstring c s capacity = slice_from_vec c s capacity"

definition slice_from_bytes :: "slice_core \<Rightarrow> bytes \<Rightarrow> grpc_slice" where
  "slice_from_bytes c s = grpc_slice_from_copied_buffer c s"

definition slice_from_str :: "slice_core \<Rightarrow> string \<Rightarrow> grpc_slice" where
  "slice_from_str c s = slice_from_bytes c s"

definition slice_from_cstr :: "slice_core \<Rightarrow> bytes \<Rightarrow> grpc_slice" where
  "slice_from_cstr c s = slice_from_bytes c s"

definition slice_eq_bytes :: "grpc_slice \<Rightarrow> bytes \<Rightarrow> bool" where
  "slice_eq_bytes s r \<longleftrightarrow> as_slice s = r"

lemmas slice_defs [op_defs] =
  is_inline_def slice_len_def as_slice_def slice_is_empty_def slice_wf_def slice_default_def
  from_static_slice_def from_static_str_def set_inlined_length_def slice_write_def

subsection \<open>Facts about slices\<close>

lemma length_as_slice [simp]: "slice_wf s \<Longrightarrow> length (as_slice s) = slice_len s"
  by (auto simp: op_defs split: grpc_slice.splits)

lemma as_slice_Nil_iff: "slice_wf s \<Longrightarrow> as_slice s = [] \<longleftrightarrow> slice_is_empty s"
  by (metis length_as_slice length_0_conv slice_is_empty_def)

lemma slice_core_okD:
  assumes "slice_core_ok c"
  shows "is_inline (grpc_empty_slice c)" "slice_wf (grpc_empty_slice c)"
    "slice_len (grpc_empty_slice c) = 0"
    "\<not> is_inline (grpc_slice_malloc_large c n)" "slice_wf (grpc_slice_malloc_large c n)"
    "slice_len (grpc_slice_malloc_large c n) = n"
    "slice_wf (grpc_slice_from_copied_buffer c b)" "as_slice (grpc_slice_from_copied_buffer c b) = b"
    "slice_wf (grpc_slice_from_static_buffer c b)" "as_slice (grpc_slice_from_static_buffer c b) = b"
    "slice_wf (grpc_slice_new_with_len c b)" "as_slice (grpc_slice_new_with_len c b) = b"
  using assms unfolding slice_core_ok_def by blast+

lemma slice_default_empty:
  assumes "slice_core_ok c"
  shows "as_slice (slice_default c) = []" "slice_wf (slice_default c)"
  using slice_core_okD(1-3) [OF assms] by (simp_all add: slice_default_def as_slice_Nil_iff slice_is_empty_def)

lemma unat_of_nat_inlined: "cap \<le> INLINED_SIZE \<Longrightarrow> unat (of_nat cap :: 8 word) = cap"
  by (simp add: unat_of_nat INLINED_SIZE_def)

text \<open>\<^verbatim>\<open>realloc\<close> yields a well-formed slice of exactly the length asked for.\<close>

lemma realloc_ok:
  assumes "slice_core_ok c" "slice_wf s"
  shows "slice_wf (slice_realloc c s cap) \<and> slice_len (slice_realloc c s cap) = cap"
proof (cases "cap \<le> INLINED_SIZE")
  case True
  have "slice_wf s' \<Longrightarrow> is_inline s' \<Longrightarrow>
    slice_wf (set_inlined_length (of_nat cap) s') \<and> slice_len (set_inlined_length (of_nat cap) s') = cap" for s'
    using True by (cases s') (simp_all add: op_defs unat_of_nat_inlined)
  with True assms slice_core_okD(1,2) [OF assms(1)] show ?thesis
    by (simp add: slice_realloc_def slice_default_def Let_def)
next
  case False
  with slice_core_okD(5,6) [OF assms(1), of cap] show ?thesis
    by (simp add: slice_realloc_def)
qed

lemma slice_write_ok:
  assumes "slice_wf s" "length new = slice_len s"
  shows "slice_wf (slice_write new s)" "as_slice (slice_write new s) = new"
    "slice_len (slice_write new s) = slice_len s"
  using assms by (auto simp: op_defs split: grpc_slice.splits)

lemma slice_from_vec_ok:
  assumes "slice_core_ok c"
  shows "as_slice (slice_from_vec c v capacity) = v \<and> slice_wf (slice_from_vec c v capacity)"
  using slice_core_okD [OF assms] slice_default_empty [OF assms] by (simp add: slice_from_vec_def)

section \<open>Codecs\<close>

text \<open>
  \<^verbatim>\<open>pb_codec::ser\<close> and \<^verbatim>\<open>pr_codec::ser\<close>: the slice is
  resized to the message's computed size and the message's encoder writes into exactly
  that memory. The encoder fails if the message does not fit, which the code turns into a
  panic; \<open>encode\<close> and \<open>compute_size\<close> stand for the protobuf library.
\<close>

definition codec_ser ::
  "slice_core \<Rightarrow> ('t \<Rightarrow> nat) \<Rightarrow> ('t \<Rightarrow> bytes) \<Rightarrow> 't \<Rightarrow> grpc_slice \<Rightarrow> grpc_slice outcome" where
  "codec_ser c compute_size encode t buf =
     (let cap = compute_size t; buf = slice_realloc c buf cap; out = encode t
      in if length out \<le> slice_len buf then Ret (slice_write out buf)
         else Panic ''Writing message to buffer failed'')"

text \<open>\<^verbatim>\<open>de\<close>: the library's decoder, its error boxed into \<open>Codec\<close>.\<close>

definition codec_de :: "('r \<Rightarrow> string + 't) \<Rightarrow> 'r \<Rightarrow> 't result" where
  "codec_de decode reader = (case decode reader of Inl e \<Rightarrow> Inl (Codec e) | Inr m \<Rightarrow> Inr m)"

section \<open>The message reader\<close>

text \<open>
  \<^verbatim>\<open>GrpcByteBufferReader\<close>. The core's reader is a value of type
  \<open>'r\<close>; \<open>nx\<close> is \<^verbatim>\<open>grpc_byte_buffer_reader_next\<close>, which returns the
  next slice and the advanced reader, or nothing at the end. \<open>rd_unrefs\<close> records, in
  order, the slices that the reader has dropped, that is, passed to
  \<^verbatim>\<open>grpc_slice_unref\<close>.
\<close>

type_synonym 'r reader_next = "'r \<Rightarrow> (grpc_slice \<times> 'r) option"

record 'r reader =
  rd_core :: 'r
  rd_slice :: grpc_slice
  rd_offset :: nat
  rd_remain :: nat
  rd_unrefs :: "grpc_slice list"

text \<open>
  \<open>pend r\<close> is what the core's reader \<open>r\<close> will still hand out: the contract of
  \<^verbatim>\<open>grpc_byte_buffer_reader_next\<close>.
\<close>

definition reader_next_ok :: "'r reader_next \<Rightarrow> ('r \<Rightarrow> grpc_slice list) \<Rightarrow> bool" where
  "reader_next_ok nx pend \<longleftrightarrow>
     (\<forall>r. (pend r = [] \<longrightarrow> nx r = None) \<and>
          (\<forall>s ss. pend r = s # ss \<longrightarrow> (\<exists>r'. nx r = Some (s, r') \<and> pend r' = ss)) \<and>
          (\<forall>s \<in> set (pend r). slice_wf s))"

text \<open>Fetching a slice leaves the output buffer, whose length is read afterwards, as it is.\<close>

definition out_len_stable :: "'r reader_next \<Rightarrow> ('r \<Rightarrow> nat) \<Rightarrow> bool" where
  "out_len_stable nx out_len \<longleftrightarrow> (\<forall>r s r'. nx r = Some (s, r') \<longrightarrow> out_len r' = out_len r)"

text \<open>
  \<^verbatim>\<open>new\<close>: \<open>init\<close> is \<^verbatim>\<open>grpc_byte_buffer_reader_init\<close>,
  \<open>out_len\<close> the length of its output buffer.
\<close>

definition reader_new ::
  "slice_core \<Rightarrow> ('b \<Rightarrow> nat \<times> 'r) \<Rightarrow> 'r reader_next \<Rightarrow> ('r \<Rightarrow> nat) \<Rightarrow> 'b \<Rightarrow> 'r reader outcome" where
  "reader_new c init nx out_len buf =
     (case init buf of (cd, r) \<Rightarrow>
        if cd \<noteq> 1 then Panic ''assertion failed: code == 1''
        else (case (case nx r of None \<Rightarrow> (grpc_empty_slice c, r) | Some (s, r') \<Rightarrow> (s, r')) of
          (s, r') \<Rightarrow> Ret \<lparr>rd_core = r', rd_slice = s, rd_offset = 0, rd_remain = out_len r', rd_unrefs = []\<rparr>))"

definition load_next_slice :: "slice_core \<Rightarrow> 'r reader_next \<Rightarrow> 'r reader \<Rightarrow> 'r reader" where
  "load_next_slice c nx self =
     (let self = self\<lparr>rd_unrefs := rd_unrefs self @ [rd_slice self]\<rparr>
      in (case nx (rd_core self) of
            None \<Rightarrow> self\<lparr>rd_slice := slice_default c, rd_offset := 0\<rparr>
          | Some (s, r') \<Rightarrow> self\<lparr>rd_core := r', rd_slice := s, rd_offset := 0\<rparr>))"

definition reader_len :: "'r reader \<Rightarrow> nat" where
  "reader_len self = rd_remain self"

definition reader_is_empty :: "'r reader \<Rightarrow> bool" where
  "reader_is_empty self \<longleftrightarrow> rd_remain self = 0"

text \<open>\<^verbatim>\<open>fill_buf\<close> never fails; \<open>Inl\<close> would be an I/O error.\<close>

definition fill_buf :: "'r reader \<Rightarrow> string + bytes" where
  "fill_buf self =
     (if slice_is_empty (rd_slice self) then Inr []
      else Inr (drop (rd_offset self) (as_slice (rd_slice self))))"

text \<open>The loop of \<^verbatim>\<open>consume\<close>; not returning is \<open>None\<close>.\<close>

partial_function (option) consume_loop ::
  "slice_core \<Rightarrow> 'r reader_next \<Rightarrow> 'r reader \<Rightarrow> nat \<Rightarrow> 'r reader option" where
  "consume_loop c nx self offset =
     (if slice_len (rd_slice self) \<le> offset \<and> 0 < offset
      then consume_loop c nx (load_next_slice c nx self) (offset - slice_len (rd_slice self))
      else Some (self\<lparr>rd_offset := offset\<rparr>))"

definition consume :: "slice_core \<Rightarrow> 'r reader_next \<Rightarrow> 'r reader \<Rightarrow> nat \<Rightarrow> 'r reader option" where
  "consume c nx self amt =
     (let amt = (if amt > rd_remain self then rd_remain self else amt);
          self = self\<lparr>rd_remain := rd_remain self - amt\<rparr>
      in consume_loop c nx self (rd_offset self + amt))"

text \<open>
  \<^verbatim>\<open>Read::read\<close> into a buffer of \<open>n\<close> bytes, and the loop of
  \<^verbatim>\<open>read_to_end\<close>, over the operations it calls: \<open>fill\<close>,
  \<open>cons\<close> and \<open>rem\<close>. An error restores the buffer's old contents.
\<close>

definition read_with ::
  "('s \<Rightarrow> string + bytes) \<Rightarrow> ('s \<Rightarrow> nat \<Rightarrow> 's option) \<Rightarrow> 's \<Rightarrow> nat \<Rightarrow> ((string + bytes) \<times> 's) option" where
  "read_with fill cons self n =
     (case fill self of
        Inl e \<Rightarrow> Some (Inl e, self)
      | Inr s \<Rightarrow> (let out = take n s in Option.bind (cons self (length out)) (\<lambda>self'. Some (Inr out, self'))))"

partial_function (option) read_loop ::
  "('s \<Rightarrow> string + bytes) \<Rightarrow> ('s \<Rightarrow> nat \<Rightarrow> 's option) \<Rightarrow> ('s \<Rightarrow> nat) \<Rightarrow> nat \<Rightarrow> nat \<Rightarrow> 's \<Rightarrow> bytes
     \<Rightarrow> ((string + nat) \<times> bytes \<times> 's) option" where
  "read_loop fill cons rem cap old_len self buf =
     (if rem self > 0
      then (case fill self of
              Inl e \<Rightarrow> Some (Inl e, take old_len buf, self)
            | Inr s \<Rightarrow> Option.bind (cons self (length s)) (\<lambda>self'. read_loop fill cons rem cap old_len self' (buf @ s)))
      else Some (Inr cap, buf, self))"

definition reader_read ::
  "slice_core \<Rightarrow> 'r reader_next \<Rightarrow> 'r reader \<Rightarrow> nat \<Rightarrow> ((string + bytes) \<times> 'r reader) option" where
  "reader_read c nx self n = read_with fill_buf (consume c nx) self n"

definition read_to_end ::
  "slice_core \<Rightarrow> 'r reader_next \<Rightarrow> 'r reader \<Rightarrow> bytes \<Rightarrow> ((string + nat) \<times> bytes \<times> 'r reader) option" where
  "read_to_end c nx self buf =
     read_loop fill_buf (consume c nx) rd_remain (rd_remain self) (length buf) self buf"

text \<open>\<^verbatim>\<open>impl bytes::Buf\<close>.\<close>

definition buf_remaining :: "'r reader \<Rightarrow> nat" where
  "buf_remaining self = rd_remain self"

definition buf_chunk :: "'r reader \<Rightarrow> bytes" where
  "buf_chunk self =
     (if slice_is_empty (rd_slice self) then []
      else drop (rd_offset self) (as_slice (rd_slice self)))"

definition buf_advance :: "slice_core \<Rightarrow> 'r reader_next \<Rightarrow> 'r reader \<Rightarrow> nat \<Rightarrow> 'r reader option" where
  "buf_advance c nx self cnt = consume c nx self cnt"

text \<open>\<^verbatim>\<open>Drop\<close>: all slices given back over the reader's life.\<close>

definition reader_drop :: "'r reader \<Rightarrow> grpc_slice list" where
  "reader_drop self = rd_unrefs self @ [rd_slice self]"

subsection \<open>The contract of a buffered reader\<close>

text \<open>
  What \<^verbatim>\<open>BufRead\<close> promises to \<^verbatim>\<open>read\<close> and
  \<^verbatim>\<open>read_to_end\<close>: the filled buffer is a prefix of the unread bytes, and is
  not empty while there are any; consuming drops bytes from the front.
\<close>

locale buf_read =
  fixes fill :: "'s \<Rightarrow> string + bytes"
    and cons :: "'s \<Rightarrow> nat \<Rightarrow> 's option"
    and rem :: "'s \<Rightarrow> nat"
    and unread :: "'s \<Rightarrow> bytes"
    and inv :: "'s \<Rightarrow> bool"
  assumes fill_prefix: "inv r \<Longrightarrow> \<exists>s rest. fill r = Inr s \<and> unread r = s @ rest"
    and fill_progress: "inv r \<Longrightarrow> unread r \<noteq> [] \<Longrightarrow> fill r \<noteq> Inr []"
    and consume_drops: "inv r \<Longrightarrow> \<exists>r'. cons r n = Some r' \<and> inv r' \<and> unread r' = drop n (unread r)"
    and rem_length: "inv r \<Longrightarrow> rem r = length (unread r)"
begin

lemma read_ok:
  assumes "inv r" "0 < n"
  shows "\<exists>out r'. read_with fill cons r n = Some (Inr out, r') \<and> inv r' \<and> unread r = out @ unread r'
    \<and> length out \<le> n \<and> (out = [] \<longrightarrow> unread r = [])"
proof -
  obtain s rest where s: "fill r = Inr s" "unread r = s @ rest"
    using fill_prefix assms(1) by blast
  obtain r' where r': "cons r (length (take n s)) = Some r'" "inv r'"
      "unread r' = drop (length (take n s)) (unread r)"
    using consume_drops assms(1) by blast
  have "unread r = take n s @ unread r'"
    using s(2) r'(3) append_take_drop_id [of n s] by (cases "length s \<le> n") auto
  moreover have "take n s = [] \<longrightarrow> unread r = []"
    using fill_progress [OF assms(1)] s assms(2) by auto
  ultimately show ?thesis
    using s r' by (simp add: read_with_def Let_def)
qed

lemma read_loop_ok:
  "inv r \<Longrightarrow> \<exists>r'. read_loop fill cons rem cap old r buf = Some (Inr cap, buf @ unread r, r') \<and> inv r' \<and> unread r' = []"
proof (induction "length (unread r)" arbitrary: r buf rule: less_induct)
  case less
  show ?case
  proof (cases "unread r = []")
    case True
    with less.prems show ?thesis by (subst read_loop.simps) (simp add: rem_length)
  next
    case False
    obtain s rest where s: "fill r = Inr s" "unread r = s @ rest"
      using fill_prefix less.prems by blast
    obtain r' where r': "cons r (length s) = Some r'" "inv r'" "unread r' = drop (length s) (unread r)"
      using consume_drops less.prems by blast
    have "s \<noteq> []" using fill_progress [OF less.prems False] s by auto
    then have "length (unread r') < length (unread r)" using s r' by simp
    then obtain r'' where
      "read_loop fill cons rem cap old r' (buf @ s) = Some (Inr cap, (buf @ s) @ unread r', r'')"
      "inv r''" "unread r'' = []"
      using less.hyps r'(2) by blast
    then show ?thesis using False less.prems s r'
      by (subst read_loop.simps) (simp add: rem_length)
  qed
qed

end

subsection \<open>The reader keeps the contract\<close>

definition all_bytes :: "('r \<Rightarrow> grpc_slice list) \<Rightarrow> 'r reader \<Rightarrow> bytes" where
  "all_bytes pend r = as_slice (rd_slice r) @ concat (map as_slice (pend (rd_core r)))"

definition reader_unread :: "('r \<Rightarrow> grpc_slice list) \<Rightarrow> 'r reader \<Rightarrow> bytes" where
  "reader_unread pend r = drop (rd_offset r) (all_bytes pend r)"

definition reader_inv :: "('r \<Rightarrow> grpc_slice list) \<Rightarrow> 'r reader \<Rightarrow> bool" where
  "reader_inv pend r \<longleftrightarrow>
     slice_wf (rd_slice r) \<and> (rd_offset r < slice_len (rd_slice r) \<or> rd_offset r = 0) \<and>
     rd_remain r = length (reader_unread pend r)"

text \<open>No empty slice is in front of unread bytes.\<close>

definition no_gap :: "('r \<Rightarrow> grpc_slice list) \<Rightarrow> 'r reader \<Rightarrow> bool" where
  "no_gap pend r \<longleftrightarrow>
     (\<forall>s \<in> set (pend (rd_core r)). \<not> slice_is_empty s) \<and>
     (0 < rd_remain r \<longrightarrow> \<not> slice_is_empty (rd_slice r))"

text \<open>The reference-counted slices that were handed to the reader or still will be.\<close>

definition owned :: "('r \<Rightarrow> grpc_slice list) \<Rightarrow> 'r reader \<Rightarrow> grpc_slice list" where
  "owned pend r = filter (\<lambda>s. \<not> is_inline s) (rd_unrefs r @ rd_slice r # pend (rd_core r))"

lemma offset_update_simps [simp]:
  "all_bytes pend (r\<lparr>rd_offset := k\<rparr>) = all_bytes pend r"
  "owned pend (r\<lparr>rd_offset := k\<rparr>) = owned pend r"
  "reader_unread pend (r\<lparr>rd_offset := k\<rparr>) = drop k (all_bytes pend r)"
  by (simp_all add: all_bytes_def owned_def reader_unread_def)

lemma reader_next_okD:
  assumes "reader_next_ok nx pend"
  shows "pend r = [] \<Longrightarrow> nx r = None"
    "pend r = s # ss \<Longrightarrow> \<exists>r'. nx r = Some (s, r') \<and> pend r' = ss"
    "s \<in> set (pend r) \<Longrightarrow> slice_wf s"
  using assms unfolding reader_next_ok_def by blast+

lemma load_next_slice_Nil:
  assumes "slice_core_ok c" "reader_next_ok nx pend" "pend (rd_core r) = []"
  shows "slice_wf (rd_slice (load_next_slice c nx r))" "all_bytes pend (load_next_slice c nx r) = []"
    "slice_len (rd_slice (load_next_slice c nx r)) = 0" "pend (rd_core (load_next_slice c nx r)) = []"
    "owned pend (load_next_slice c nx r) = owned pend r"
    "rd_remain (load_next_slice c nx r) = rd_remain r"
  using slice_default_empty [OF assms(1)] slice_core_okD(1,3) [OF assms(1)]
    reader_next_okD(1) [OF assms(2,3)] assms(3)
  by (simp_all add: load_next_slice_def Let_def all_bytes_def owned_def slice_default_def)

lemma load_next_slice_Cons:
  assumes "reader_next_ok nx pend" "pend (rd_core r) = s # ss"
  shows "slice_wf (rd_slice (load_next_slice c nx r))" "rd_slice (load_next_slice c nx r) = s"
    "pend (rd_core (load_next_slice c nx r)) = ss"
    "all_bytes pend (load_next_slice c nx r) = concat (map as_slice (s # ss))"
    "owned pend (load_next_slice c nx r) = owned pend r"
    "rd_remain (load_next_slice c nx r) = rd_remain r"
  using reader_next_okD(2) [OF assms] reader_next_okD(3) [OF assms(1), of s "rd_core r"] assms(2)
  by (auto simp: load_next_slice_def Let_def all_bytes_def owned_def)

text \<open>
  The loop returns whenever the offset is within the bytes that are left; it drops exactly
  that many bytes, and every slice it passes is given back.
\<close>

lemma consume_loop_ok:
  assumes "slice_core_ok c" "reader_next_ok nx pend" "slice_wf (rd_slice r)"
    "offset \<le> length (all_bytes pend r)"
  shows "\<exists>r'. consume_loop c nx r offset = Some r' \<and> slice_wf (rd_slice r')
    \<and> (rd_offset r' < slice_len (rd_slice r') \<or> rd_offset r' = 0)
    \<and> reader_unread pend r' = drop offset (all_bytes pend r)
    \<and> rd_remain r' = rd_remain r \<and> owned pend r' = owned pend r
    \<and> set (pend (rd_core r')) \<subseteq> set (pend (rd_core r))
    \<and> (rd_slice r' \<in> set (rd_slice r # pend (rd_core r)) \<or> reader_unread pend r' = [])"
  using assms(3,4)
proof (induction "pend (rd_core r)" arbitrary: r offset)
  case Nil
  show ?case
  proof (cases "slice_len (rd_slice r) \<le> offset \<and> 0 < offset")
    case True
    note load = load_next_slice_Nil [OF assms(1,2) Nil.hyps(1) [symmetric]]
    have off: "offset = slice_len (rd_slice r)"
      using True Nil by (simp add: all_bytes_def Nil.hyps(1) [symmetric])
    then have "consume_loop c nx r offset = Some (load_next_slice c nx r\<lparr>rd_offset := 0\<rparr>)"
      using True load(3) by (subst consume_loop.simps) (simp add: consume_loop.simps)
    then show ?thesis
      using load Nil.prems off by (simp add: all_bytes_def [of _ r] Nil.hyps(1) [symmetric])
  next
    case False
    then have "consume_loop c nx r offset = Some (r\<lparr>rd_offset := offset\<rparr>)"
      by (subst consume_loop.simps) auto
    with False Nil.prems show ?thesis by auto
  qed
next
  case (Cons s ss)
  show ?case
  proof (cases "slice_len (rd_slice r) \<le> offset \<and> 0 < offset")
    case True
    note load = load_next_slice_Cons [OF assms(2) Cons.hyps(2) [symmetric], of c]
    let ?o = "offset - slice_len (rd_slice r)"
    have bytes: "all_bytes pend r = as_slice (rd_slice r) @ all_bytes pend (load_next_slice c nx r)"
      using load by (simp add: all_bytes_def Cons.hyps(2) [symmetric])
    have "?o \<le> length (all_bytes pend (load_next_slice c nx r))"
      using Cons.prems True bytes by simp
    from Cons.hyps(1) [OF load(3) [symmetric] load(1) this]
    obtain r' where r': "consume_loop c nx (load_next_slice c nx r) ?o = Some r'" "slice_wf (rd_slice r')"
      "rd_offset r' < slice_len (rd_slice r') \<or> rd_offset r' = 0"
      "reader_unread pend r' = drop ?o (all_bytes pend (load_next_slice c nx r))"
      "rd_remain r' = rd_remain (load_next_slice c nx r)" "owned pend r' = owned pend (load_next_slice c nx r)"
      "set (pend (rd_core r')) \<subseteq> set ss"
      "rd_slice r' \<in> set (s # ss) \<or> reader_unread pend r' = []"
      using load by auto
    moreover have "drop offset (all_bytes pend r) = drop ?o (all_bytes pend (load_next_slice c nx r))"
      using True Cons.prems(1) by (simp add: bytes)
    ultimately show ?thesis
      using True load by (subst consume_loop.simps) (auto simp: Cons.hyps(2) [symmetric])
  next
    case False
    then have "consume_loop c nx r offset = Some (r\<lparr>rd_offset := offset\<rparr>)"
      by (subst consume_loop.simps) auto
    with False Cons.prems show ?thesis by auto
  qed
qed

lemma remain_update_simps [simp]:
  "all_bytes pend (r\<lparr>rd_remain := k\<rparr>) = all_bytes pend r"
  "owned pend (r\<lparr>rd_remain := k\<rparr>) = owned pend r"
  "reader_unread pend (r\<lparr>rd_remain := k\<rparr>) = reader_unread pend r"
  by (simp_all add: all_bytes_def owned_def reader_unread_def)

lemma reader_inv_offset_le:
  "reader_inv pend r \<Longrightarrow> rd_offset r \<le> slice_len (rd_slice r)"
  by (auto simp: reader_inv_def)

lemma offset_le_all_bytes:
  "reader_inv pend r \<Longrightarrow> rd_offset r + rd_remain r = length (all_bytes pend r)"
  by (auto simp: reader_inv_def reader_unread_def all_bytes_def)

lemma consume_steps:
  assumes "slice_core_ok c" "reader_next_ok nx pend" "reader_inv pend r"
  shows "\<exists>r'. consume c nx r n = Some r' \<and> reader_inv pend r'
    \<and> reader_unread pend r' = drop n (reader_unread pend r) \<and> owned pend r' = owned pend r
    \<and> (no_gap pend r \<longrightarrow> no_gap pend r')"
proof -
  let ?m = "min n (rd_remain r)"
  let ?r = "r\<lparr>rd_remain := rd_remain r - ?m\<rparr>"
  have loop: "consume c nx r n = consume_loop c nx ?r (rd_offset r + ?m)"
    by (auto simp: consume_def Let_def min_def)
  have "slice_wf (rd_slice ?r)" "rd_offset r + ?m \<le> length (all_bytes pend ?r)"
    using assms(3) offset_le_all_bytes [OF assms(3)] by (auto simp: reader_inv_def)
  from consume_loop_ok [OF assms(1,2) this]
  obtain r' where r': "consume_loop c nx ?r (rd_offset r + ?m) = Some r'" "slice_wf (rd_slice r')"
    "rd_offset r' < slice_len (rd_slice r') \<or> rd_offset r' = 0"
    "reader_unread pend r' = drop (rd_offset r + ?m) (all_bytes pend r)"
    "rd_remain r' = rd_remain r - ?m" "owned pend r' = owned pend r"
    "set (pend (rd_core r')) \<subseteq> set (pend (rd_core r))"
    "rd_slice r' \<in> set (rd_slice r # pend (rd_core r)) \<or> reader_unread pend r' = []"
    by auto
  have "drop ?m (reader_unread pend r) = drop n (reader_unread pend r)"
    using assms(3) by (auto simp: min_def reader_inv_def)
  then have unread: "reader_unread pend r' = drop n (reader_unread pend r)"
    by (simp add: r'(4) reader_unread_def [of _ r] add.commute)
  have remain: "rd_remain r' = length (reader_unread pend r')"
    using assms(3) r'(5) by (simp add: unread reader_inv_def min_def)
  have "no_gap pend r \<longrightarrow> no_gap pend r'"
    using r'(5,7,8) remain by (auto simp: no_gap_def)
  then show ?thesis
    using loop r' unread remain by (simp add: reader_inv_def)
qed

lemma fill_buf_drop: "reader_inv pend r \<Longrightarrow> fill_buf r = Inr (drop (rd_offset r) (as_slice (rd_slice r)))"
  by (auto simp: fill_buf_def reader_inv_def as_slice_Nil_iff slice_is_empty_def)

lemma reader_inv_remain: "reader_inv pend r \<Longrightarrow> rd_remain r = length (reader_unread pend r)"
  by (simp add: reader_inv_def)

lemma fill_buf_prefix: "reader_inv pend r \<Longrightarrow> \<exists>s rest. fill_buf r = Inr s \<and> reader_unread pend r = s @ rest"
  by (auto simp: fill_buf_drop reader_unread_def all_bytes_def)

lemma fill_buf_progress:
  "reader_inv pend r \<Longrightarrow> no_gap pend r \<Longrightarrow> reader_unread pend r \<noteq> [] \<Longrightarrow> fill_buf r \<noteq> Inr []"
  by (auto simp: fill_buf_drop) (auto simp: reader_inv_def no_gap_def slice_is_empty_def)

abbreviation reader_good ::
  "slice_core \<Rightarrow> 'r reader_next \<Rightarrow> ('r \<Rightarrow> grpc_slice list) \<Rightarrow> grpc_slice list \<Rightarrow> 'r reader \<Rightarrow> bool" where
  "reader_good c nx pend own r \<equiv>
     slice_core_ok c \<and> reader_next_ok nx pend \<and> reader_inv pend r \<and> no_gap pend r \<and> owned pend r = own"

interpretation rd: buf_read fill_buf "consume c nx" rd_remain "reader_unread pend" "reader_good c nx pend own"
  for c nx pend own
proof unfold_locales
  fix r n
  assume "reader_good c nx pend own r"
  then show "\<exists>r'. consume c nx r n = Some r' \<and> reader_good c nx pend own r' \<and>
      reader_unread pend r' = drop n (reader_unread pend r)"
    using consume_steps [of c nx pend r n] by fastforce
qed (auto dest: reader_inv_remain fill_buf_prefix fill_buf_progress)

text \<open>The view the \<^verbatim>\<open>prost\<close> codec has of the same reader.\<close>

interpretation bf: buf_read "\<lambda>r. Inr (buf_chunk r)" "buf_advance c nx" buf_remaining "reader_unread pend"
  "reader_good c nx pend own" for c nx pend own
proof unfold_locales
  fix r n
  assume good: "reader_good c nx pend own r"
  show "\<exists>r'. buf_advance c nx r n = Some r' \<and> reader_good c nx pend own r' \<and>
      reader_unread pend r' = drop n (reader_unread pend r)"
    using rd.consume_drops [OF good, of n] by (simp add: buf_advance_def)
next
  have chunk: "fill_buf r = Inr (buf_chunk r)" for r :: "'a reader"
    by (simp add: fill_buf_def buf_chunk_def)
  fix r
  assume good: "reader_good c nx pend own r"
  show "\<exists>s rest. Inr (buf_chunk r) = Inr s \<and> reader_unread pend r = s @ rest"
    using rd.fill_prefix [OF good] by (simp add: chunk)
  show "reader_unread pend r \<noteq> [] \<Longrightarrow> Inr (buf_chunk r) \<noteq> (Inr [] :: string + bytes)"
    using rd.fill_progress [OF good] by (simp add: chunk)
  show "buf_remaining r = length (reader_unread pend r)"
    using rd.rem_length [OF good] by (simp add: buf_remaining_def)
qed

lemma reader_new_steps:
  assumes "slice_core_ok c" "reader_next_ok nx pend" "init buf = (1, r0)"
    "out_len_stable nx out_len" "out_len r0 = length (concat (map as_slice (pend r0)))"
  shows "\<exists>r. reader_new c init nx out_len buf = Ret r \<and> reader_inv pend r
    \<and> reader_unread pend r = concat (map as_slice (pend r0))
    \<and> owned pend r = filter (\<lambda>s. \<not> is_inline s) (pend r0)
    \<and> ((\<forall>s \<in> set (pend r0). \<not> slice_is_empty s) \<longrightarrow> no_gap pend r)"
proof (cases "pend r0")
  case Nil
  then show ?thesis
    using assms reader_next_okD(1) [OF assms(2) Nil] slice_core_okD(1,2,3) [OF assms(1)]
    by (simp add: reader_new_def reader_inv_def reader_unread_def all_bytes_def owned_def no_gap_def
        as_slice_Nil_iff slice_is_empty_def)
next
  case (Cons s ss)
  then obtain r' where "nx r0 = Some (s, r')" "pend r' = ss"
    using reader_next_okD(2) [OF assms(2)] by blast
  with Cons show ?thesis
    using assms reader_next_okD(3) [OF assms(2), of s r0]
    by (auto simp: reader_new_def reader_inv_def reader_unread_def all_bytes_def owned_def no_gap_def
        out_len_stable_def)
qed

section \<open>Concrete parameters\<close>

text \<open>
  Values of the parameters that satisfy the hypotheses: slices built as the core documents
  them, and a core reader that is the list of the slices still to come.
\<close>

definition sample_core :: slice_core where
  "sample_core =
     \<lparr>grpc_empty_slice = Inlined 0 (replicate INLINED_SIZE (CHR 0x00)),
      grpc_slice_malloc_large = (\<lambda>n. Refcounted 1 n (replicate n (CHR 0x00))),
      grpc_slice_from_copied_buffer = (\<lambda>b. Refcounted 1 (length b) b),
      grpc_slice_from_static_buffer = (\<lambda>b. Refcounted 1 (length b) b),
      grpc_slice_new_with_len = (\<lambda>b. Refcounted 1 (length b) b)\<rparr>"

definition list_next :: "grpc_slice list \<Rightarrow> (grpc_slice \<times> grpc_slice list) option" where
  "list_next r = (case r of [] \<Rightarrow> None | s # ss \<Rightarrow> Some (s, ss))"

definition list_pend :: "grpc_slice list \<Rightarrow> grpc_slice list" where
  "list_pend r = filter slice_wf r"

definition wf_next :: "grpc_slice list \<Rightarrow> (grpc_slice \<times> grpc_slice list) option" where
  "wf_next r = list_next (filter slice_wf r)"

lemma sample_core_ok: "slice_core_ok sample_core"
  by (simp add: slice_core_ok_def sample_core_def op_defs INLINED_SIZE_def)

lemma filter_eq_Cons_tail:
  assumes "filter P xs = y # ys"
  shows "filter P ys = ys \<and> P y"
proof -
  have "set (y # ys) \<subseteq> {x. P x}"
    unfolding assms [symmetric] by auto
  then show ?thesis by (auto simp: filter_id_conv)
qed

lemma wf_next_ok: "reader_next_ok wf_next list_pend"
proof -
  have "wf_next r = None" if "list_pend r = []" for r
    using that by (simp add: wf_next_def list_next_def list_pend_def)
  moreover have "wf_next r = Some (s, ss) \<and> list_pend ss = ss" if "list_pend r = s # ss" for r s ss
    using that filter_eq_Cons_tail [of slice_wf r s ss]
    by (simp add: wf_next_def list_next_def list_pend_def)
  moreover have "slice_wf s" if "s \<in> set (list_pend r)" for r s
    using that by (simp add: list_pend_def)
  ultimately show ?thesis unfolding reader_next_ok_def by blast
qed

definition sample_reader :: "grpc_slice list reader" where
  "sample_reader =
     \<lparr>rd_core = [Refcounted 2 3 ''def''], rd_slice = Refcounted 1 3 ''abc'', rd_offset = 1,
      rd_remain = 5, rd_unrefs = []\<rparr>"

lemma sample_reader_good: "reader_good sample_core wf_next list_pend (owned list_pend sample_reader) sample_reader"
  by (simp add: sample_core_ok wf_next_ok)
     (simp add: reader_inv_def no_gap_def reader_unread_def all_bytes_def sample_reader_def list_pend_def op_defs)

section \<open>Properties\<close>

lemma fully_read:
  assumes "reader_next_ok nx pend" "reader_inv pend r" "no_gap pend r" "reader_unread pend r = []"
  shows "pend (rd_core r) = []"
proof -
  have "\<forall>s \<in> set (pend (rd_core r)). as_slice s = []"
    using assms(2,4) reader_inv_offset_le [OF assms(2)]
    by (auto simp: reader_unread_def all_bytes_def reader_inv_def concat_eq_Nil_conv)
  then have "\<forall>s \<in> set (pend (rd_core r)). slice_is_empty s"
    using reader_next_okD(3) [OF assms(1)] as_slice_Nil_iff by blast
  with assms(3) show ?thesis by (cases "pend (rd_core r)") (auto simp: no_gap_def)
qed

lemma read_loop_stuck:
  assumes "fill s = Inr []" "cons s 0 = Some s" "0 < rem s"
  shows "read_loop fill cons rem cap old s buf = None"
proof (rule ccontr)
  assume "read_loop fill cons rem cap old s buf \<noteq> None"
  then obtain r where ret: "read_loop fill cons rem cap old s buf = Some r" by blast
  have "\<not> (fill s = Inr [] \<and> cons s 0 = Some s \<and> 0 < rem s)"
  proof (rule read_loop.raw_induct [where P =
        "\<lambda>fill cons rem cap old s buf r. \<not> (fill s = Inr [] \<and> cons s 0 = Some s \<and> 0 < rem s)", OF _ ret])
    fix f :: "('s \<Rightarrow> string + bytes) \<Rightarrow> ('s \<Rightarrow> nat \<Rightarrow> 's option) \<Rightarrow> ('s \<Rightarrow> nat) \<Rightarrow> nat \<Rightarrow> nat \<Rightarrow> 's \<Rightarrow> bytes
       \<Rightarrow> ((string + nat) \<times> bytes \<times> 's) option" and fill cons rem cap old s buf r
    assume IH: "\<And>fill cons rem cap old s buf r. f fill cons rem cap old s buf = Some r \<Longrightarrow>
        \<not> (fill s = Inr [] \<and> cons s 0 = Some s \<and> 0 < rem s)"
      and eq: "(if rem s > 0 then (case fill s of Inl e \<Rightarrow> Some (Inl e, take old buf, s)
          | Inr t \<Rightarrow> Option.bind (cons s (length t)) (\<lambda>s'. f fill cons rem cap old s' (buf @ t)))
        else Some (Inr cap, buf, s)) = Some r"
    show "\<not> (fill s = Inr [] \<and> cons s 0 = Some s \<and> 0 < rem s)"
    proof
      assume stuck: "fill s = Inr [] \<and> cons s 0 = Some s \<and> 0 < rem s"
      then have "f fill cons rem cap old s buf = Some r" using eq by simp
      from IH [OF this] stuck show False by blast
    qed
  qed
  with assms show False by blast
qed

lemma stuck_reader:
  assumes "slice_is_empty (rd_slice r)" "rd_offset r = 0" "0 < rd_remain r"
  shows "fill_buf r = Inr []" "consume c nx r 0 = Some r"
  using assms by (simp_all add: fill_buf_def consume_def consume_loop.simps)

text \<open>
  C31. Consuming any number of bytes from a message reader returns (its loop ends), and
  the reader then has exactly the remaining bytes unread: more than is left is clamped, no
  byte is skipped or repeated, the invariant holds again (the offset stays inside the
  current slice, \<^verbatim>\<open>remain\<close> is the number of unread bytes), and the
  reference-counted slices handed over by the core are neither lost nor given back twice.
\<close>

theorem reader_consume_total:
  assumes "slice_core_ok c" "reader_next_ok nx pend" "reader_inv pend r"
  shows "\<exists>r'. consume c nx r n = Some r' \<and> reader_inv pend r'
    \<and> reader_unread pend r' = drop n (reader_unread pend r) \<and> owned pend r' = owned pend r"
  using consume_steps [OF assms] by blast

theorem reader_consume_total_witness:
  "\<exists>r'. consume sample_core wf_next sample_reader 4 = Some r' \<and> reader_inv list_pend r'
    \<and> reader_unread list_pend r' = ''f'' \<and> owned list_pend r' = owned list_pend sample_reader"
proof -
  have inv: "reader_inv list_pend sample_reader" using sample_reader_good by simp
  have "reader_unread list_pend sample_reader = ''bcdef''"
    by (simp add: reader_unread_def all_bytes_def sample_reader_def list_pend_def op_defs)
  with reader_consume_total [OF sample_core_ok wf_next_ok inv, of 4] show ?thesis by simp
qed

text \<open>
  C7. A message whose slices are all non-empty is read back whole: creating the reader
  succeeds, \<^verbatim>\<open>read_to_end\<close> returns, appends exactly the concatenation of the
  slices to the caller's buffer and reports its length, the reader is empty afterwards,
  and when it is dropped every reference-counted slice of the message has been given back
  exactly once and in order.
\<close>

theorem reader_reads_message:
  assumes "slice_core_ok c" "reader_next_ok nx pend" "init buf = (1, r0)"
    and "out_len_stable nx out_len"
    and "out_len r0 = length (concat (map as_slice (pend r0)))"
    and "\<forall>s \<in> set (pend r0). \<not> slice_is_empty s"
  shows "\<exists>r r'. reader_new c init nx out_len buf = Ret r
    \<and> read_to_end c nx r old = Some (Inr (out_len r0), old @ concat (map as_slice (pend r0)), r')
    \<and> reader_is_empty r'
    \<and> filter (\<lambda>s. \<not> is_inline s) (reader_drop r') = filter (\<lambda>s. \<not> is_inline s) (pend r0)"
proof -
  obtain r where new: "reader_new c init nx out_len buf = Ret r" "reader_inv pend r"
    and unread: "reader_unread pend r = concat (map as_slice (pend r0))"
    and own: "owned pend r = filter (\<lambda>s. \<not> is_inline s) (pend r0)" and gap: "no_gap pend r"
    using reader_new_steps [where init = init and buf = buf, OF assms(1-5)] assms(6) by blast
  have rem: "rd_remain r = out_len r0" using new(2) unread assms(5) by (simp add: reader_inv_def)
  have "reader_good c nx pend (owned pend r) r" using assms(1,2) new(2) gap by simp
  from rd.read_loop_ok [OF this]
  obtain r' where r': "read_to_end c nx r old = Some (Inr (rd_remain r), old @ reader_unread pend r, r')"
      "reader_inv pend r'" "no_gap pend r'" "owned pend r' = owned pend r" "reader_unread pend r' = []"
    unfolding read_to_end_def by blast
  have "pend (rd_core r') = []" using fully_read [OF assms(2) r'(2,3,5)] .
  then have "filter (\<lambda>s. \<not> is_inline s) (reader_drop r') = owned pend r'"
    by (simp add: reader_drop_def owned_def)
  then show ?thesis
    using new(1) r' unread own rem by (auto simp: reader_is_empty_def reader_inv_def)
qed

theorem reader_reads_message_witness:
  "\<exists>r r'. reader_new sample_core (\<lambda>b. (1, b)) wf_next (\<lambda>_. 5) [Refcounted 1 3 ''abc'', Refcounted 2 2 ''de''] = Ret r
    \<and> read_to_end sample_core wf_next r ''x'' = Some (Inr 5, ''xabcde'', r') \<and> reader_is_empty r'
    \<and> filter (\<lambda>s. \<not> is_inline s) (reader_drop r') = [Refcounted 1 3 ''abc'', Refcounted 2 2 ''de'']"
proof -
  let ?m = "[Refcounted 1 3 ''abc'', Refcounted 2 2 ''de'']"
  have m: "list_pend ?m = ?m" "concat (map as_slice ?m) = ''abcde''"
    "\<forall>s \<in> set ?m. \<not> slice_is_empty s" "filter (\<lambda>s. \<not> is_inline s) ?m = ?m"
    by (simp_all add: list_pend_def op_defs)
  show ?thesis
    using reader_reads_message [of sample_core wf_next list_pend "\<lambda>b. (1, b)" ?m ?m "\<lambda>_. 5" "''x''",
        OF sample_core_ok wf_next_ok] m
    by (simp add: as_slice_def out_len_stable_def)
qed

text \<open>
  C39. An empty slice in front of data defeats the reader: for a message that begins with an
  empty slice and is not empty, \<^verbatim>\<open>read\<close> reports the end of the stream (it
  returns no bytes) although bytes remain, and \<^verbatim>\<open>read_to_end\<close> never returns.
\<close>

theorem reader_stuck_on_empty_slice:
  assumes "slice_core_ok c" "reader_next_ok nx pend" "init buf = (1, r0)"
    and "out_len_stable nx out_len"
    and "out_len r0 = length (concat (map as_slice (pend r0)))"
    and "pend r0 = s # ss" "slice_is_empty s" "0 < out_len r0"
  shows "\<exists>r. reader_new c init nx out_len buf = Ret r \<and> reader_len r = out_len r0
    \<and> reader_read c nx r n = Some (Inr [], r) \<and> read_to_end c nx r old = None"
proof -
  obtain r' where nx: "nx r0 = Some (s, r')" using reader_next_okD(2) [OF assms(2,6)] by blast
  have len: "out_len r' = out_len r0" using assms(4) nx by (simp add: out_len_stable_def)
  let ?r = "\<lparr>rd_core = r', rd_slice = s, rd_offset = 0, rd_remain = out_len r', rd_unrefs = []\<rparr>"
  have new: "reader_new c init nx out_len buf = Ret ?r"
    using nx assms(3) by (simp add: reader_new_def)
  have "slice_is_empty (rd_slice ?r)" "rd_offset ?r = 0" "0 < rd_remain ?r"
    using len assms(7,8) by simp_all
  note stuck = stuck_reader [OF this] and rem = this(3)
  have "read_to_end c nx ?r old = None"
    unfolding read_to_end_def by (rule read_loop_stuck) (use stuck rem in simp_all)
  moreover have "reader_read c nx ?r n = Some (Inr [], ?r)"
    using stuck by (simp add: reader_read_def read_with_def)
  ultimately show ?thesis using new len by (auto simp: reader_len_def)
qed

theorem reader_stuck_on_empty_slice_witness:
  "\<exists>r. reader_new sample_core (\<lambda>b. (1, b)) wf_next (\<lambda>_. 3) [Refcounted 1 0 [], Refcounted 2 3 ''abc''] = Ret r
    \<and> reader_len r = 3 \<and> reader_read sample_core wf_next r 8 = Some (Inr [], r)
    \<and> read_to_end sample_core wf_next r [] = None"
proof -
  let ?m = "[Refcounted 1 0 [], Refcounted 2 3 ''abc'']"
  have m: "list_pend ?m = ?m" "concat (map as_slice ?m) = ''abc''" "slice_is_empty (Refcounted 1 0 [])"
    by (simp_all add: list_pend_def op_defs)
  show ?thesis
    using reader_stuck_on_empty_slice [of sample_core wf_next list_pend "\<lambda>b. (1, b)" ?m ?m "\<lambda>_. 3"
        "Refcounted 1 0 []" "[Refcounted 2 3 ''abc'']" 8 "[]", OF sample_core_ok wf_next_ok] m
    by (simp add: as_slice_def out_len_stable_def)
qed

text \<open>
  C35. Serialising a message whose encoder writes exactly the size it announced never
  panics, whatever slice is reused as the output: the result is a well-formed slice whose
  contents are the encoded message, inline exactly when it fits
  \<open>INLINED_SIZE\<close> bytes.
\<close>

theorem codec_ser_roundtrip:
  assumes "slice_core_ok c" "slice_wf buf" "length (encode t) = compute_size t"
  shows "\<exists>buf'. codec_ser c compute_size encode t buf = Ret buf' \<and> slice_wf buf' \<and> as_slice buf' = encode t
    \<and> (is_inline buf' \<longleftrightarrow> compute_size t \<le> INLINED_SIZE)"
proof -
  let ?b = "slice_realloc c buf (compute_size t)"
  have wf: "slice_wf ?b" "slice_len ?b = compute_size t" using realloc_ok [OF assms(1,2)] by blast+
  have inline: "is_inline ?b \<longleftrightarrow> compute_size t \<le> INLINED_SIZE"
  proof (cases "compute_size t \<le> INLINED_SIZE")
    case True
    then show ?thesis using slice_core_okD(1) [OF assms(1)]
      by (auto simp: slice_realloc_def Let_def set_inlined_length_def is_inline_def slice_default_def
          split: grpc_slice.splits)
  next
    case False
    then show ?thesis using slice_core_okD(4) [OF assms(1)] by (simp add: slice_realloc_def)
  qed
  have "is_inline (slice_write (encode t) ?b) = is_inline ?b"
    by (simp add: is_inline_def slice_write_def split: grpc_slice.splits)
  with wf inline slice_write_ok [OF wf(1), of "encode t"] assms(3) show ?thesis
    by (simp add: codec_ser_def Let_def)
qed

theorem codec_ser_roundtrip_witness:
  "\<exists>buf'. codec_ser sample_core length (\<lambda>t. t) ''hello'' (grpc_empty_slice sample_core) = Ret buf'
    \<and> slice_wf buf' \<and> as_slice buf' = ''hello'' \<and> is_inline buf'"
  using codec_ser_roundtrip [OF sample_core_ok slice_core_okD(2) [OF sample_core_ok],
      of "\<lambda>t. t" "''hello''" length]
  by (simp add: INLINED_SIZE_def)

text \<open>
  The \<^verbatim>\<open>bytes::Buf\<close> view used by the prost codec drains the same bytes: a
  decoder that repeatedly takes the current chunk and advances by its length terminates
  and has seen every unread byte once, in order, for any message without empty slices.
\<close>

theorem prost_view_drains:
  assumes "slice_core_ok c" "reader_next_ok nx pend" "reader_inv pend r" "no_gap pend r"
  shows "\<exists>r'. read_loop (\<lambda>r. Inr (buf_chunk r)) (buf_advance c nx) buf_remaining (buf_remaining r) 0 r []
      = Some (Inr (buf_remaining r), reader_unread pend r, r') \<and> buf_remaining r' = 0"
proof -
  have good: "reader_good c nx pend (owned pend r) r" using assms by simp
  from bf.read_loop_ok [OF good, of "buf_remaining r" 0 "[]"] show ?thesis
    by (auto simp: buf_remaining_def reader_inv_def)
qed

theorem prost_view_drains_witness:
  "\<exists>r'. read_loop (\<lambda>r. Inr (buf_chunk r)) (buf_advance sample_core wf_next) buf_remaining 5 0 sample_reader []
      = Some (Inr 5, ''bcdef'', r') \<and> buf_remaining r' = 0"
proof -
  have rem: "buf_remaining sample_reader = 5" "reader_unread list_pend sample_reader = ''bcdef''"
    by (simp_all add: buf_remaining_def reader_unread_def all_bytes_def sample_reader_def list_pend_def op_defs)
  show ?thesis
    using prost_view_drains [OF sample_core_ok wf_next_ok, of sample_reader] sample_reader_good
    unfolding rem by blast
qed

end
