(* ===== verification/Grpc_Metadata.thy ===== *)
theory Grpc_Metadata
  imports Grpc_Buf
begin

text \<open>
  \<^verbatim>\<open>src/metadata.rs\<close> and the metadata arrays of
  \<^verbatim>\<open>grpc-sys/grpc_wrap.cc\<close>: key validation, the builder, look-up, iteration,
  cloning and the binary error details. The abstract value of an array is its list of
  entries (\<open>entries\<close>), and every operation is shown to act on that list.
\<close>

section \<open>Keys\<close>

definition BINARY_ERROR_DETAILS_KEY :: string where
  "BINARY_ERROR_DETAILS_KEY = ''grpc-status-details-bin''"

definition key_byte_ok :: "byte \<Rightarrow> bool" where
  "key_byte_ok b \<longleftrightarrow> is_lower b \<or> is_digit b \<or> b = CHR ''_'' \<or> b = CHR ''-'' \<or> b = CHR ''.''"

text \<open>
  The loop over the key's bytes: whether an upper-case letter was seen, or nothing when a
  byte is not allowed.
\<close>

fun scan_key :: "bytes \<Rightarrow> bool \<Rightarrow> bool option" where
  "scan_key [] is_upper_case = Some is_upper_case"
| "scan_key (b # bs) is_upper_case =
     (if is_upper b then scan_key bs True
      else if key_byte_ok b then scan_key bs is_upper_case
      else None)"

definition quoted :: "string \<Rightarrow> string" where
  "quoted s = [CHR 0x27] @ s @ [CHR 0x27]"

text \<open>\<open>dbg\<close> is the \<^verbatim>\<open>{:?}\<close> of a string, used in a message only.\<close>

definition normalize_key :: "(string \<Rightarrow> string) \<Rightarrow> string \<Rightarrow> bool \<Rightarrow> string result" where
  "normalize_key dbg key binary =
     (if key = [] then Inl (InvalidMetadata ''metadata key should not be empty'')
      else (case scan_key key False of
        None \<Rightarrow> Inl (InvalidMetadata (''key '' @ dbg key @ '' is invalid''))
      | Some is_upper_case \<Rightarrow>
          (let key = (if is_upper_case then map to_lower key else key)
           in if binary then
                (if \<not> ends_with key ''-bin''
                 then Inl (InvalidMetadata (''binary key should end with '' @ quoted ''-bin''))
                 else Inr key)
              else if ends_with key ''-bin''
              then Inl (InvalidMetadata (''non-binary key should not end with '' @ quoted ''-bin''))
              else Inr key)))"

section \<open>Metadata arrays of the C wrapper\<close>

text \<open>
  \<^verbatim>\<open>grpc_metadata_array\<close>; the null pointer is the empty list, and an
  allocated array has \<open>md_capacity\<close> slots, zeroed where unused.
\<close>

record metadata =
  md_count :: nat
  md_capacity :: nat
  md_slots :: "(grpc_slice \<times> grpc_slice) list"

definition zero_slot :: "grpc_slice \<times> grpc_slice" where
  "zero_slot = (Inlined 0 (replicate INLINED_SIZE (CHR 0x00)), Inlined 0 (replicate INLINED_SIZE (CHR 0x00)))"

definition array_init :: "nat \<Rightarrow> metadata" where
  "array_init capacity =
     (if capacity = 0 then \<lparr>md_count = 0, md_capacity = capacity, md_slots = []\<rparr>
      else \<lparr>md_count = 0, md_capacity = capacity, md_slots = replicate capacity zero_slot\<rparr>)"

definition array_add :: "slice_core \<Rightarrow> metadata \<Rightarrow> bytes \<Rightarrow> bytes \<Rightarrow> metadata outcome" where
  "array_add c arr key value =
     obind (rust_assert (md_count arr \<le> md_capacity arr) ''array->count <= array->capacity'') (\<lambda>_.
       let i = md_count arr;
           arr = (if i = md_capacity arr
                  then (let cap = (if md_capacity arr \<noteq> 0 then md_capacity arr * 2 else 4)
                        in arr\<lparr>md_capacity := cap,
                               md_slots := take i (md_slots arr) @ replicate (cap - i) zero_slot\<rparr>)
                  else arr)
       in Ret (arr\<lparr>md_slots := (md_slots arr)[i := (grpc_slice_from_copied_buffer c key,
                                                      grpc_slice_from_copied_buffer c value)],
                   md_count := i + 1\<rparr>))"

definition array_shrink_to_fit :: "metadata \<Rightarrow> metadata outcome" where
  "array_shrink_to_fit arr =
     obind (rust_assert (md_count arr \<le> md_capacity arr) ''array->count <= array->capacity'') (\<lambda>_.
       if md_count arr = md_capacity arr then Ret arr
       else if md_count arr \<noteq> 0
       then Ret (arr\<lparr>md_slots := take (md_count arr) (md_slots arr), md_capacity := md_count arr\<rparr>)
       else Ret (arr\<lparr>md_capacity := 0, md_slots := []\<rparr>))"

text \<open>
  \<^verbatim>\<open>grpcwrap_metadata_array_move\<close>: the destination takes the contents and the
  source is left empty; a null source gives an empty destination.
\<close>

definition empty_array :: metadata where
  "empty_array = \<lparr>md_count = 0, md_capacity = 0, md_slots = []\<rparr>"

definition array_move :: "metadata option \<Rightarrow> metadata \<times> metadata option" where
  "array_move src = (case src of
     None \<Rightarrow> (empty_array, None)
   | Some s \<Rightarrow> (\<lparr>md_count = md_count s, md_capacity = md_capacity s, md_slots = md_slots s\<rparr>, Some empty_array))"

section \<open>Metadata\<close>

definition md_len :: "metadata \<Rightarrow> nat" where
  "md_len m = md_count m"

definition md_is_empty :: "metadata \<Rightarrow> bool" where
  "md_is_empty m \<longleftrightarrow> md_count m = 0"

definition md_get :: "metadata \<Rightarrow> nat \<Rightarrow> (string \<times> bytes) option" where
  "md_get m index =
     (if md_count m \<le> index then None
      else Some (as_slice (fst (md_slots m ! index)), as_slice (snd (md_slots m ! index))))"

record metadata_iter =
  it_data :: metadata
  it_index :: nat

definition md_iter :: "metadata \<Rightarrow> metadata_iter" where
  "md_iter m = \<lparr>it_data = m, it_index = 0\<rparr>"

definition iter_next :: "metadata_iter \<Rightarrow> ((string \<times> bytes) \<times> metadata_iter) option" where
  "iter_next it = (case md_get (it_data it) (it_index it) of
     None \<Rightarrow> None
   | Some kv \<Rightarrow> Some (kv, it\<lparr>it_index := it_index it + 1\<rparr>))"

definition iter_size_hint :: "metadata_iter \<Rightarrow> nat \<times> nat option" where
  "iter_size_hint it = (let remain = md_count (it_data it) - it_index it in (remain, Some remain))"

definition iter_all :: "metadata \<Rightarrow> (string \<times> bytes) list" where
  "iter_all m = collect iter_next (md_count m) (md_iter m)"

text \<open>\<^verbatim>\<open>search_binary_error_details\<close>: the value of the first matching key.\<close>

definition search_binary_error_details :: "metadata \<Rightarrow> bytes" where
  "search_binary_error_details m =
     (case find (\<lambda>(k, v). k = BINARY_ERROR_DETAILS_KEY) (iter_all m) of None \<Rightarrow> [] | Some (_, v) \<Rightarrow> v)"

definition into_raw_parts :: "metadata \<Rightarrow> (grpc_slice \<times> grpc_slice) list \<times> nat \<times> nat" where
  "into_raw_parts m = (md_slots m, md_count m, md_capacity m)"

definition from_raw_parts :: "(grpc_slice \<times> grpc_slice) list \<times> nat \<times> nat \<Rightarrow> metadata" where
  "from_raw_parts parts = (case parts of (p, len, cap) \<Rightarrow> \<lparr>md_count = len, md_capacity = cap, md_slots = p\<rparr>)"

section \<open>The builder\<close>

definition builder_with_capacity :: "nat \<Rightarrow> metadata" where
  "builder_with_capacity cap = array_init cap"

definition builder_new :: metadata where
  "builder_new = builder_with_capacity 0"

definition add_metadata :: "slice_core \<Rightarrow> metadata \<Rightarrow> string \<Rightarrow> bytes \<Rightarrow> metadata outcome" where
  "add_metadata c self key value = array_add c self key value"

text \<open>\<^verbatim>\<open>isprint\<close> of the C library in the default locale.\<close>

definition isprint :: "byte \<Rightarrow> bool" where
  "isprint b \<longleftrightarrow> 32 \<le> (of_char b :: nat) \<and> (of_char b :: nat) \<le> 126"

definition add_str :: "slice_core \<Rightarrow> (string \<Rightarrow> string) \<Rightarrow> metadata \<Rightarrow> string \<Rightarrow> string \<Rightarrow> metadata result outcome" where
  "add_str c dbg self key value =
     (if \<not> is_ascii value then Ret (Inl (InvalidMetadata ''only ascii value is accepted.''))
      else if \<not> list_all isprint value
      then Ret (Inl (InvalidMetadata ''Only printable chars are accepted.''))
      else (case normalize_key dbg key False of
              Inl e \<Rightarrow> Ret (Inl e)
            | Inr key \<Rightarrow> obind (add_metadata c self key value) (\<lambda>m. Ret (Inr m))))"

definition add_bytes :: "slice_core \<Rightarrow> (string \<Rightarrow> string) \<Rightarrow> metadata \<Rightarrow> string \<Rightarrow> bytes \<Rightarrow> metadata result outcome" where
  "add_bytes c dbg self key value =
     (case normalize_key dbg key True of
        Inl e \<Rightarrow> Ret (Inl e)
      | Inr key \<Rightarrow> obind (add_metadata c self key value) (\<lambda>m. Ret (Inr m)))"

definition set_binary_error_details :: "slice_core \<Rightarrow> metadata \<Rightarrow> bytes \<Rightarrow> metadata outcome" where
  "set_binary_error_details c self value = add_metadata c self BINARY_ERROR_DETAILS_KEY value"

definition md_build :: "metadata \<Rightarrow> metadata outcome" where
  "md_build self = array_shrink_to_fit self"

text \<open>\<^verbatim>\<open>Clone\<close>: the entries are added to a fresh builder without validation.\<close>

fun add_all :: "('b \<Rightarrow> string \<Rightarrow> bytes \<Rightarrow> 'b outcome) \<Rightarrow> 'b \<Rightarrow> (string \<times> bytes) list \<Rightarrow> 'b outcome" where
  "add_all add b [] = Ret b"
| "add_all add b ((k, v) # kvs) = obind (add b k v) (\<lambda>b'. add_all add b' kvs)"

definition md_clone :: "slice_core \<Rightarrow> metadata \<Rightarrow> metadata outcome" where
  "md_clone c self =
     obind (add_all (add_metadata c) (builder_with_capacity (md_len self)) (iter_all self)) md_build"

section \<open>The array as a list of entries\<close>

definition entries :: "metadata \<Rightarrow> (string \<times> bytes) list" where
  "entries m = map (\<lambda>(k, v). (as_slice k, as_slice v)) (take (md_count m) (md_slots m))"

definition md_inv :: "metadata \<Rightarrow> bool" where
  "md_inv m \<longleftrightarrow> md_count m \<le> md_capacity m \<and> length (md_slots m) = md_capacity m \<and>
     (\<forall>(k, v) \<in> set (take (md_count m) (md_slots m)). slice_wf k \<and> slice_wf v)"

text \<open>
  What the builder needs of the array it fills: adding appends one entry, shrinking keeps
  the entries and leaves no spare slot, and neither aborts.
\<close>

locale entry_array =
  fixes add :: "'b \<Rightarrow> string \<Rightarrow> bytes \<Rightarrow> 'b outcome"
    and shrink :: "'b \<Rightarrow> 'b outcome"
    and contents :: "'b \<Rightarrow> (string \<times> bytes) list"
    and capacity :: "'b \<Rightarrow> nat"
    and inv :: "'b \<Rightarrow> bool"
  assumes add_appends: "inv b \<Longrightarrow> \<exists>b'. add b k v = Ret b' \<and> inv b' \<and> contents b' = contents b @ [(k, v)]"
    and shrink_fits: "inv b \<Longrightarrow> \<exists>b'. shrink b = Ret b' \<and> inv b' \<and> contents b' = contents b
      \<and> capacity b' = length (contents b)"
begin

lemma add_all_appends:
  "inv b \<Longrightarrow> \<exists>b'. add_all add b kvs = Ret b' \<and> inv b' \<and> contents b' = contents b @ kvs"
proof (induction kvs arbitrary: b)
  case Nil
  then show ?case by simp
next
  case (Cons kv kvs)
  obtain k v where kv: "kv = (k, v)" by (cases kv)
  obtain b1 where b1: "add b k v = Ret b1" "inv b1" "contents b1 = contents b @ [(k, v)]"
    using add_appends Cons.prems by blast
  from Cons.IH [OF b1(2)] b1 show ?case by (auto simp: kv)
qed

lemma build_all:
  assumes "inv b"
  shows "\<exists>b'. obind (add_all add b kvs) shrink = Ret b' \<and> inv b' \<and> contents b' = contents b @ kvs
    \<and> capacity b' = length (contents b) + length kvs"
proof -
  obtain b1 where "add_all add b kvs = Ret b1" "inv b1" "contents b1 = contents b @ kvs"
    using add_all_appends assms by blast
  with shrink_fits [of b1] show ?thesis by auto
qed

end

lemma length_entries: "md_inv m \<Longrightarrow> length (entries m) = md_count m"
  by (simp add: entries_def md_inv_def)

lemma array_init_entries: "md_inv (array_init cap)" "entries (array_init cap) = []"
  by (simp_all add: array_init_def md_inv_def entries_def)

lemma array_add_entries:
  assumes "slice_core_ok c" "md_inv m"
  shows "\<exists>m'. array_add c m k v = Ret m' \<and> md_inv m' \<and> entries m' = entries m @ [(k, v)]"
proof -
  let ?n = "md_count m"
  let ?kv = "(grpc_slice_from_copied_buffer c k, grpc_slice_from_copied_buffer c v)"
  let ?cap = "if ?n = md_capacity m then (if md_capacity m \<noteq> 0 then md_capacity m * 2 else 4) else md_capacity m"
  let ?slots = "if ?n = md_capacity m then take ?n (md_slots m) @ replicate (?cap - ?n) zero_slot else md_slots m"
  let ?m = "m\<lparr>md_capacity := ?cap, md_slots := ?slots[?n := ?kv], md_count := ?n + 1\<rparr>"
  have len: "length ?slots = ?cap" "?n < ?cap" "take ?n ?slots = take ?n (md_slots m)"
    using assms(2) by (auto simp: md_inv_def)
  then have "take (Suc ?n) (?slots[?n := ?kv]) = take ?n (md_slots m) @ [?kv]"
    by (simp add: take_Suc_conv_app_nth)
  then have *: "entries ?m = entries m @ [(k, v)]" "md_inv ?m"
    using slice_core_okD(7,8) [OF assms(1)] assms(2) len by (auto simp: entries_def md_inv_def)
  have "array_add c m k v = Ret ?m"
    using assms(2) by (auto simp: array_add_def md_inv_def Let_def)
  with * show ?thesis by blast
qed

lemma array_shrink_entries:
  assumes "md_inv m"
  shows "\<exists>m'. array_shrink_to_fit m = Ret m' \<and> md_inv m' \<and> entries m' = entries m \<and> md_capacity m' = length (entries m)"
  using assms by (auto simp: array_shrink_to_fit_def md_inv_def entries_def)

interpretation md: entry_array "add_metadata c" md_build entries md_capacity "\<lambda>m. slice_core_ok c \<and> md_inv m"
  for c
  by unfold_locales
    (auto simp: add_metadata_def md_build_def dest: array_add_entries array_shrink_entries)

lemma md_get_entries: "md_inv m \<Longrightarrow> md_get m i = (if i < length (entries m) then Some (entries m ! i) else None)"
  by (auto simp: md_get_def length_entries) (simp add: entries_def md_inv_def case_prod_beta)

definition iter_items :: "metadata_iter \<Rightarrow> (string \<times> bytes) list" where
  "iter_items it = drop (it_index it) (entries (it_data it))"

interpretation it: iterator iter_next iter_items "\<lambda>it. md_inv (it_data it)"
proof unfold_locales
  fix it :: metadata_iter
  assume inv: "md_inv (it_data it)" and "iter_items it = []"
  then show "iter_next it = None"
    by (simp add: iter_next_def md_get_entries iter_items_def)
next
  fix it :: metadata_iter and a as
  assume inv: "md_inv (it_data it)" and items: "iter_items it = a # as"
  note split = drop_eq_ConsD [OF items [unfolded iter_items_def]]
  from inv split show "\<exists>it'. iter_next it = Some (a, it') \<and> iter_items it' = as \<and> md_inv (it_data it')"
    by (simp add: iter_next_def md_get_entries iter_items_def)
qed

lemma iter_all_entries: "md_inv m \<Longrightarrow> iter_all m = entries m"
  using it.collect_all [of "md_iter m" "md_count m"]
  by (simp add: iter_all_def md_iter_def iter_items_def length_entries)

section \<open>Keys that are accepted\<close>

definition key_accepted :: "string \<Rightarrow> bool \<Rightarrow> bool" where
  "key_accepted key binary \<longleftrightarrow>
     key \<noteq> [] \<and> list_all (\<lambda>b. is_upper b \<or> key_byte_ok b) key \<and>
     binary = ends_with (map to_lower key) ''-bin''"

lemma scan_key_eq:
  "scan_key bs u = (if list_all (\<lambda>b. is_upper b \<or> key_byte_ok b) bs then Some (u \<or> list_ex is_upper bs) else None)"
  by (induction bs arbitrary: u) auto

lemma map_to_lower_id: "\<not> list_ex is_upper bs \<Longrightarrow> map to_lower bs = bs"
  by (induction bs) (auto simp: to_lower_id)

lemma normalize_key_cases:
  "normalize_key dbg key binary =
     (if key_accepted key binary then Inr (map to_lower key)
      else Inl (projl (normalize_key dbg key binary)))"
  "\<not> key_accepted key binary \<Longrightarrow> \<exists>e. normalize_key dbg key binary = Inl (InvalidMetadata e)"
  by (auto simp: normalize_key_def key_accepted_def scan_key_eq map_to_lower_id Let_def)

lemma key_byte_lower: "is_upper b \<or> key_byte_ok b \<Longrightarrow> key_byte_ok (to_lower b)"
  by (cases "is_upper b") (auto simp: key_byte_ok_def to_lower_lower to_lower_id)

lemma key_accepted_lower: "key_accepted key binary \<Longrightarrow> key_accepted (map to_lower key) binary"
  by (auto simp: key_accepted_def list_all_iff comp_def intro: key_byte_lower)

lemma isprint_ascii: "list_all isprint s \<Longrightarrow> is_ascii s"
  by (auto simp: list_all_iff is_ascii_def isprint_def)

lemma search_entries:
  "md_inv m \<Longrightarrow> search_binary_error_details m =
     (case find (\<lambda>(k, v). k = BINARY_ERROR_DETAILS_KEY) (entries m) of None \<Rightarrow> [] | Some (_, v) \<Rightarrow> v)"
  by (simp add: search_binary_error_details_def iter_all_entries)

text \<open>The metadata that carries binary error details.\<close>

lemma details_metadata:
  assumes "slice_core_ok c"
  shows "\<exists>b m. set_binary_error_details c builder_new d = Ret b \<and> md_build b = Ret m
    \<and> md_inv m \<and> entries m = [(BINARY_ERROR_DETAILS_KEY, d)]"
proof -
  have new: "md_inv builder_new" "entries builder_new = []"
    by (simp_all add: builder_new_def builder_with_capacity_def array_init_entries)
  obtain b where b: "set_binary_error_details c builder_new d = Ret b" "md_inv b"
      "entries b = [(BINARY_ERROR_DETAILS_KEY, d)]"
    using array_add_entries [OF assms new(1)] new(2)
    by (auto simp: set_binary_error_details_def add_metadata_def)
  obtain m where "md_build b = Ret m" "md_inv m" "entries m = entries b"
    using array_shrink_entries [OF b(2)] by (auto simp: md_build_def)
  with b show ?thesis by auto
qed

section \<open>Properties\<close>

text \<open>
  A metadata key is accepted exactly when it is not empty, uses only letters, digits,
  underscore, dash and dot, and ends in \<^verbatim>\<open>-bin\<close> precisely for binary
  entries; the accepted key is the lower-case form, which is itself accepted unchanged,
  and every rejection is an \<^verbatim>\<open>InvalidMetadata\<close> error.
\<close>

theorem normalize_key_spec:
  "(normalize_key dbg key binary = Inr k \<longleftrightarrow> key_accepted key binary \<and> k = map to_lower key) \<and>
   (normalize_key dbg key binary = Inr k \<longrightarrow> normalize_key dbg k binary = Inr k) \<and>
   (\<not> key_accepted key binary \<longrightarrow> (\<exists>e. normalize_key dbg key binary = Inl (InvalidMetadata e)))"
proof -
  have iff: "normalize_key dbg key binary = Inr k \<longleftrightarrow> key_accepted key binary \<and> k = map to_lower key" for key k
    using normalize_key_cases(1) [of dbg key binary] by (auto split: if_splits)
  moreover have "map to_lower (map to_lower key) = map to_lower key" by (simp add: comp_def)
  ultimately show ?thesis
    using key_accepted_lower normalize_key_cases(2) by metis
qed

theorem normalize_key_spec_witness:
  "normalize_key id ''Trace-Bin'' True = Inr ''trace-bin'' \<and> normalize_key id ''trace-bin'' True = Inr ''trace-bin''
   \<and> (\<exists>e. normalize_key id ''key~'' False = Inl (InvalidMetadata e))"
proof -
  have ok: "key_accepted ''Trace-Bin'' True" "map to_lower ''Trace-Bin'' = ''trace-bin''" "\<not> key_accepted ''key~'' False"
    by (simp_all add: key_accepted_def key_byte_ok_def is_upper_def is_lower_def is_digit_def to_lower_def
        ends_with_def char_of_def bit_0)
  show ?thesis
    using normalize_key_spec [of id "''Trace-Bin''" True "''trace-bin''"]
      normalize_key_spec [of id "''key~''" False "[]"] ok
    by simp
qed

text \<open>
  Adding a string entry to a well-formed builder either appends exactly the entry with
  the lower-case key, keeping the builder well-formed, when the key is an accepted text
  key and the value is printable ASCII, or fails with \<^verbatim>\<open>InvalidMetadata\<close>; it
  never aborts in the C array code.
\<close>

theorem add_str_spec:
  assumes "slice_core_ok c" "md_inv b"
  shows "if key_accepted key False \<and> list_all isprint value
    then \<exists>b'. add_str c dbg b key value = Ret (Inr b') \<and> md_inv b' \<and> entries b' = entries b @ [(map to_lower key, value)]
    else \<exists>e. add_str c dbg b key value = Ret (Inl (InvalidMetadata e))"
proof (cases "key_accepted key False \<and> list_all isprint value")
  case True
  then show ?thesis
    using normalize_key_cases(1) [of dbg key False] isprint_ascii [of "value"]
      array_add_entries [OF assms, of "map to_lower key" "value"]
    by (auto simp: add_str_def add_metadata_def)
next
  case False
  then show ?thesis
    using normalize_key_cases(2) [of key False dbg] by (auto simp: add_str_def)
qed

theorem add_str_spec_witness:
  "\<exists>b'. add_str sample_core id builder_new ''Key'' ''v 1'' = Ret (Inr b') \<and> md_inv b' \<and> entries b' = [(''key'', ''v 1'')]"
proof -
  have ok: "key_accepted ''Key'' False" "list_all isprint ''v 1''" "map to_lower ''Key'' = ''key''"
    by (simp_all add: key_accepted_def key_byte_ok_def is_upper_def is_lower_def is_digit_def to_lower_def
        ends_with_def char_of_def bit_0 isprint_def)
  have "md_inv builder_new" "entries builder_new = []"
    by (simp_all add: builder_new_def builder_with_capacity_def array_init_entries)
  with add_str_spec [OF sample_core_ok, of builder_new "''Key''" "''v 1''" id] ok show ?thesis by simp
qed

text \<open>
  C28. Iterating over well-formed metadata yields its entries in order, \<^verbatim>\<open>get\<close>
  returns the entry at an index and nothing beyond the end, and the size hint after
  \<open>i\<close> steps is exact.
\<close>

theorem metadata_iteration:
  assumes "md_inv m"
  shows "iter_all m = entries m
    \<and> (\<forall>i. md_get m i = (if i < md_len m then Some (iter_all m ! i) else None))
    \<and> (\<forall>i \<le> md_len m. iter_size_hint \<lparr>it_data = m, it_index = i\<rparr> = (length (drop i (entries m)), Some (length (drop i (entries m)))))"
  using assms
  by (simp add: iter_all_entries md_get_entries md_len_def iter_size_hint_def length_entries Let_def)

definition sample_metadata :: metadata where
  "sample_metadata = \<lparr>md_count = 1, md_capacity = 4,
     md_slots = (Refcounted 1 1 ''k'', Refcounted 1 1 ''v'') # replicate 3 zero_slot\<rparr>"

lemma sample_metadata_inv: "md_inv sample_metadata"
  by (simp add: md_inv_def sample_metadata_def slice_wf_def)

theorem metadata_iteration_witness:
  "iter_all sample_metadata = [(''k'', ''v'')] \<and> md_get sample_metadata 0 = Some (''k'', ''v'')
   \<and> iter_size_hint \<lparr>it_data = sample_metadata, it_index = 1\<rparr> = (0, Some 0)"
proof -
  have e: "entries sample_metadata = [(''k'', ''v'')]" "md_len sample_metadata = 1"
    by (simp_all add: entries_def sample_metadata_def as_slice_def md_len_def)
  note m = metadata_iteration [OF sample_metadata_inv, unfolded e]
  then have all: "iter_all sample_metadata = [(''k'', ''v'')]" by blast
  from m have "md_get sample_metadata 0 = Some (iter_all sample_metadata ! 0)" by auto
  moreover from m have "iter_size_hint \<lparr>it_data = sample_metadata, it_index = 1\<rparr> = (0, Some 0)" by auto
  ultimately show ?thesis using all by simp
qed

text \<open>
  Cloning well-formed metadata succeeds and gives well-formed metadata with the same
  entries and no spare capacity.
\<close>

theorem metadata_clone:
  assumes "slice_core_ok c" "md_inv m"
  shows "\<exists>m'. md_clone c m = Ret m' \<and> md_inv m' \<and> entries m' = entries m \<and> md_capacity m' = md_len m"
proof -
  have "slice_core_ok c \<and> md_inv (builder_with_capacity (md_len m))" "entries (builder_with_capacity (md_len m)) = []"
    using assms(1) by (simp_all add: builder_with_capacity_def array_init_entries)
  with md.build_all [of c "builder_with_capacity (md_len m)" "entries m"] show ?thesis
    using assms(2) by (auto simp: md_clone_def iter_all_entries length_entries md_len_def builder_with_capacity_def array_init_def)
qed

theorem metadata_clone_witness:
  "\<exists>m'. md_clone sample_core sample_metadata = Ret m' \<and> md_inv m' \<and> entries m' = entries sample_metadata
    \<and> md_capacity m' = 1"
  using metadata_clone [OF sample_core_ok sample_metadata_inv] by (simp add: md_len_def sample_metadata_def)

text \<open>
  Binary error details survive the metadata: after the details are put into a fresh
  builder and the metadata is built, the search finds exactly those details.
\<close>

theorem error_details_roundtrip:
  assumes "slice_core_ok c"
  shows "\<exists>b m. set_binary_error_details c builder_new d = Ret b \<and> md_build b = Ret m
    \<and> search_binary_error_details m = d \<and> md_len m = 1"
  using details_metadata [OF assms, of d] length_entries
  by (fastforce simp: search_entries md_len_def)

theorem error_details_roundtrip_witness:
  "\<exists>b m. set_binary_error_details sample_core builder_new ''d1'' = Ret b \<and> md_build b = Ret m
    \<and> search_binary_error_details m = ''d1'' \<and> md_len m = 1"
  by (rule error_details_roundtrip [OF sample_core_ok])

end
