(* ===== verification/Grpc_Task.thy ===== *)
theory Grpc_Task
  imports Grpc_Metadata
begin

text \<open>
  \<^verbatim>\<open>src/task/mod.rs\<close> and \<^verbatim>\<open>src/task/promise.rs\<close>: the handle shared
  by a promise and its future, the batch context of \<^verbatim>\<open>grpc-sys/grpc_wrap.cc\<close>
  with the accessors of \<^verbatim>\<open>BatchContext\<close> in \<^verbatim>\<open>src/call/mod.rs\<close>, and
  how a finished batch resolves its promise. A future and its promise refine a one-shot
  cell, and a status sent by a server is the one its client reads.
\<close>

section \<open>UTF-8\<close>

text \<open>
  \<^verbatim>\<open>String::from_utf8_lossy\<close>: \<open>utf8_step\<close> looks at the front of a
  non-empty byte string and says whether a character starts there, and how many bytes the
  character, or else the maximal ill-formed part, takes.
\<close>

definition utf8_cont :: "byte \<Rightarrow> bool" where
  "utf8_cont b \<longleftrightarrow> 128 \<le> (of_char b :: nat) \<and> (of_char b :: nat) \<le> 191"

definition utf8_width :: "nat \<Rightarrow> nat" where
  "utf8_width b =
     (if b < 128 then 1
      else if 194 \<le> b \<and> b \<le> 223 then 2
      else if 224 \<le> b \<and> b \<le> 239 then 3
      else if 240 \<le> b \<and> b \<le> 244 then 4
      else 0)"

definition utf8_second :: "nat \<Rightarrow> byte \<Rightarrow> bool" where
  "utf8_second b1 b2 \<longleftrightarrow>
     utf8_cont b2 \<and>
     (b1 = 224 \<longrightarrow> 160 \<le> (of_char b2 :: nat)) \<and> (b1 = 237 \<longrightarrow> (of_char b2 :: nat) \<le> 159) \<and>
     (b1 = 240 \<longrightarrow> 144 \<le> (of_char b2 :: nat)) \<and> (b1 = 244 \<longrightarrow> (of_char b2 :: nat) \<le> 143)"

definition utf8_step :: "bytes \<Rightarrow> bool \<times> nat" where
  "utf8_step bs =
     (let w = utf8_width (of_char (hd bs)); r = tl bs
      in if w = 0 then (False, 1)
         else if w = 1 then (True, 1)
         else if r = [] \<or> \<not> utf8_second (of_char (hd bs)) (hd r) then (False, 1)
         else if w = 2 then (True, 2)
         else if length r < 2 \<or> \<not> utf8_cont (r ! 1) then (False, 2)
         else if w = 3 then (True, 3)
         else if length r < 3 \<or> \<not> utf8_cont (r ! 2) then (False, 3)
         else (True, 4))"

definition REPLACEMENT :: bytes where
  "REPLACEMENT = [CHR 0xEF, CHR 0xBF, CHR 0xBD]"

lemma utf8_step_pos: "0 < snd (utf8_step bs)"
  by (simp add: utf8_step_def Let_def)

lemma utf8_step_shrinks: "bs \<noteq> [] \<Longrightarrow> (ok, k) = utf8_step bs \<Longrightarrow> length bs - k < length bs"
  using utf8_step_pos [of bs] by (metis diff_less length_greater_0_conv snd_conv)

function from_utf8_lossy :: "bytes \<Rightarrow> string" where
  "from_utf8_lossy bs =
     (if bs = [] then []
      else (case utf8_step bs of (ok, k) \<Rightarrow> (if ok then take k bs else REPLACEMENT) @ from_utf8_lossy (drop k bs)))"
  by pat_completeness auto

termination
  by (relation "measure length") (auto dest: utf8_step_shrinks)

declare from_utf8_lossy.simps [simp del]

text \<open>A Rust string is well-formed UTF-8.\<close>

function utf8_valid :: "bytes \<Rightarrow> bool" where
  "utf8_valid bs =
     (if bs = [] then True
      else (case utf8_step bs of (ok, k) \<Rightarrow> ok \<and> utf8_valid (drop k bs)))"
  by pat_completeness auto

termination
  by (relation "measure length") (auto dest: utf8_step_shrinks)

declare utf8_valid.simps [simp del]

lemma from_utf8_lossy_valid: "utf8_valid bs \<Longrightarrow> from_utf8_lossy bs = bs"
proof (induction bs rule: from_utf8_lossy.induct)
  case (1 bs)
  show ?case
  proof (cases "bs = []")
    case False
    obtain ok k where k: "utf8_step bs = (ok, k)" by fastforce
    with False 1(2) have "ok" "utf8_valid (drop k bs)" by (simp_all add: utf8_valid.simps [of bs])
    moreover have "from_utf8_lossy (drop k bs) = drop k bs"
      using 1(1) [OF False k [symmetric]] calculation(2) by blast
    ultimately show ?thesis
      using False k by (simp add: from_utf8_lossy.simps [of bs])
  qed (simp add: from_utf8_lossy.simps)
qed

section \<open>The batch context\<close>

text \<open>
  \<^verbatim>\<open>grpcwrap_batch_context\<close>: what a batch sends, kept alive until it is done, and
  where the core puts what it receives. A received message is a byte buffer of type
  \<open>'b\<close>; a sent one is made from one slice.
\<close>

record 'b batch_context =
  bc_send_initial_metadata :: metadata
  bc_send_message :: "grpc_slice option"
  bc_send_trailing_metadata :: metadata
  bc_recv_initial_metadata :: metadata
  bc_recv_message :: "'b option"
  bc_recv_trailing_metadata :: metadata
  bc_recv_status :: int
  bc_recv_status_details :: grpc_slice
  bc_recv_cancelled :: int

definition batch_context_create :: "'b batch_context" where
  "batch_context_create =
     \<lparr>bc_send_initial_metadata = empty_array, bc_send_message = None,
      bc_send_trailing_metadata = empty_array, bc_recv_initial_metadata = empty_array,
      bc_recv_message = None, bc_recv_trailing_metadata = empty_array, bc_recv_status = 0,
      bc_recv_status_details = fst zero_slot, bc_recv_cancelled = 0\<rparr>"

definition take_recv_message :: "'b batch_context \<Rightarrow> 'b option \<times> 'b batch_context" where
  "take_recv_message ctx = (case bc_recv_message ctx of
     Some buf \<Rightarrow> (Some buf, ctx\<lparr>bc_recv_message := None\<rparr>)
   | None \<Rightarrow> (None, ctx))"

definition rpc_status :: "'b batch_context \<Rightarrow> RpcStatus" where
  "rpc_status ctx =
     (let status = RpcStatusCode (bc_recv_status ctx)
      in if status = OK then status_ok
         else with_details status (from_utf8_lossy (as_slice (bc_recv_status_details ctx)))
                (search_binary_error_details (bc_recv_trailing_metadata ctx)))"

text \<open>
  \<^verbatim>\<open>recv_message\<close>: the received buffer is wrapped in a reader, which is
  \<open>open_reader\<close>, that is, \<open>reader_new\<close> with the functions of the core.
\<close>

definition recv_message :: "('b \<Rightarrow> 'm outcome) \<Rightarrow> 'b batch_context \<Rightarrow> ('m option \<times> 'b batch_context) outcome" where
  "recv_message open_reader ctx = (case take_recv_message ctx of
     (None, ctx) \<Rightarrow> Ret (None, ctx)
   | (Some buf, ctx) \<Rightarrow> obind (open_reader buf) (\<lambda>m. Ret (Some m, ctx)))"

section \<open>The handle between promise and future\<close>

text \<open>A waker is identified by a number; \<^verbatim>\<open>will_wake\<close> compares identities.\<close>

type_synonym waker = nat

record 'a notify_handle =
  nh_result :: "'a result option"
  nh_waker :: "waker option"
  nh_stale :: bool

definition notify_new :: "'a notify_handle" where
  "notify_new = \<lparr>nh_result = None, nh_waker = None, nh_stale = False\<rparr>"

definition set_result :: "'a result \<Rightarrow> 'a notify_handle \<Rightarrow> waker option \<times> 'a notify_handle" where
  "set_result res h = (nh_waker h, h\<lparr>nh_result := Some res, nh_waker := None\<rparr>)"

definition check_alive :: "'a notify_handle \<Rightarrow> unit result" where
  "check_alive h = (case nh_result h of
     None \<Rightarrow> Inr ()
   | Some (Inl (RpcFailure status)) \<Rightarrow> Inl (RpcFinished (Some status))
   | Some _ \<Rightarrow> Inl (RpcFinished None))"

definition STALE_MESSAGE :: string where
  "STALE_MESSAGE = ''Resolved future is not supposed to be polled again.''"

definition cq_future_poll :: "waker \<Rightarrow> 'a notify_handle \<Rightarrow> ('a result poll \<times> 'a notify_handle) outcome" where
  "cq_future_poll cx h =
     (if nh_stale h then Panic STALE_MESSAGE
      else (case nh_result h of
        Some res \<Rightarrow> Ret (Ready res, h\<lparr>nh_result := None, nh_stale := True\<rparr>)
      | None \<Rightarrow> (let h = (if nh_waker h = None \<or> the (nh_waker h) \<noteq> cx then h\<lparr>nh_waker := Some cx\<rparr> else h)
                in Ret (Pending, h))))"

section \<open>Promises\<close>

datatype BatchType = Finish | Read | CheckRead

record 'b batch_promise =
  bp_ty :: BatchType
  bp_ctx :: "'b batch_context"
  bp_inner :: nat

definition batch_new :: "BatchType \<Rightarrow> nat \<Rightarrow> 'b batch_promise" where
  "batch_new ty inner = \<lparr>bp_ty = ty, bp_ctx = batch_context_create, bp_inner = inner\<rparr>"

text \<open>
  The three ways a batch promise sets the result of its handle \<open>h\<close>. They return the
  waker that is woken, after the lock is released, and the new handle.
\<close>

definition read_one_msg ::
  "('b \<Rightarrow> 'm outcome) \<Rightarrow> 'b batch_context \<Rightarrow> bool \<Rightarrow> 'm option notify_handle
     \<Rightarrow> (waker option \<times> 'm option notify_handle) outcome" where
  "read_one_msg open_reader ctx success h =
     (if success then obind (recv_message open_reader ctx) (\<lambda>(m, _). Ret (set_result (Inr m) h))
      else Ret (set_result (Inr None) h))"

definition finish_response ::
  "'b batch_context \<Rightarrow> bool \<Rightarrow> 'm option notify_handle \<Rightarrow> (waker option \<times> 'm option notify_handle) outcome" where
  "finish_response ctx succeed h =
     (if succeed then
        (let status = rpc_status ctx
         in if code status = OK then Ret (set_result (Inr None) h)
            else Ret (set_result (Inl (RpcFailure status)) h))
      else Ret (set_result (Inl RemoteStopped) h))"

definition handle_unary_response ::
  "('b \<Rightarrow> 'm outcome) \<Rightarrow> 'b batch_context \<Rightarrow> 'm option notify_handle
     \<Rightarrow> (waker option \<times> 'm option notify_handle) outcome" where
  "handle_unary_response open_reader ctx h =
     (let status = rpc_status ctx
      in if code status = OK
         then obind (recv_message open_reader ctx) (\<lambda>(m, _). Ret (set_result (Inr m) h))
         else Ret (set_result (Inl (RpcFailure status)) h))"

definition batch_resolve ::
  "('b \<Rightarrow> 'm outcome) \<Rightarrow> 'b batch_promise \<Rightarrow> bool \<Rightarrow> 'm option notify_handle
     \<Rightarrow> (waker option \<times> 'm option notify_handle) outcome" where
  "batch_resolve open_reader self success h = (case bp_ty self of
     CheckRead \<Rightarrow> obind (rust_assert success ''assertion failed: success'')
                   (\<lambda>_. handle_unary_response open_reader (bp_ctx self) h)
   | Finish \<Rightarrow> finish_response (bp_ctx self) success h
   | Read \<Rightarrow> read_one_msg open_reader (bp_ctx self) success h)"

definition action_resolve :: "bool \<Rightarrow> bool notify_handle \<Rightarrow> waker option \<times> bool notify_handle" where
  "action_resolve success h = set_result (Inr success) h"

section \<open>Call tags\<close>

text \<open>
  \<^verbatim>\<open>CallTag\<close>: a request tag of type \<open>'q\<close>, a unary request tag of type
  \<open>'u\<close>, an aborted call's context, an action's handle or a spawned task.
\<close>

datatype ('b, 'q, 'u) CallTag =
    Batch "'b batch_promise"
  | Request 'q
  | UnaryRequest 'u
  | Abort "'b batch_context"
  | Action nat
  | Spawn nat

definition tag_batch_ctx :: "('u \<Rightarrow> 'b batch_context) \<Rightarrow> ('b, 'q, 'u) CallTag \<Rightarrow> 'b batch_context option" where
  "tag_batch_ctx unary_ctx tag = (case tag of
     Batch prom \<Rightarrow> Some (bp_ctx prom)
   | UnaryRequest cb \<Rightarrow> Some (unary_ctx cb)
   | Abort ctx \<Rightarrow> Some ctx
   | _ \<Rightarrow> None)"

definition tag_request_ctx :: "('q \<Rightarrow> 'c) \<Rightarrow> ('u \<Rightarrow> 'c) \<Rightarrow> ('b, 'q, 'u) CallTag \<Rightarrow> 'c option" where
  "tag_request_ctx request_ctx unary_ctx tag = (case tag of
     Request prom \<Rightarrow> Some (request_ctx prom)
   | UnaryRequest cb \<Rightarrow> Some (unary_ctx cb)
   | _ \<Rightarrow> None)"

definition fmt_batch_type :: "BatchType \<Rightarrow> string" where
  "fmt_batch_type ty = (case ty of Finish \<Rightarrow> ''Finish'' | Read \<Rightarrow> ''Read'' | CheckRead \<Rightarrow> ''CheckRead'')"

definition fmt_batch :: "'b batch_promise \<Rightarrow> string" where
  "fmt_batch b = ''Batch ['' @ fmt_batch_type (bp_ty b) @ '']''"

definition fmt_call_tag :: "('b, 'q, 'u) CallTag \<Rightarrow> string" where
  "fmt_call_tag tag = (case tag of
     Batch ctx \<Rightarrow> ''CallTag::Batch('' @ fmt_batch ctx @ '')''
   | Request _ \<Rightarrow> ''CallTag::Request(..)''
   | UnaryRequest _ \<Rightarrow> ''CallTag::UnaryRequest(..)''
   | Abort _ \<Rightarrow> ''CallTag::Abort(..)''
   | Action _ \<Rightarrow> ''CallTag::Action''
   | Spawn _ \<Rightarrow> ''CallTag::Spawn'')"

section \<open>A future is a one-shot cell\<close>

datatype 'a cell = Waiting "waker option" | Done "'a result" | Taken

definition cell_abs :: "'a notify_handle \<Rightarrow> 'a cell" where
  "cell_abs h =
     (if nh_stale h then Taken
      else case nh_result h of Some r \<Rightarrow> Done r | None \<Rightarrow> Waiting (nh_waker h))"

fun cell_poll :: "waker \<Rightarrow> 'a cell \<Rightarrow> ('a result poll \<times> 'a cell) outcome" where
  "cell_poll cx (Waiting _) = Ret (Pending, Waiting (Some cx))"
| "cell_poll cx (Done r) = Ret (Ready r, Taken)"
| "cell_poll cx Taken = Panic STALE_MESSAGE"

lemma cq_future_poll_refines:
  "(case cq_future_poll cx h of Ret (p, h') \<Rightarrow> Ret (p, cell_abs h') | Panic m \<Rightarrow> Panic m) = cell_poll cx (cell_abs h)"
  by (auto simp: cq_future_poll_def cell_abs_def Let_def split: option.splits)

lemma cq_future_pollE:
  assumes "cq_future_poll cx h = Ret (p, h')"
  shows "cell_poll cx (cell_abs h) = Ret (p, cell_abs h')"
  using cq_future_poll_refines [of cx h] assms by simp

lemma set_result_waiting:
  "cell_abs h = Waiting w \<Longrightarrow> set_result r h = (w, h') \<longleftrightarrow> h' = h\<lparr>nh_result := Some r, nh_waker := None\<rparr>"
  by (auto simp: set_result_def cell_abs_def split: if_splits option.splits)

lemma cell_abs_set_result [simp]:
  "\<not> nh_stale h \<Longrightarrow> cell_abs (snd (set_result r h)) = Done r"
  by (simp add: set_result_def cell_abs_def)

text \<open>Polling with each waker of a list in turn while nothing has been set.\<close>

fun poll_all :: "waker list \<Rightarrow> 'a notify_handle \<Rightarrow> ('a result poll list \<times> 'a notify_handle) outcome" where
  "poll_all [] h = Ret ([], h)"
| "poll_all (w # ws) h = obind (cq_future_poll w h) (\<lambda>(p, h'). obind (poll_all ws h') (\<lambda>(ps, h''). Ret (p # ps, h'')))"

lemma poll_all_waiting:
  "cell_abs h = Waiting w0 \<Longrightarrow>
   \<exists>h'. poll_all ws h = Ret (replicate (length ws) Pending, h')
      \<and> cell_abs h' = Waiting (if ws = [] then w0 else Some (last ws))"
proof (induction ws arbitrary: h w0)
  case (Cons w ws)
  then obtain h1 where h1: "cq_future_poll w h = Ret (Pending, h1)" "cell_abs h1 = Waiting (Some w)"
    using cq_future_poll_refines [of w h] by (auto split: outcome.splits)
  from Cons.IH [OF h1(2)] obtain h2 where
    "poll_all ws h1 = Ret (replicate (length ws) Pending, h2)"
    "cell_abs h2 = Waiting (if ws = [] then Some w else Some (last ws))" by blast
  with h1 show ?case by auto
qed simp

lemma cell_abs_new [simp]: "cell_abs notify_new = Waiting None"
  by (simp add: cell_abs_def notify_new_def)

lemma cell_pollE:
  assumes "cell_poll cx (cell_abs h) = Ret (p, c)"
  obtains h' where "cq_future_poll cx h = Ret (p, h')" "cell_abs h' = c"
  using cq_future_poll_refines [of cx h] assms by (auto split: outcome.splits)

lemma cell_poll_panicE:
  assumes "cell_abs h = Taken"
  shows "cq_future_poll cx h = Panic STALE_MESSAGE"
  using cq_future_poll_refines [of cx h] assms by (auto split: outcome.splits)

text \<open>
  The result a finished batch leaves in its handle: a read gives the message or nothing and
  never an error; a finish or unary batch gives the server's status as an error unless it is
  OK, and a failed finish gives \<^verbatim>\<open>RemoteStopped\<close>.
\<close>

lemma batch_resolve_eq:
  assumes "\<And>buf. bc_recv_message (bp_ctx b) = Some buf \<Longrightarrow> open_reader buf = Ret m"
    and "bp_ty b = CheckRead \<Longrightarrow> success"
  shows "batch_resolve open_reader b success h = Ret (set_result
    (case bp_ty b of
       Read \<Rightarrow> Inr (if success then map_option (\<lambda>_. m) (bc_recv_message (bp_ctx b)) else None)
     | Finish \<Rightarrow> if \<not> success then Inl RemoteStopped
                 else if code (rpc_status (bp_ctx b)) = OK then Inr None
                 else Inl (RpcFailure (rpc_status (bp_ctx b)))
     | CheckRead \<Rightarrow> if code (rpc_status (bp_ctx b)) = OK then Inr (map_option (\<lambda>_. m) (bc_recv_message (bp_ctx b)))
                 else Inl (RpcFailure (rpc_status (bp_ctx b)))) h)"
  using assms
  by (cases "bp_ty b"; cases "bc_recv_message (bp_ctx b)")
    (auto simp: batch_resolve_def read_one_msg_def finish_response_def handle_unary_response_def
      recv_message_def take_recv_message_def Let_def rust_assert_def)

section \<open>Properties\<close>

text \<open>
  A result is delivered exactly once: whatever polls come first, they are all pending;
  setting the result wakes exactly the task that polled last; the next poll returns the
  result, and every later one panics.
\<close>

theorem future_delivers_once:
  fixes r :: "'a result"
  shows "\<exists>h h' h''. poll_all ws notify_new = Ret (replicate (length ws) Pending, h)
     \<and> set_result r h = (if ws = [] then None else Some (last ws), h')
     \<and> cq_future_poll w h' = Ret (Ready r, h'')
     \<and> cq_future_poll w' h'' = Panic STALE_MESSAGE"
proof -
  obtain h :: "'a notify_handle" where h: "poll_all ws notify_new = Ret (replicate (length ws) Pending, h)"
    "cell_abs h = Waiting (if ws = [] then None else Some (last ws))"
    using poll_all_waiting [OF cell_abs_new] by blast
  let ?h' = "h\<lparr>nh_result := Some r, nh_waker := None\<rparr>"
  have h': "set_result r h = (if ws = [] then None else Some (last ws), ?h')"
    using set_result_waiting [OF h(2)] by blast
  have "cell_abs ?h' = Done r" using h(2) by (auto simp: cell_abs_def split: if_splits option.splits)
  then obtain h'' where h'': "cq_future_poll w ?h' = Ret (Ready r, h'')" "cell_abs h'' = Taken"
    using cell_pollE [of w ?h' "Ready r" Taken] by auto
  from h h' h''(1) cell_poll_panicE [OF h''(2)] show ?thesis by blast
qed

end
