(* ===== verification/Grpc_Cq.thy ===== *)
theory Grpc_Cq
  imports Grpc_Status
begin

text \<open>
  \<^verbatim>\<open>src/cq.rs\<close>: the reference count of a completion queue, changed by
  compare-and-exchange loops of many threads, and the work queue of a polling thread. One
  pass through a loop is one atomic step; a system of threads interleaves such steps in
  any order. The reference count refines a queue with a number of live references and a
  closing flag, and the core's shutdown function is called exactly once.
\<close>

section \<open>One pass of each loop\<close>

text \<open>
  Each function takes whether the weak exchange fails spuriously, the local variable
  \<open>cnt\<close> and the memory \<open>ref_cnt\<close>; it returns \<open>Inl\<close> the next value of
  \<open>cnt\<close> when the loop goes on and \<open>Inr\<close> the loop's result when it ends.
\<close>

definition add_ref_iter :: "bool \<Rightarrow> int \<Rightarrow> int \<Rightarrow> (int + unit result) \<times> int" where
  "add_ref_iter spurious cnt mem =
     (if cnt \<le> 0 then (Inr (Inl QueueShutdown), mem)
      else (let new_cnt = cnt + 1 in
            case cas spurious mem cnt new_cnt of
              (Inr _, mem) \<Rightarrow> (Inr (Inr ()), mem)
            | (Inl c, mem) \<Rightarrow> (Inl c, mem)))"

definition unref_iter :: "bool \<Rightarrow> int \<Rightarrow> int \<Rightarrow> (int + bool) \<times> int" where
  "unref_iter spurious cnt mem =
     (let new_cnt = cnt - sgn cnt in
      case cas spurious mem cnt new_cnt of
        (Inr _, mem) \<Rightarrow> (Inr (new_cnt = 0), mem)
      | (Inl c, mem) \<Rightarrow> (Inl c, mem))"

text \<open>\<open>Inr None\<close> is the early return of \<^verbatim>\<open>shutdown\<close>.\<close>

definition shutdown_iter :: "bool \<Rightarrow> int \<Rightarrow> int \<Rightarrow> (int + bool option) \<times> int" where
  "shutdown_iter spurious cnt mem =
     (if cnt \<le> 0 then (Inr None, mem)
      else (let new_cnt = - cnt + 1 in
            case cas spurious mem cnt new_cnt of
              (Inr _, mem) \<Rightarrow> (Inr (Some (new_cnt = 0)), mem)
            | (Inl c, mem) \<Rightarrow> (Inl c, mem)))"

text \<open>
  A thread that runs undisturbed: the load, then one pass per element of the list, which
  says whether the exchange of that pass fails spuriously. \<open>None\<close>: the loop is
  still running.
\<close>

fun loop_alone :: "(bool \<Rightarrow> int \<Rightarrow> int \<Rightarrow> (int + 'r) \<times> int) \<Rightarrow> bool list \<Rightarrow> int \<Rightarrow> int \<Rightarrow> ('r \<times> int) option" where
  "loop_alone iter [] cnt mem = None"
| "loop_alone iter (sp # sps) cnt mem =
     (case iter sp cnt mem of
        (Inr r, mem) \<Rightarrow> Some (r, mem)
      | (Inl c, mem) \<Rightarrow> loop_alone iter sps c mem)"

definition add_ref :: "bool list \<Rightarrow> int \<Rightarrow> (unit result \<times> int) option" where
  "add_ref sps ref_cnt = loop_alone add_ref_iter sps ref_cnt ref_cnt"

definition unref :: "bool list \<Rightarrow> int \<Rightarrow> (bool \<times> int) option" where
  "unref sps ref_cnt = loop_alone unref_iter sps ref_cnt ref_cnt"

definition shutdown :: "bool list \<Rightarrow> int \<Rightarrow> (bool option \<times> int) option" where
  "shutdown sps ref_cnt = loop_alone shutdown_iter sps ref_cnt ref_cnt"

section \<open>Threads\<close>

text \<open>
  Where a thread is: outside, in one of the loops with its local \<open>cnt\<close>, or about to
  call \<^verbatim>\<open>grpc_completion_queue_shutdown\<close>.
\<close>

datatype cq_pc =
    CqOut
  | InAddRef int
  | InUnref int
  | InShutdown int
  | CallCoreShutdown

text \<open>
  \<open>live_refs\<close> counts the \<^verbatim>\<open>CompletionQueueRef\<close> values that have not
  begun to drop; \<open>closing\<close> records that an exchange of \<^verbatim>\<open>shutdown\<close>
  succeeded, and \<open>core_shutdowns\<close> counts the calls of the core's function.
\<close>

record cq_sys =
  ref_cnt :: int
  cq_threads :: "cq_pc list"
  live_refs :: nat
  closing :: bool
  core_shutdowns :: nat

definition cq_new :: "nat \<Rightarrow> cq_sys" where
  "cq_new n = \<lparr>ref_cnt = 1, cq_threads = replicate n CqOut, live_refs = 0, closing = False, core_shutdowns = 0\<rparr>"

datatype cq_action =
    CallBorrow nat
  | DropRef nat
  | CallShutdown nat
  | Continue nat bool

abbreviation goto :: "nat \<Rightarrow> cq_pc \<Rightarrow> cq_sys \<Rightarrow> cq_sys" where
  "goto i pc s \<equiv> s\<lparr>cq_threads := (cq_threads s)[i := pc]\<rparr>"

text \<open>The next step of thread \<open>i\<close> inside one of the functions.\<close>

definition cq_continue :: "nat \<Rightarrow> bool \<Rightarrow> cq_sys \<Rightarrow> cq_sys option" where
  "cq_continue i sp s = (case cq_threads s ! i of
     CqOut \<Rightarrow> None
   | InAddRef cnt \<Rightarrow> (case add_ref_iter sp cnt (ref_cnt s) of
         (Inl c, mem) \<Rightarrow> Some (goto i (InAddRef c) (s\<lparr>ref_cnt := mem\<rparr>))
       | (Inr (Inr _), mem) \<Rightarrow> Some (goto i CqOut (s\<lparr>ref_cnt := mem, live_refs := live_refs s + 1\<rparr>))
       | (Inr (Inl e), mem) \<Rightarrow> Some (goto i CqOut (s\<lparr>ref_cnt := mem\<rparr>)))
   | InUnref cnt \<Rightarrow> (case unref_iter sp cnt (ref_cnt s) of
         (Inl c, mem) \<Rightarrow> Some (goto i (InUnref c) (s\<lparr>ref_cnt := mem\<rparr>))
       | (Inr sd, mem) \<Rightarrow> Some (goto i (if sd then CallCoreShutdown else CqOut) (s\<lparr>ref_cnt := mem\<rparr>)))
   | InShutdown cnt \<Rightarrow> (case shutdown_iter sp cnt (ref_cnt s) of
         (Inl c, mem) \<Rightarrow> Some (goto i (InShutdown c) (s\<lparr>ref_cnt := mem\<rparr>))
       | (Inr None, mem) \<Rightarrow> Some (goto i CqOut (s\<lparr>ref_cnt := mem\<rparr>))
       | (Inr (Some sd), mem) \<Rightarrow>
           Some (goto i (if sd then CallCoreShutdown else CqOut) (s\<lparr>ref_cnt := mem, closing := True\<rparr>)))
   | CallCoreShutdown \<Rightarrow> Some (goto i CqOut (s\<lparr>core_shutdowns := core_shutdowns s + 1\<rparr>)))"

text \<open>
  What threads can do: enter a function, whose first action is to load the counter, or go
  on. Dropping a reference needs a live one.
\<close>

definition cq_exec :: "cq_action \<Rightarrow> cq_sys \<Rightarrow> cq_sys option" where
  "cq_exec a s = (case a of
     CallBorrow i \<Rightarrow> if i < length (cq_threads s) \<and> cq_threads s ! i = CqOut
                     then Some (goto i (InAddRef (ref_cnt s)) s) else None
   | DropRef i \<Rightarrow> if i < length (cq_threads s) \<and> cq_threads s ! i = CqOut \<and> 0 < live_refs s
                     then Some (goto i (InUnref (ref_cnt s)) (s\<lparr>live_refs := live_refs s - 1\<rparr>)) else None
   | CallShutdown i \<Rightarrow> if i < length (cq_threads s) \<and> cq_threads s ! i = CqOut
                     then Some (goto i (InShutdown (ref_cnt s)) s) else None
   | Continue i sp \<Rightarrow> if i < length (cq_threads s) then cq_continue i sp s else None)"

definition cq_init :: "cq_sys \<Rightarrow> bool" where
  "cq_init s \<longleftrightarrow> (\<exists>n. s = cq_new n)"

definition cq_step :: "cq_sys \<Rightarrow> cq_sys \<Rightarrow> bool" where
  "cq_step = exec_step cq_exec"

abbreviation cq_run :: "cq_action list \<Rightarrow> cq_sys \<Rightarrow> cq_sys option" where
  "cq_run \<equiv> run_acts cq_exec"

section \<open>The work queue\<close>

text \<open>
  \<^verbatim>\<open>WorkQueue\<close>: the pending work of the polling thread \<open>wq_id\<close> in a
  \<^verbatim>\<open>VecDeque\<close>, whose capacity doubles when it is full and is the length after
  \<^verbatim>\<open>shrink_to_fit\<close>.
\<close>

definition QUEUE_CAPACITY :: nat where
  "QUEUE_CAPACITY = 4096"

record 'w work_queue =
  wq_id :: nat
  wq_pending :: "'w list"
  wq_capacity :: nat

definition work_queue_new :: "nat \<Rightarrow> 'w work_queue" where
  "work_queue_new tid = \<lparr>wq_id = tid, wq_pending = [], wq_capacity = QUEUE_CAPACITY\<rparr>"

definition push_back :: "'w work_queue \<Rightarrow> 'w \<Rightarrow> 'w work_queue" where
  "push_back q w =
     (let cap = (if length (wq_pending q) = wq_capacity q then max 4 (2 * wq_capacity q) else wq_capacity q)
      in q\<lparr>wq_pending := wq_pending q @ [w], wq_capacity := cap\<rparr>)"

definition push_work :: "nat \<Rightarrow> 'w work_queue \<Rightarrow> 'w \<Rightarrow> 'w option \<times> 'w work_queue" where
  "push_work tid q w = (if wq_id q = tid then (None, push_back q w) else (Some w, q))"

definition pop_work :: "'w work_queue \<Rightarrow> 'w option \<times> 'w work_queue" where
  "pop_work q =
     (let q = (if wq_capacity q > QUEUE_CAPACITY \<and> length (wq_pending q) < wq_capacity q div 2
               then q\<lparr>wq_capacity := length (wq_pending q)\<rparr> else q)
      in if wq_pending q = [] then (None, q)
         else (Some (last (wq_pending q)), q\<lparr>wq_pending := butlast (wq_pending q)\<rparr>))"

fun drain :: "('s \<Rightarrow> 'w option \<times> 's) \<Rightarrow> nat \<Rightarrow> 's \<Rightarrow> 'w list \<times> 's" where
  "drain pop 0 s = ([], s)"
| "drain pop (Suc n) s = (case pop s of
     (None, s') \<Rightarrow> ([], s')
   | (Some w, s') \<Rightarrow> (case drain pop n s' of (ws, s'') \<Rightarrow> (w # ws, s'')))"

definition wq_inv :: "'w work_queue \<Rightarrow> bool" where
  "wq_inv q \<longleftrightarrow> length (wq_pending q) \<le> wq_capacity q"

text \<open>What the polling thread relies on: work comes back in the reverse order of pushing.\<close>

locale work_stack =
  fixes push :: "'s \<Rightarrow> 'w \<Rightarrow> 's"
    and pop :: "'s \<Rightarrow> 'w option \<times> 's"
    and stacked :: "'s \<Rightarrow> 'w list"
    and inv :: "'s \<Rightarrow> bool"
  assumes push_top: "inv s \<Longrightarrow> inv (push s w) \<and> stacked (push s w) = w # stacked s"
    and pop_empty: "inv s \<Longrightarrow> stacked s = [] \<Longrightarrow> \<exists>s'. pop s = (None, s') \<and> stacked s' = [] \<and> inv s'"
    and pop_top: "inv s \<Longrightarrow> stacked s = w # ws \<Longrightarrow> \<exists>s'. pop s = (Some w, s') \<and> stacked s' = ws \<and> inv s'"
begin

lemma push_all: "inv s \<Longrightarrow> inv (foldl push s ws) \<and> stacked (foldl push s ws) = rev ws @ stacked s"
  by (induction ws arbitrary: s) (auto simp: push_top)

lemma drain_stacked:
  "inv s \<Longrightarrow> \<exists>s'. drain pop n s = (take n (stacked s), s') \<and> stacked s' = drop n (stacked s) \<and> inv s'"
proof (induction n arbitrary: s)
  case (Suc n)
  show ?case
  proof (cases "stacked s")
    case Nil
    with pop_empty [OF Suc.prems] show ?thesis by auto
  next
    case (Cons w ws)
    then obtain s' where s': "pop s = (Some w, s')" "stacked s' = ws" "inv s'"
      using pop_top [OF Suc.prems] by blast
    with Suc.IH [OF s'(3)] Cons show ?thesis by auto
  qed
qed simp

end

section \<open>The abstract queue\<close>

text \<open>Live references (dropping ones included until their exchange succeeds) and closing.\<close>

inductive queue_step :: "nat \<times> bool \<Rightarrow> nat \<times> bool \<Rightarrow> bool" where
  q_borrow: "queue_step (n, False) (Suc n, False)"
| q_release: "queue_step (Suc n, c) (n, c)"
| q_close: "queue_step (n, False) (n, True)"

definition queue_init :: "nat \<times> bool \<Rightarrow> bool" where
  "queue_init q \<longleftrightarrow> q = (0, False)"

fun in_unref :: "cq_pc \<Rightarrow> bool" where
  "in_unref (InUnref _) = True"
| "in_unref _ = False"

definition outstanding :: "cq_sys \<Rightarrow> nat" where
  "outstanding s = live_refs s + tcount in_unref (cq_threads s)"

definition cq_abs :: "cq_sys \<Rightarrow> nat \<times> bool" where
  "cq_abs s = (outstanding s, closing s)"

fun at_core_shutdown :: "cq_pc \<Rightarrow> bool" where
  "at_core_shutdown CallCoreShutdown = True"
| "at_core_shutdown _ = False"

definition cq_inv :: "cq_sys \<Rightarrow> bool" where
  "cq_inv s \<longleftrightarrow>
     ref_cnt s = (if closing s then - int (outstanding s) else int (outstanding s) + 1) \<and>
     core_shutdowns s + tcount at_core_shutdown (cq_threads s) = of_bool (closing s \<and> outstanding s = 0)"

lemmas cq_defs = cq_inv_def cq_abs_def outstanding_def

section \<open>Every step keeps the invariant and refines the abstract queue\<close>

lemmas cq_iter_defs = add_ref_iter_def unref_iter_def shutdown_iter_def cas_def Let_def

lemma goto_counts:
  assumes "i < length (cq_threads s)"
  shows "tcount in_unref ((cq_threads s)[i := pc]) =
      tcount in_unref (cq_threads s) + of_bool (in_unref pc) - of_bool (in_unref (cq_threads s ! i))"
    and "tcount at_core_shutdown ((cq_threads s)[i := pc]) =
      tcount at_core_shutdown (cq_threads s) + of_bool (at_core_shutdown pc) - of_bool (at_core_shutdown (cq_threads s ! i))"
proof -
  have upd: "tcount P ((cq_threads s)[i := pc]) + of_bool (P (cq_threads s ! i)) = tcount P (cq_threads s) + of_bool (P pc)" for P
    by (rule tcount_update [OF assms])
  show "tcount in_unref ((cq_threads s)[i := pc]) =
      tcount in_unref (cq_threads s) + of_bool (in_unref pc) - of_bool (in_unref (cq_threads s ! i))"
    using upd [of in_unref] by linarith
  show "tcount at_core_shutdown ((cq_threads s)[i := pc]) =
      tcount at_core_shutdown (cq_threads s) + of_bool (at_core_shutdown pc) - of_bool (at_core_shutdown (cq_threads s ! i))"
    using upd [of at_core_shutdown] by linarith
qed

lemma cq_enter_refines:
  assumes "cq_inv s" "cq_exec a s = Some t" "\<forall>i sp. a \<noteq> Continue i sp"
  shows "cq_inv t \<and> cq_abs t = cq_abs s"
proof (cases a)
  case (CallBorrow i)
  with assms show ?thesis by (auto simp: cq_exec_def cq_defs goto_counts split: if_splits)
next
  case (DropRef i)
  with assms show ?thesis by (auto simp: cq_exec_def cq_defs goto_counts split: if_splits)
next
  case (CallShutdown i)
  with assms show ?thesis by (auto simp: cq_exec_def cq_defs goto_counts split: if_splits)
qed (use assms in blast)

lemma queue_stepI:
  "n' = Suc n \<Longrightarrow> \<not> c \<Longrightarrow> queue_step (n, c) (n', c)"
  "n = Suc n' \<Longrightarrow> queue_step (n, c) (n', c)"
  "n = n' \<Longrightarrow> \<not> c \<Longrightarrow> c' \<Longrightarrow> queue_step (n, c) (n', c')"
  by (auto intro: queue_step.intros)

lemma ref_cnt_same [simp]: "s\<lparr>ref_cnt := ref_cnt s\<rparr> = s"
  by (cases s) simp

lemma continue_add_ref:
  "cq_threads s ! i = InAddRef cnt \<Longrightarrow> cq_continue i sp s = Some
     (if cnt \<le> 0 then goto i CqOut s
      else if ref_cnt s = cnt \<and> \<not> sp
      then goto i CqOut (s\<lparr>ref_cnt := cnt + 1, live_refs := live_refs s + 1\<rparr>)
      else goto i (InAddRef (ref_cnt s)) s)"
  by (simp add: cq_continue_def cq_iter_defs)

lemma continue_unref:
  "cq_threads s ! i = InUnref cnt \<Longrightarrow> cq_continue i sp s = Some
     (if ref_cnt s = cnt \<and> \<not> sp
      then goto i (if cnt - sgn cnt = 0 then CallCoreShutdown else CqOut) (s\<lparr>ref_cnt := cnt - sgn cnt\<rparr>)
      else goto i (InUnref (ref_cnt s)) s)"
  by (simp add: cq_continue_def cq_iter_defs)

lemma continue_shutdown:
  "cq_threads s ! i = InShutdown cnt \<Longrightarrow> cq_continue i sp s = Some
     (if cnt \<le> 0 then goto i CqOut s
      else if ref_cnt s = cnt \<and> \<not> sp
      then goto i (if - cnt + 1 = 0 then CallCoreShutdown else CqOut) (s\<lparr>ref_cnt := - cnt + 1, closing := True\<rparr>)
      else goto i (InShutdown (ref_cnt s)) s)"
  by (simp add: cq_continue_def cq_iter_defs)

lemma cq_add_ref_refines:
  assumes inv: "cq_inv s" and i: "i < length (cq_threads s)" and pc: "cq_threads s ! i = InAddRef cnt"
    and ex: "cq_continue i sp s = Some t"
  shows "cq_inv t \<and> (cq_abs t = cq_abs s \<or> queue_step (cq_abs s) (cq_abs t))"
proof -
  from ex pc consider
      "cnt \<le> 0" "t = goto i CqOut s"
    | "0 < cnt" "ref_cnt s = cnt" "t = goto i CqOut (s\<lparr>ref_cnt := cnt + 1, live_refs := live_refs s + 1\<rparr>)"
    | "t = goto i (InAddRef (ref_cnt s)) s"
    by (auto simp: continue_add_ref split: if_splits)
  then show ?thesis
    using inv pc by cases (auto simp: cq_defs goto_counts [OF i] intro: queue_stepI split: if_splits)
qed

lemma cq_unref_refines:
  assumes inv: "cq_inv s" and i: "i < length (cq_threads s)" and pc: "cq_threads s ! i = InUnref cnt"
    and ex: "cq_continue i sp s = Some t"
  shows "cq_inv t \<and> (cq_abs t = cq_abs s \<or> queue_step (cq_abs s) (cq_abs t))"
proof -
  have pos: "0 < tcount in_unref (cq_threads s)" using tcount_pos [OF i, of in_unref] pc by simp
  from ex pc consider
      "ref_cnt s = cnt"
      "t = goto i (if cnt - sgn cnt = 0 then CallCoreShutdown else CqOut) (s\<lparr>ref_cnt := cnt - sgn cnt\<rparr>)"
    | "t = goto i (InUnref (ref_cnt s)) s"
    by (auto simp: continue_unref split: if_splits)
  then show ?thesis
  proof cases
    case 1
    with inv pc pos show ?thesis
      by (cases "closing s") (auto simp: cq_defs goto_counts [OF i] intro: queue_stepI)
  qed (use inv pc in \<open>auto simp: cq_defs goto_counts [OF i]\<close>)
qed

lemma cq_shutdown_refines:
  assumes inv: "cq_inv s" and i: "i < length (cq_threads s)" and pc: "cq_threads s ! i = InShutdown cnt"
    and ex: "cq_continue i sp s = Some t"
  shows "cq_inv t \<and> (cq_abs t = cq_abs s \<or> queue_step (cq_abs s) (cq_abs t))"
proof -
  from ex pc consider
      "cnt \<le> 0" "t = goto i CqOut s"
    | "0 < cnt" "ref_cnt s = cnt"
      "t = goto i (if - cnt + 1 = 0 then CallCoreShutdown else CqOut) (s\<lparr>ref_cnt := - cnt + 1, closing := True\<rparr>)"
    | "t = goto i (InShutdown (ref_cnt s)) s"
    by (auto simp: continue_shutdown split: if_splits)
  then show ?thesis
  proof cases
    case 2
    with inv have "\<not> closing s" by (auto simp: cq_inv_def split: if_splits)
    with 2 inv pc show ?thesis
      by (auto simp: cq_defs goto_counts [OF i] intro: queue_stepI)
  qed (use inv pc in \<open>auto simp: cq_defs goto_counts [OF i]\<close>)
qed

lemma cq_core_shutdown_refines:
  assumes inv: "cq_inv s" and i: "i < length (cq_threads s)" and pc: "cq_threads s ! i = CallCoreShutdown"
    and ex: "cq_continue i sp s = Some t"
  shows "cq_inv t \<and> cq_abs t = cq_abs s"
  using inv pc ex tcount_pos [OF i, of at_core_shutdown]
  by (auto simp: cq_continue_def cq_defs goto_counts [OF i])

lemma cq_step_refines:
  assumes "cq_inv s" "cq_step s t"
  shows "cq_inv t" "cq_abs t = cq_abs s \<or> queue_step (cq_abs s) (cq_abs t)"
proof -
  from assms(2) obtain a where ex: "cq_exec a s = Some t" by (auto simp: cq_step_def exec_step_def)
  have "cq_inv t \<and> (cq_abs t = cq_abs s \<or> queue_step (cq_abs s) (cq_abs t))"
  proof (cases a)
    case (Continue i sp)
    with ex have i: "i < length (cq_threads s)" and c: "cq_continue i sp s = Some t"
      by (auto simp: cq_exec_def split: if_splits)
    note case_lemmas = cq_add_ref_refines cq_unref_refines cq_shutdown_refines cq_core_shutdown_refines
    show ?thesis
      using case_lemmas [OF assms(1) i _ c] c
      by (cases "cq_threads s ! i") (auto simp: cq_continue_def)
  qed (use cq_enter_refines [OF assms(1) ex] in auto)
  then show "cq_inv t" "cq_abs t = cq_abs s \<or> queue_step (cq_abs s) (cq_abs t)" by auto
qed

interpretation cqr: refinement_system cq_init cq_step queue_init queue_step cq_abs cq_inv
proof
  show "cq_inv s" if "cq_init s" for s
    using that by (auto simp: cq_init_def cq_new_def cq_defs tcount_def)
  show "queue_init (cq_abs s)" if "cq_init s" for s
    using that by (auto simp: cq_init_def cq_new_def cq_defs tcount_def queue_init_def)
qed (rule cq_step_refines; assumption)+


lemma queue_step_closing: "queue_step q r \<Longrightarrow> snd q \<Longrightarrow> snd r \<and> fst r \<le> fst q"
  by (induction rule: queue_step.induct) auto

lemma cq_step_closing:
  assumes "cq_inv s" "cq_step s t" "closing s"
  shows "closing t \<and> outstanding t \<le> outstanding s"
  using cq_step_refines(2) [OF assms(1,2)] queue_step_closing assms(3) by (fastforce simp: cq_abs_def)

interpretation wqs: work_stack push_back pop_work "\<lambda>q. rev (wq_pending q)" wq_inv
proof
  fix s :: "'w work_queue" and w ws
  assume inv: "wq_inv s"
  then show "wq_inv (push_back s w) \<and> rev (wq_pending (push_back s w)) = w # rev (wq_pending s)"
    by (auto simp: wq_inv_def push_back_def Let_def)
  show "\<exists>s'. pop_work s = (None, s') \<and> rev (wq_pending s') = [] \<and> wq_inv s'" if "rev (wq_pending s) = []"
    using that inv by (auto simp: pop_work_def wq_inv_def Let_def)
  show "\<exists>s'. pop_work s = (Some w, s') \<and> rev (wq_pending s') = ws \<and> wq_inv s'" if "rev (wq_pending s) = w # ws"
  proof -
    from that have "wq_pending s = rev ws @ [w]" by (metis rev.simps(2) rev_rev_ident)
    with inv show ?thesis by (auto simp: pop_work_def wq_inv_def Let_def)
  qed
qed

text \<open>One pass whose exchange does not fail spuriously.\<close>

lemma add_ref_once: "add_ref [False] cnt = Some (if cnt \<le> 0 then (Inl QueueShutdown, cnt) else (Inr (), cnt + 1))"
  by (simp add: add_ref_def cq_iter_defs)

lemma unref_once: "unref [False] cnt = Some (cnt - sgn cnt = 0, cnt - sgn cnt)"
  by (simp add: unref_def cq_iter_defs)

lemma shutdown_once:
  "shutdown [False] cnt = Some (if cnt \<le> 0 then (None, cnt) else (Some (- cnt + 1 = 0), - cnt + 1))"
  by (simp add: shutdown_def cq_iter_defs)

section \<open>Properties\<close>


definition cq_sample :: "cq_action list" where
  "cq_sample = [CallBorrow 0, CallShutdown 1, Continue 0 True, Continue 0 False, Continue 1 False,
     Continue 1 False, DropRef 0, CallBorrow 1, Continue 0 False, Continue 1 False, Continue 0 False]"

lemma cq_sample_run:
  "cq_run cq_sample (cq_new 2) = Some \<lparr>ref_cnt = 0, cq_threads = [CqOut, CqOut], live_refs = 0,
     closing = True, core_shutdowns = 1\<rparr>"
  by (simp add: cq_sample_def cq_new_def cq_exec_def cq_continue_def cq_iter_defs numeral_2_eq_2)

lemma cq_sample_reach:
  "reach cq_init cq_step \<lparr>ref_cnt = 0, cq_threads = [CqOut, CqOut], live_refs = 0, closing = True, core_shutdowns = 1\<rparr>"
  unfolding cq_step_def
  by (rule run_acts_reach [OF cq_sample_run]) (auto simp: cq_init_def intro!: reach.reach_init)


text \<open>
  C13. The core's shutdown function is called at most once, only after
  \<^verbatim>\<open>shutdown\<close> was requested and when no reference is left or being dropped; and
  when every thread has left the functions and nothing is borrowed from a closing queue, it
  has been called.
\<close>

theorem cq_core_shutdown_once:
  assumes "reach cq_init cq_step s"
  shows "core_shutdowns s \<le> 1
    \<and> (core_shutdowns s = 1 \<longrightarrow> closing s \<and> live_refs s = 0 \<and> (\<forall>pc \<in> set (cq_threads s). \<not> in_unref pc))
    \<and> (closing s \<and> live_refs s = 0 \<and> set (cq_threads s) \<subseteq> {CqOut} \<longrightarrow> core_shutdowns s = 1)"
proof -
  have inv: "cq_inv s" using cqr.refines [OF assms] by blast
  have "tcount at_core_shutdown (cq_threads s) = 0 \<and> tcount in_unref (cq_threads s) = 0"
    if "set (cq_threads s) \<subseteq> {CqOut}"
    using that by (auto simp: tcount_0_iff)
  moreover have "(\<forall>pc \<in> set (cq_threads s). \<not> in_unref pc) \<longleftrightarrow> tcount in_unref (cq_threads s) = 0"
    by (simp add: tcount_0_iff)
  ultimately show ?thesis
    using inv unfolding cq_inv_def outstanding_def
    by (cases "live_refs s = 0") (auto split: if_splits)
qed

theorem cq_core_shutdown_once_witness:
  "core_shutdowns (the (cq_run cq_sample (cq_new 2))) = 1 \<and> closing (the (cq_run cq_sample (cq_new 2)))"
  using cq_core_shutdown_once [OF cq_sample_reach] by (simp add: cq_sample_run)

text \<open>
  C34. Once a shutdown has taken effect it stays in effect, and no schedule of any threads
  creates another reference: the number of references only falls.
\<close>

theorem no_borrow_after_shutdown:
  assumes "reach cq_init cq_step s" "closing s" "cq_step\<^sup>*\<^sup>* s t"
  shows "closing t \<and> outstanding t \<le> outstanding s"
  using assms(3)
proof (induction rule: rtranclp_induct)
  case (step t u)
  have "cq_inv t" using cqr.refines_run [OF step.hyps(1)] cqr.refines [OF assms(1)] by blast
  with cq_step_closing [OF this step.hyps(2)] step.IH show ?case by linarith
qed (use assms(2) in simp)

theorem no_borrow_after_shutdown_witness:
  "closing (the (cq_run (cq_sample @ [CallBorrow 0]) (cq_new 2)))
    \<and> outstanding (the (cq_run (cq_sample @ [CallBorrow 0]) (cq_new 2))) \<le> 0"
proof -
  let ?s = "\<lparr>ref_cnt = 0, cq_threads = [CqOut, CqOut], live_refs = 0, closing = True, core_shutdowns = 1\<rparr>"
  let ?t = "\<lparr>ref_cnt = 0, cq_threads = [InAddRef 0, CqOut], live_refs = 0, closing = True, core_shutdowns = 1\<rparr>"
  have "cq_step ?s ?t" by (auto simp: cq_step_def exec_step_def cq_exec_def intro!: exI [of _ "CallBorrow 0"])
  then have "closing ?t \<and> outstanding ?t \<le> outstanding ?s"
    by (intro no_borrow_after_shutdown [OF cq_sample_reach]) auto
  moreover have "cq_run (cq_sample @ [CallBorrow 0]) (cq_new 2) = Some ?t"
    by (simp add: cq_sample_def cq_new_def cq_exec_def cq_continue_def cq_iter_defs numeral_2_eq_2)
  ultimately show ?thesis by (simp add: outstanding_def tcount_def)
qed

text \<open>
  The loops end: a thread that runs undisturbed returns at the first pass whose weak
  exchange does not fail spuriously, however many failed before, with the expected result.
\<close>

theorem cq_loops_return:
  "add_ref (replicate k True @ [False]) cnt =
     Some (if cnt \<le> 0 then (Inl QueueShutdown, cnt) else (Inr (), cnt + 1))
   \<and> unref (replicate k True @ [False]) cnt = Some (cnt - sgn cnt = 0, cnt - sgn cnt)
   \<and> shutdown (replicate k True @ [False]) cnt =
     Some (if cnt \<le> 0 then (None, cnt) else (Some (cnt = 1), 1 - cnt))"
  by (induction k) (auto simp: add_ref_def unref_def shutdown_def cq_iter_defs)

text \<open>
  Work pushed by the owning thread comes back last in, first out and leaves the earlier
  work in place; another thread gets its work back and changes nothing; and a pop never
  leaves more than twice the needed capacity once the queue has outgrown its initial one.
\<close>

theorem work_queue_lifo:
  assumes "wq_inv q"
  shows "(\<exists>q'. drain pop_work (length ws) (foldl (\<lambda>q w. snd (push_work (wq_id q) q w)) q ws) = (rev ws, q')
        \<and> wq_pending q' = wq_pending q \<and> wq_inv q')
    \<and> (tid \<noteq> wq_id q \<longrightarrow> push_work tid q w = (Some w, q))
    \<and> wq_capacity (snd (pop_work q)) \<le> max QUEUE_CAPACITY (2 * length (wq_pending q) + 1)"
proof -
  have "(\<lambda>q w. snd (push_work (wq_id q) q w)) = push_back"
    by (auto simp: push_work_def fun_eq_iff)
  moreover have "\<exists>q'. drain pop_work (length ws) (foldl push_back q ws) = (rev ws, q')
        \<and> rev (wq_pending q') = rev (wq_pending q) \<and> wq_inv q'"
    using wqs.push_all [OF assms, of ws] wqs.drain_stacked [of "foldl push_back q ws" "length ws"] by auto
  moreover have "wq_capacity (snd (pop_work q)) \<le> max QUEUE_CAPACITY (2 * length (wq_pending q) + 1)"
    by (auto simp: pop_work_def Let_def)
  ultimately show ?thesis by (auto simp: push_work_def)
qed

theorem work_queue_lifo_witness:
  "(\<exists>q'. drain pop_work (length ''ab'') (foldl (\<lambda>q w. snd (push_work (wq_id q) q w)) (work_queue_new 7) ''ab'') = (''ba'', q')
        \<and> wq_pending q' = [] \<and> wq_inv q')
    \<and> push_work 8 (work_queue_new 7) (CHR ''c'') = (Some (CHR ''c''), work_queue_new 7)"
proof -
  have inv: "wq_inv (work_queue_new 7)" and id: "wq_id (work_queue_new 7) = 7" "wq_pending (work_queue_new 7) = []"
    by (simp_all add: wq_inv_def work_queue_new_def)
  show ?thesis
    using work_queue_lifo [OF inv, of "''ab''" 8 "CHR ''c''"] unfolding id by simp
qed

end
