(* ===== verification/Grpc_Call.thy ===== *)
theory Grpc_Call
  imports Grpc_Task Grpc_Cq
begin

text \<open>
  The calls of \<^verbatim>\<open>src/call/mod.rs\<close> over the batches of
  \<^verbatim>\<open>grpc-sys/grpc_wrap.cc\<close>. The state of the process that calls share is a
  \<open>world\<close>: the reference count of the completion queue, a store of the handles that
  futures and promises share, and the log of the batches given to the C core. Whether the
  core accepts a batch, and whether it is already finished when the call returns, is the
  argument \<open>core\<close> of every operation.
\<close>

unbundle bit_operations_syntax

section \<open>Batches\<close>

datatype op =
    OpSendInitialMetadata metadata u32
  | OpSendMessage grpc_slice u32
  | OpSendCloseFromClient
  | OpRecvInitialMetadata
  | OpRecvMessage
  | OpRecvStatusOnClient
  | OpSendStatusFromServer int bytes metadata
  | OpRecvCloseOnServer

text \<open>
  The operations each wrapper function puts into its batch. The metadata the caller passes
  is moved into the batch context, a null pointer being \<open>None\<close>.
\<close>

definition call_start_unary :: "grpc_slice \<Rightarrow> u32 \<Rightarrow> metadata option \<Rightarrow> u32 \<Rightarrow> op list" where
  "call_start_unary send_buffer write_flags initial_metadata initial_metadata_flags =
     [OpSendInitialMetadata (fst (array_move initial_metadata)) initial_metadata_flags,
      OpSendMessage send_buffer write_flags,
      OpSendCloseFromClient,
      OpRecvInitialMetadata,
      OpRecvMessage,
      OpRecvStatusOnClient]"

definition call_start_client_streaming :: "metadata option \<Rightarrow> u32 \<Rightarrow> op list" where
  "call_start_client_streaming initial_metadata initial_metadata_flags =
     [OpSendInitialMetadata (fst (array_move initial_metadata)) initial_metadata_flags,
      OpRecvInitialMetadata,
      OpRecvMessage,
      OpRecvStatusOnClient]"

definition call_start_server_streaming :: "grpc_slice \<Rightarrow> u32 \<Rightarrow> metadata option \<Rightarrow> u32 \<Rightarrow> op list" where
  "call_start_server_streaming send_buffer write_flags initial_metadata initial_metadata_flags =
     [OpSendInitialMetadata (fst (array_move initial_metadata)) initial_metadata_flags,
      OpSendMessage send_buffer write_flags,
      OpSendCloseFromClient,
      OpRecvStatusOnClient]"

definition call_start_duplex_streaming :: "metadata option \<Rightarrow> u32 \<Rightarrow> op list" where
  "call_start_duplex_streaming initial_metadata initial_metadata_flags =
     [OpSendInitialMetadata (fst (array_move initial_metadata)) initial_metadata_flags,
      OpRecvStatusOnClient]"

definition call_recv_initial_metadata :: "op list" where
  "call_recv_initial_metadata = [OpRecvInitialMetadata]"

definition call_send_message :: "grpc_slice \<Rightarrow> u32 \<Rightarrow> int \<Rightarrow> op list" where
  "call_send_message send_buffer write_flags send_empty_initial_metadata =
     (let nops = (if send_empty_initial_metadata \<noteq> 0 then 2 else 1)
      in take nops [OpSendMessage send_buffer write_flags, OpSendInitialMetadata empty_array 0])"

definition call_send_close_from_client :: "op list" where
  "call_send_close_from_client = [OpSendCloseFromClient]"

definition call_send_status_from_server ::
  "int \<Rightarrow> bytes \<Rightarrow> metadata option \<Rightarrow> int \<Rightarrow> grpc_slice option \<Rightarrow> u32 \<Rightarrow> op list" where
  "call_send_status_from_server status_code status_details trailing_metadata send_empty_initial_metadata
     optional_send_buffer write_flags =
     [OpSendStatusFromServer status_code status_details (fst (array_move trailing_metadata))]
     @ (case optional_send_buffer of Some b \<Rightarrow> [OpSendMessage b write_flags] | None \<Rightarrow> [])
     @ (if send_empty_initial_metadata \<noteq> 0 then [OpSendInitialMetadata empty_array 0] else [])"

definition call_recv_message :: "op list" where
  "call_recv_message = [OpRecvMessage]"

definition call_start_serverside :: "op list" where
  "call_start_serverside = [OpRecvCloseOnServer]"

definition call_send_initial_metadata :: "metadata option \<Rightarrow> op list" where
  "call_send_initial_metadata initial_metadata = [OpSendInitialMetadata (fst (array_move initial_metadata)) 0]"

section \<open>The world\<close>

text \<open>
  A batch of the log: the call, its operations, the tag (the handle of a batch promise with
  its type, or an abort), and the reference count of the queue when the core was called.
\<close>

datatype batch_tag = PromiseTag BatchType nat | AbortTag | UnaryRequestTag

record batch_rec =
  br_call :: nat
  br_ops :: "op list"
  br_tag :: batch_tag
  br_ref_cnt :: int

record 'm world =
  w_ref_cnt :: int
  w_core_shutdowns :: nat
  w_cells :: "nat \<Rightarrow> 'm option notify_handle"
  w_next :: nat
  w_batches :: "batch_rec list"
  w_cancels :: "nat list"

text \<open>
  The core's answer to a batch: an error code, and the result its tag has already been
  resolved with when the call returns, if any (the queue's thread may be that fast).
\<close>

type_synonym 'm core = "'m world \<Rightarrow> nat \<Rightarrow> op list \<Rightarrow> grpc_call_error \<times> 'm option result option"

text \<open>\<^verbatim>\<open>CompletionQueue::borrow\<close> and the drop of the reference.\<close>

definition cq_borrow :: "'m world \<Rightarrow> unit result \<times> 'm world" where
  "cq_borrow w = (case the (add_ref [False] (w_ref_cnt w)) of (r, cnt) \<Rightarrow> (r, w\<lparr>w_ref_cnt := cnt\<rparr>))"

definition cq_release :: "'m world \<Rightarrow> 'm world" where
  "cq_release w = (case the (unref [False] (w_ref_cnt w)) of (sd, cnt) \<Rightarrow>
     w\<lparr>w_ref_cnt := cnt, w_core_shutdowns := w_core_shutdowns w + of_bool sd\<rparr>)"

text \<open>
  The frame of most call operations: \<^verbatim>\<open>let _cq_ref = self.cq.borrow()?\<close> at the
  start, the drop at the end.
\<close>

definition with_cq_ref :: "('m world \<Rightarrow> ('a \<times> 'm world) outcome) \<Rightarrow> 'm world \<Rightarrow> ('a result \<times> 'm world) outcome" where
  "with_cq_ref f w = (case cq_borrow w of
     (Inl e, w) \<Rightarrow> Ret (Inl e, w)
   | (Inr _, w) \<Rightarrow> obind (f w) (\<lambda>(a, w). Ret (Inr a, cq_release w)))"

text \<open>
  \<^verbatim>\<open>check_run\<close>: a handle is made for the tag and its future, and the batch is
  started; a refused batch panics.
\<close>

definition check_run :: "'m core \<Rightarrow> nat \<Rightarrow> BatchType \<Rightarrow> op list \<Rightarrow> 'm world \<Rightarrow> (nat \<times> 'm world) outcome" where
  "check_run core call bt ops w =
     (let inner = w_next w;
          w = w\<lparr>w_cells := (w_cells w)(inner := notify_new), w_next := inner + 1\<rparr>
      in case core w call ops of (status, early) \<Rightarrow>
           if status \<noteq> GRPC_CALL_OK then Panic ''create call fail''
           else Ret (inner, w\<lparr>w_cells := (w_cells w)(inner := notify_new\<lparr>nh_result := early\<rparr>),
                              w_batches := w_batches w @
                                [\<lparr>br_call = call, br_ops = ops, br_tag = PromiseTag bt inner, br_ref_cnt = w_ref_cnt w\<rparr>]\<rparr>))"

section \<open>Calls\<close>

definition start_send_message :: "'m core \<Rightarrow> nat \<Rightarrow> grpc_slice \<Rightarrow> u32 \<Rightarrow> bool \<Rightarrow> 'm world \<Rightarrow> (nat result \<times> 'm world) outcome" where
  "start_send_message core call msg write_flags initial_meta =
     with_cq_ref (check_run core call Finish (call_send_message msg write_flags (if initial_meta then 1 else 0)))"

definition start_send_close_client :: "'m core \<Rightarrow> nat \<Rightarrow> 'm world \<Rightarrow> (nat result \<times> 'm world) outcome" where
  "start_send_close_client core call = with_cq_ref (check_run core call Finish call_send_close_from_client)"

definition start_recv_message :: "'m core \<Rightarrow> nat \<Rightarrow> 'm world \<Rightarrow> (nat result \<times> 'm world) outcome" where
  "start_recv_message core call = with_cq_ref (check_run core call Read call_recv_message)"

definition start_server_side :: "'m core \<Rightarrow> nat \<Rightarrow> 'm world \<Rightarrow> (nat result \<times> 'm world) outcome" where
  "start_server_side core call = with_cq_ref (check_run core call Finish call_start_serverside)"

text \<open>
  The trailing metadata of a status: none when there are no details, otherwise the one
  binary entry.
\<close>

definition status_trailer :: "slice_core \<Rightarrow> RpcStatus \<Rightarrow> metadata option outcome" where
  "status_trailer c status =
     (if details status = [] then Ret None
      else obind (set_binary_error_details c builder_new (details status)) (\<lambda>b.
           obind (md_build b) (\<lambda>m. Ret (Some m))))"

definition start_send_status_from_server ::
  "slice_core \<Rightarrow> 'm core \<Rightarrow> nat \<Rightarrow> RpcStatus \<Rightarrow> bool \<Rightarrow> grpc_slice option \<Rightarrow> u32 \<Rightarrow> 'm world
     \<Rightarrow> (nat result \<times> 'm world) outcome" where
  "start_send_status_from_server c core call status send_empty_metadata payload write_flags =
     with_cq_ref (\<lambda>w.
       obind (status_trailer c status) (\<lambda>trailing.
         check_run core call Finish
           (call_send_status_from_server (code_i32 (code status))
              (if code status = OK then [] else message status) trailing
              (if send_empty_metadata then 1 else 0) payload write_flags) w))"

text \<open>
  \<^verbatim>\<open>abort\<close> and \<^verbatim>\<open>cancel\<close> borrow the queue in the head of a
  \<^verbatim>\<open>match\<close>, so the reference is dropped again at the end of the
  \<^verbatim>\<open>match\<close>, before the core is called.
\<close>

definition call_abort :: "'m core \<Rightarrow> nat \<Rightarrow> RpcStatus \<Rightarrow> 'm world \<Rightarrow> 'm world outcome" where
  "call_abort core call status w = (case cq_borrow w of
     (Inl QueueShutdown, w) \<Rightarrow> Ret w
   | (Inl e, w) \<Rightarrow> Panic ''unexpected error when aborting call''
   | (Inr _, w) \<Rightarrow>
       (let w = cq_release w;
            ops = call_send_status_from_server (code_i32 (code status))
                    (if code status = OK then [] else message status) None 1 None 0
        in if fst (core w call ops) \<noteq> GRPC_CALL_OK then Panic ''create call fail''
           else Ret (w\<lparr>w_batches := w_batches w @
                         [\<lparr>br_call = call, br_ops = ops, br_tag = AbortTag, br_ref_cnt = w_ref_cnt w\<rparr>]\<rparr>)))"

definition call_cancel :: "nat \<Rightarrow> 'm world \<Rightarrow> 'm world outcome" where
  "call_cancel call w = (case cq_borrow w of
     (Inl QueueShutdown, w) \<Rightarrow> Ret w
   | (Inl e, w) \<Rightarrow> Panic ''unexpected error when canceling call''
   | (Inr _, w) \<Rightarrow> (let w = cq_release w in Ret (w\<lparr>w_cancels := w_cancels w @ [call]\<rparr>)))"

section \<open>Futures in the world\<close>

definition future_poll :: "nat \<Rightarrow> waker \<Rightarrow> 'm world \<Rightarrow> ('m option result poll \<times> 'm world) outcome" where
  "future_poll f cx w =
     obind (cq_future_poll cx (w_cells w f)) (\<lambda>(p, h). Ret (p, w\<lparr>w_cells := (w_cells w)(f := h)\<rparr>))"

text \<open>The queue's thread resolves the tag of a batch; the woken task is returned.\<close>

definition complete_batch ::
  "('b \<Rightarrow> 'm outcome) \<Rightarrow> BatchType \<Rightarrow> nat \<Rightarrow> 'b batch_context \<Rightarrow> bool \<Rightarrow> 'm world
     \<Rightarrow> (waker option \<times> 'm world) outcome" where
  "complete_batch open_reader ty f ctx success w =
     obind (batch_resolve open_reader \<lparr>bp_ty = ty, bp_ctx = ctx, bp_inner = f\<rparr> success (w_cells w f))
       (\<lambda>(wk, h). Ret (wk, w\<lparr>w_cells := (w_cells w)(f := h)\<rparr>))"

section \<open>Write flags\<close>

definition GRPC_WRITE_BUFFER_HINT :: u32 where "GRPC_WRITE_BUFFER_HINT = 1"
definition GRPC_WRITE_NO_COMPRESS :: u32 where "GRPC_WRITE_NO_COMPRESS = 2"

definition change_flag :: "u32 \<Rightarrow> u32 \<Rightarrow> bool \<Rightarrow> u32" where
  "change_flag res flag on = (if on then res OR flag else res AND NOT flag)"

definition buffer_hint :: "u32 \<Rightarrow> bool \<Rightarrow> u32" where
  "buffer_hint flags need_buffered = change_flag flags GRPC_WRITE_BUFFER_HINT need_buffered"

definition force_no_compress :: "u32 \<Rightarrow> bool \<Rightarrow> u32" where
  "force_no_compress flags no_compress = change_flag flags GRPC_WRITE_NO_COMPRESS no_compress"

definition get_buffer_hint :: "u32 \<Rightarrow> bool" where
  "get_buffer_hint flags \<longleftrightarrow> flags AND GRPC_WRITE_BUFFER_HINT \<noteq> 0"

definition get_force_no_compress :: "u32 \<Rightarrow> bool" where
  "get_force_no_compress flags \<longleftrightarrow> flags AND GRPC_WRITE_NO_COMPRESS \<noteq> 0"

section \<open>Starting a batch\<close>

lemma w_ref_cnt_same [simp]: "w\<lparr>w_ref_cnt := w_ref_cnt w\<rparr> = w"
  by (cases w) simp

lemma cq_borrow_eq:
  "cq_borrow w = (if w_ref_cnt w \<le> 0 then (Inl QueueShutdown, w) else (Inr (), w\<lparr>w_ref_cnt := w_ref_cnt w + 1\<rparr>))"
  by (simp add: cq_borrow_def add_ref_once)

lemma cq_release_eq:
  "1 < w_ref_cnt w \<Longrightarrow> cq_release w = w\<lparr>w_ref_cnt := w_ref_cnt w - 1\<rparr>"
  by (cases w) (simp add: cq_release_def unref_once)

text \<open>
  The world after a batch was accepted: a fresh handle, the log extended, and the reference
  count back where it was; the log shows that the reference was held.
\<close>

definition after_batch :: "nat \<Rightarrow> BatchType \<Rightarrow> op list \<Rightarrow> 'm option result option \<Rightarrow> 'm world \<Rightarrow> 'm world" where
  "after_batch call bt ops early w =
     w\<lparr>w_cells := (w_cells w)(w_next w := notify_new\<lparr>nh_result := early\<rparr>), w_next := w_next w + 1,
       w_batches := w_batches w @
         [\<lparr>br_call = call, br_ops = ops, br_tag = PromiseTag bt (w_next w), br_ref_cnt = w_ref_cnt w + 1\<rparr>]\<rparr>"

text \<open>The world in which the core is asked.\<close>

definition before_batch :: "'m world \<Rightarrow> 'm world" where
  "before_batch w = w\<lparr>w_ref_cnt := w_ref_cnt w + 1, w_cells := (w_cells w)(w_next w := notify_new), w_next := w_next w + 1\<rparr>"

lemma start_batch_eq:
  "with_cq_ref (check_run core call bt ops) w =
     (if w_ref_cnt w \<le> 0 then Ret (Inl QueueShutdown, w)
      else case core (before_batch w) call ops of (status, early) \<Rightarrow>
        if status \<noteq> GRPC_CALL_OK then Panic ''create call fail''
        else Ret (Inr (w_next w), after_batch call bt ops early w))"
  by (cases w)
    (auto simp: with_cq_ref_def cq_borrow_eq check_run_def Let_def before_batch_def after_batch_def
      cq_release_eq split: prod.splits)

lemma after_batch_simps [simp]:
  "w_ref_cnt (after_batch call bt ops early w) = w_ref_cnt w"
  "w_core_shutdowns (after_batch call bt ops early w) = w_core_shutdowns w"
  "w_cells (after_batch call bt ops early w) = (w_cells w)(w_next w := notify_new\<lparr>nh_result := early\<rparr>)"
  "w_next (after_batch call bt ops early w) = Suc (w_next w)"
  "w_batches (after_batch call bt ops early w) = w_batches w @
     [\<lparr>br_call = call, br_ops = ops, br_tag = PromiseTag bt (w_next w), br_ref_cnt = w_ref_cnt w + 1\<rparr>]"
  "w_cancels (after_batch call bt ops early w) = w_cancels w"
  by (simp_all add: after_batch_def)

text \<open>A core that accepts every batch.\<close>

definition core_accepts :: "'m core \<Rightarrow> bool" where
  "core_accepts core \<longleftrightarrow> (\<forall>w call ops. fst (core w call ops) = GRPC_CALL_OK)"

lemma start_batch_accepted:
  assumes "core_accepts core" "0 < w_ref_cnt w"
  shows "with_cq_ref (check_run core call bt ops) w =
    Ret (Inr (w_next w), after_batch call bt ops (snd (core (before_batch w) call ops)) w)"
  using assms by (auto simp: start_batch_eq core_accepts_def split: prod.splits) (metis fst_conv)+

lemmas start_defs = start_send_message_def start_send_close_client_def start_recv_message_def start_server_side_def

section \<open>Flags as bits\<close>

lemma bit_change_flag: "bit (change_flag f g b) n = (if bit g n then b \<and> n < 32 else bit f n)"
  by (auto simp: change_flag_def bit_simps dest: bit_imp_le_length)

lemma get_flag_bit:
  "get_buffer_hint f = bit f 0" "get_force_no_compress f = bit f 1"
proof -
  have one: "f AND 1 \<noteq> 0 \<longleftrightarrow> bit f 0"
    by (simp add: and_one_eq bit_0 odd_iff_mod_2_eq_one)
  then show "get_buffer_hint f = bit f 0" by (simp add: get_buffer_hint_def GRPC_WRITE_BUFFER_HINT_def)
  have bits: "bit (f AND 2) n \<longleftrightarrow> n = 1 \<and> bit f 1" for n
    using bit_2_iff [of n, where 'a = "32 word"] by (auto simp: bit_and_iff)
  have "f AND 2 = 0 \<longleftrightarrow> \<not> bit f 1"
  proof
    show "\<not> bit f 1" if "f AND 2 = 0" using bits [of 1] that by simp
    show "f AND 2 = 0" if "\<not> bit f 1" by (rule bit_word_eqI) (use bits that in simp)
  qed
  then show "get_force_no_compress f = bit f 1" by (simp add: get_force_no_compress_def GRPC_WRITE_NO_COMPRESS_def)
qed

lemma flag_bits: "bit GRPC_WRITE_BUFFER_HINT n \<longleftrightarrow> n = 0" "bit GRPC_WRITE_NO_COMPRESS n \<longleftrightarrow> n = 1"
  by (auto simp: GRPC_WRITE_BUFFER_HINT_def GRPC_WRITE_NO_COMPRESS_def bit_1_iff bit_2_iff)

lemma get_buffer_hint_buffer_hint [simp]: "get_buffer_hint (buffer_hint f b) = b"
  by (simp add: get_flag_bit buffer_hint_def bit_change_flag flag_bits)

section \<open>Properties\<close>

text \<open>
  Setting a write flag is read back, leaves the other flag as it was, and changes no
  other bit of the 32-bit word.
\<close>

theorem write_flags_spec:
  "get_buffer_hint (buffer_hint f b) = b
   \<and> get_force_no_compress (buffer_hint f b) = get_force_no_compress f
   \<and> get_force_no_compress (force_no_compress f b) = b
   \<and> get_buffer_hint (force_no_compress f b) = get_buffer_hint f
   \<and> (\<forall>n. 2 \<le> n \<longrightarrow> bit (buffer_hint f b) n = bit f n \<and> bit (force_no_compress f b) n = bit f n)"
  by (auto simp: get_flag_bit buffer_hint_def force_no_compress_def bit_change_flag flag_bits)

theorem write_flags_spec_witness:
  "get_buffer_hint (buffer_hint 6 True) \<and> get_force_no_compress (buffer_hint 6 True) \<and> bit (buffer_hint 6 True) 2"
proof -
  have "get_force_no_compress 6" by (simp add: get_flag_bit)
  moreover have "bit (6 :: u32) 2" by simp
  ultimately show ?thesis using write_flags_spec [of 6 True] by auto
qed


definition world_new :: "'m world" where
  "world_new = \<lparr>w_ref_cnt = 1, w_core_shutdowns = 0, w_cells = (\<lambda>_. notify_new), w_next = 0, w_batches = [], w_cancels = []\<rparr>"

definition ok_core :: "'m core" where
  "ok_core = (\<lambda>w call ops. (GRPC_CALL_OK, None))"

lemma ok_core_accepts [simp]: "core_accepts ok_core"
  by (simp add: core_accepts_def ok_core_def)


text \<open>
  Aborting a call reaches the core without a reference to the queue: the reference it
  borrowed is already released, so a shutdown at that moment shuts the queue down in the
  core while the batch is being started; a message sent instead is protected.
\<close>

theorem abort_unprotected:
  assumes "core_accepts core" "w_ref_cnt w = 1"
  shows "(\<exists>w' b. call_abort core call status w = Ret w' \<and> w_batches w' = w_batches w @ [b]
        \<and> shutdown [False] (br_ref_cnt b) = Some (Some True, 0))
    \<and> (\<exists>f w' b. start_send_message core call msg flags meta w = Ret (Inr f, w') \<and> w_batches w' = w_batches w @ [b]
        \<and> shutdown [False] (br_ref_cnt b) = Some (Some False, -1))"
proof
  have "cq_borrow w = (Inr (), w\<lparr>w_ref_cnt := 2\<rparr>)" "cq_release (w\<lparr>w_ref_cnt := 2\<rparr>) = w"
    using assms(2) by (simp_all add: cq_borrow_eq cq_release_eq)
  then show "\<exists>w' b. call_abort core call status w = Ret w' \<and> w_batches w' = w_batches w @ [b]
        \<and> shutdown [False] (br_ref_cnt b) = Some (Some True, 0)"
    using assms by (simp add: call_abort_def core_accepts_def shutdown_once Let_def)
  show "\<exists>f w' b. start_send_message core call msg flags meta w = Ret (Inr f, w') \<and> w_batches w' = w_batches w @ [b]
        \<and> shutdown [False] (br_ref_cnt b) = Some (Some False, -1)"
    using assms by (simp add: start_send_message_def start_batch_accepted shutdown_once)
qed

theorem abort_unprotected_witness:
  "\<exists>w' b. call_abort ok_core 5 (status_new CANCELLED) world_new = Ret (w' :: unit world) \<and> w_batches w' = [b]
      \<and> shutdown [False] (br_ref_cnt b) = Some (Some True, 0)"
  using abort_unprotected [OF ok_core_accepts, of "world_new :: unit world" 5 "status_new CANCELLED"]
  by (auto simp: world_new_def)

text \<open>
  What the core promises of a server's status: the client's context holds the code, the
  message and the trailing metadata.
\<close>

definition status_delivered :: "op \<Rightarrow> 'b batch_context \<Rightarrow> bool" where
  "status_delivered op ctx = (case op of
     OpSendStatusFromServer st msg md \<Rightarrow>
       bc_recv_status ctx = st \<and> as_slice (bc_recv_status_details ctx) = msg
       \<and> md_inv (bc_recv_trailing_metadata ctx) \<and> entries (bc_recv_trailing_metadata ctx) = entries md
   | _ \<Rightarrow> False)"

lemma status_trailer_entries:
  assumes "slice_core_ok c"
  shows "\<exists>t. status_trailer c status = Ret t \<and> entries (fst (array_move t)) =
    (if details status = [] then [] else [(BINARY_ERROR_DETAILS_KEY, details status)])"
proof (cases "details status = []")
  case True
  then show ?thesis by (simp add: status_trailer_def array_move_def empty_array_def entries_def)
next
  case False
  obtain b m where "set_binary_error_details c builder_new (details status) = Ret b" "md_build b = Ret m"
      "entries m = [(BINARY_ERROR_DETAILS_KEY, details status)]"
    using details_metadata [OF assms] by blast
  with False show ?thesis
    by (auto simp: status_trailer_def array_move_def entries_def)
qed

lemma status_read_back:
  assumes "status_delivered (OpSendStatusFromServer (code_i32 (code status)) (message status) md) ctx"
    and "entries md = (if details status = [] then [] else [(BINARY_ERROR_DETAILS_KEY, details status)])"
    and "utf8_valid (message status)" "code status \<noteq> OK"
  shows "rpc_status ctx = status"
proof -
  have "search_binary_error_details (bc_recv_trailing_metadata ctx) = details status"
    using assms(1,2) by (auto simp: status_delivered_def search_entries)
  moreover have "RpcStatusCode (bc_recv_status ctx) = code status"
    using assms(1) by (cases "code status") (simp add: status_delivered_def)
  ultimately show ?thesis
    using assms by (simp add: rpc_status_def Let_def status_delivered_def from_utf8_lossy_valid with_details_def)
qed

text \<open>
  C28. A status survives the way from server to client: whatever client context the core
  delivers the server's status batch into, reading it gives the status that was sent, or
  plain OK, which carries neither message nor details.
\<close>

theorem status_roundtrip:
  assumes "slice_core_ok c" "core_accepts core" "0 < w_ref_cnt w" "utf8_valid (message status)"
  shows "\<exists>f w' b. start_send_status_from_server c core call status meta payload flags w = Ret (Inr f, w')
    \<and> w_batches w' = w_batches w @ [b]
    \<and> (\<forall>ctx. status_delivered (hd (br_ops b)) ctx \<longrightarrow>
          rpc_status ctx = (if code status = OK then status_ok else status))"
proof -
  obtain t where t: "status_trailer c status = Ret t" "entries (fst (array_move t)) =
      (if details status = [] then [] else [(BINARY_ERROR_DETAILS_KEY, details status)])"
    using status_trailer_entries [OF assms(1)] by blast
  have ok: "rpc_status ctx = status_ok" if "code status = OK" "bc_recv_status ctx = code_i32 (code status)" for ctx
    using that by (simp add: rpc_status_def)
  show ?thesis
    using t(1) start_batch_accepted [OF assms(2,3)] status_read_back [OF _ t(2) assms(4)] ok
    by (auto simp: start_send_status_from_server_def call_send_status_from_server_def status_delivered_def)
qed

definition sample_status :: RpcStatus where
  "sample_status = with_details NOT_FOUND ''no key'' ''d''"

definition sample_ctx :: "unit batch_context" where
  "sample_ctx = batch_context_create\<lparr>bc_recv_status := 5, bc_recv_status_details := Refcounted 1 6 ''no key'',
     bc_recv_trailing_metadata := \<lparr>md_count = 1, md_capacity = 1,
       md_slots = [(Refcounted 1 23 BINARY_ERROR_DETAILS_KEY, Refcounted 1 1 ''d'')]\<rparr>\<rparr>"

lemma sample_status_sent:
  "\<exists>w'. start_send_status_from_server sample_core ok_core 5 sample_status True None 0 world_new = Ret (Inr 0, w' :: unit world)
    \<and> (\<exists>b. w_batches w' = [b] \<and> status_delivered (hd (br_ops b)) sample_ctx)"
  by (simp add: start_send_status_from_server_def sample_status_def with_details_def status_trailer_def
      set_binary_error_details_def add_metadata_def builder_new_def builder_with_capacity_def array_init_def
      array_add_def rust_assert_def md_build_def array_shrink_to_fit_def start_batch_accepted world_new_def
      call_send_status_from_server_def status_delivered_def sample_ctx_def array_move_def md_inv_def entries_def
      slice_wf_def as_slice_def sample_core_def BINARY_ERROR_DETAILS_KEY_def numeral_eq_Suc)

theorem status_roundtrip_witness:
  "\<exists>f w' b. start_send_status_from_server sample_core ok_core 5 sample_status True None 0 world_new = Ret (Inr f, w' :: unit world)
    \<and> w_batches w' = [b] \<and> status_delivered (hd (br_ops b)) sample_ctx \<and> rpc_status sample_ctx = sample_status"
proof -
  have utf8: "utf8_valid (message sample_status)" by code_simp
  have open_cq: "0 < w_ref_cnt (world_new :: unit world)" by (simp add: world_new_def)
  have code: "code sample_status \<noteq> OK" by (simp add: sample_status_def with_details_def)
  show ?thesis
    using status_roundtrip [OF sample_core_ok ok_core_accepts open_cq utf8, of 5 True None 0]
      sample_status_sent code by (auto simp: world_new_def)
qed

end
