(* ===== verification/Grpc_Stream.thy ===== *)
theory Grpc_Stream
  imports Grpc_Call
begin

text \<open>
  The building blocks of streaming calls in \<^verbatim>\<open>src/call/mod.rs\<close>:
  \<^verbatim>\<open>ShareCall\<close>, the call shared by sender and receiver,
  \<^verbatim>\<open>StreamingBase\<close>, which receives messages one batch at a time, and
  \<^verbatim>\<open>SinkBase\<close>, which sends them with or without the enhanced batching strategy.
\<close>

section \<open>A shared call\<close>

record share_call =
  sc_call :: nat
  sc_close_f :: nat
  sc_finished :: bool
  sc_status :: "RpcStatus option"

definition share_call_new :: "nat \<Rightarrow> nat \<Rightarrow> share_call" where
  "share_call_new call close_f = \<lparr>sc_call = call, sc_close_f = close_f, sc_finished = False, sc_status = None\<rparr>"

definition poll_finish :: "waker \<Rightarrow> share_call \<Rightarrow> 'm world \<Rightarrow> ('m option result poll \<times> share_call \<times> 'm world) outcome" where
  "poll_finish cx self w = obind (future_poll (sc_close_f self) cx w) (\<lambda>(p, w). case p of
     Pending \<Rightarrow> Ret (Pending, self, w)
   | Ready (Inr reader) \<Rightarrow> Ret (Ready (Inr reader), self\<lparr>sc_status := Some status_ok, sc_finished := True\<rparr>, w)
   | Ready (Inl (RpcFailure status)) \<Rightarrow>
       Ret (Ready (Inl (RpcFailure status)), self\<lparr>sc_status := Some status, sc_finished := True\<rparr>, w)
   | Ready (Inl e) \<Rightarrow> Ret (Ready (Inl e), self\<lparr>sc_finished := True\<rparr>, w))"

definition share_check_alive :: "share_call \<Rightarrow> 'm world \<Rightarrow> unit result" where
  "share_check_alive self w =
     (if sc_finished self then Inl (RpcFinished (sc_status self))
      else check_alive (w_cells w (sc_close_f self)))"

section \<open>Receiving\<close>

record streaming_base =
  sb_close_f :: "nat option"
  sb_msg_f :: "nat option"
  sb_read_done :: bool

definition streaming_base_new :: "nat option \<Rightarrow> streaming_base" where
  "streaming_base_new close_f = \<lparr>sb_close_f = close_f, sb_msg_f = None, sb_read_done = False\<rparr>"

text \<open>
  The first part of \<^verbatim>\<open>StreamingBase::poll\<close>: unless it is skipped, the finish of
  the call is polled. An error is returned at once; a finished call is only noted, because
  there may be pending data.
\<close>

definition streaming_close ::
  "waker \<Rightarrow> bool \<Rightarrow> streaming_base \<Rightarrow> 'm world \<Rightarrow> (error option \<times> streaming_base \<times> 'm world) outcome" where
  "streaming_close cx skip_finish_check self w =
     (if skip_finish_check then Ret (None, self, w)
      else case sb_close_f self of
        None \<Rightarrow> Ret (None, self, w)
      | Some close_f \<Rightarrow> obind (future_poll close_f cx w) (\<lambda>(p, w). case p of
            Pending \<Rightarrow> Ret (None, self, w)
          | Ready (Inl e) \<Rightarrow> Ret (Some e, self, w)
          | Ready (Inr _) \<Rightarrow> Ret (None, self\<lparr>sb_close_f := None\<rparr>, w)))"

text \<open>The second part: the outstanding read, if any. \<open>Inl\<close> is an early return.\<close>

definition streaming_read ::
  "waker \<Rightarrow> streaming_base \<Rightarrow> 'm world \<Rightarrow> (('m result option poll + 'm option) \<times> streaming_base \<times> 'm world) outcome" where
  "streaming_read cx self w =
     (if sb_read_done self then Ret (Inr None, self, w)
      else case sb_msg_f self of
        None \<Rightarrow> Ret (Inr None, self, w)
      | Some msg_f \<Rightarrow> obind (future_poll msg_f cx w) (\<lambda>(p, w). case p of
            Pending \<Rightarrow> Ret (Inl Pending, self, w)
          | Ready (Inl e) \<Rightarrow> Ret (Inl (Ready (Some (Inl e))), self, w)
          | Ready (Inr bytes) \<Rightarrow>
              Ret (Inr bytes, if bytes = None then self\<lparr>sb_read_done := True\<rparr> else self, w)))"

lemma streaming_close_msg_f:
  "streaming_close cx skip self w = Ret (r, self', w') \<Longrightarrow> sb_msg_f self' = sb_msg_f self"
  by (auto simp: streaming_close_def split: if_splits option.splits obind_splits prod.splits poll.splits sum.splits)

lemma streaming_read_again:
  "streaming_read cx self w = Ret (Inr None, self', w') \<Longrightarrow> \<not> sb_read_done self' \<Longrightarrow> sb_msg_f self = None"
  by (auto simp: streaming_read_def split: if_splits option.splits obind_splits prod.splits poll.splits sum.splits)

lemma streaming_again:
  "streaming_close cx skip self w = Ret (r, self1, w1) \<Longrightarrow> streaming_read cx self1 w1 = Ret (Inr None, self2, w2) \<Longrightarrow>
   \<not> sb_read_done self2 \<Longrightarrow> sb_msg_f self = None"
  using streaming_close_msg_f streaming_read_again by metis

text \<open>
  \<^verbatim>\<open>StreamingBase::poll\<close>. It calls itself once, to poll the read it has just
  started when there was none.
\<close>

function streaming_poll ::
  "'m core \<Rightarrow> nat \<Rightarrow> waker \<Rightarrow> bool \<Rightarrow> streaming_base \<Rightarrow> 'm world
     \<Rightarrow> ('m result option poll \<times> streaming_base \<times> 'm world) outcome" where
  "streaming_poll core call cx skip_finish_check self w =
     obind (streaming_close cx skip_finish_check self w) (\<lambda>(err, self1, w1).
       case err of
         Some e \<Rightarrow> Ret (Ready (Some (Inl e)), self1, w1)
       | None \<Rightarrow> obind (streaming_read cx self1 w1) (\<lambda>(got, self2, w2).
           case got of
             Inl p \<Rightarrow> Ret (p, self2, w2)
           | Inr bytes \<Rightarrow>
               if sb_read_done self2 then
                 (if sb_close_f self2 = None then Ret (Ready None, self2, w2) else Ret (Pending, self2, w2))
               else obind (start_recv_message core call w2) (\<lambda>(r, w3).
                 case r of
                   Inl e \<Rightarrow> Ret (Ready (Some (Inl e)), self2\<lparr>sb_msg_f := None\<rparr>, w3)
                 | Inr msg_f \<Rightarrow>
                     (let self4 = self2\<lparr>sb_msg_f := Some msg_f\<rparr>
                      in if bytes = None then streaming_poll core call cx True self4 w3
                         else Ret (Ready (map_option Inr bytes), self4, w3)))))"
  by pat_completeness auto

termination
  by (relation "measure (\<lambda>(core, call, cx, skip, self, w). if sb_msg_f self = None then 1 else 0)")
    (auto intro: streaming_again)

declare streaming_poll.simps [simp del]

definition streaming_on_drop :: "nat \<Rightarrow> streaming_base \<Rightarrow> 'm world \<Rightarrow> 'm world outcome" where
  "streaming_on_drop call self w =
     (if \<not> sb_read_done self \<or> sb_close_f self \<noteq> None then call_cancel call w else Ret w)"

section \<open>Sending\<close>

record sink_base =
  sk_batch_f :: "nat option"
  sk_send_metadata :: bool
  sk_enhance_buffer_strategy :: bool
  sk_buffer :: grpc_slice
  sk_buf_flags :: "u32 option"
  sk_last_buf_hint :: bool

definition sink_base_new :: "slice_core \<Rightarrow> bool \<Rightarrow> sink_base" where
  "sink_base_new c send_metadata =
     \<lparr>sk_batch_f = None, sk_send_metadata = send_metadata, sk_enhance_buffer_strategy = False,
      sk_buffer = slice_default c, sk_buf_flags = None, sk_last_buf_hint = True\<rparr>"

definition start_send_buffer_message ::
  "slice_core \<Rightarrow> 'm core \<Rightarrow> nat \<Rightarrow> bool \<Rightarrow> sink_base \<Rightarrow> 'm world \<Rightarrow> (unit result \<times> sink_base \<times> 'm world) outcome" where
  "start_send_buffer_message c core call hint self w =
     obind (rust_assert (sk_batch_f self = None) ''assertion failed: self.batch_f.is_none()'') (\<lambda>_.
     obind (unwrap (sk_buf_flags self)) (\<lambda>flags.
     obind (start_send_message core call (sk_buffer self) (buffer_hint flags hint) (sk_send_metadata self) w) (\<lambda>(r, w).
       case r of
         Inl e \<Rightarrow> Ret (Inl e, self, w)
       | Inr write_f \<Rightarrow>
           Ret (Inr (), self\<lparr>sk_batch_f := Some write_f,
                             sk_buffer := (if \<not> is_inline (sk_buffer self) then slice_default c else sk_buffer self),
                             sk_buf_flags := None\<rparr>, w))))"

text \<open>\<open>ser\<close> is the serializer of the message type, writing into the sink's buffer.\<close>

definition start_send ::
  "slice_core \<Rightarrow> 'm core \<Rightarrow> nat \<Rightarrow> ('t \<Rightarrow> grpc_slice \<Rightarrow> grpc_slice outcome) \<Rightarrow> 't \<Rightarrow> u32 \<Rightarrow> sink_base \<Rightarrow> 'm world
     \<Rightarrow> (unit result \<times> sink_base \<times> 'm world) outcome" where
  "start_send c core call ser t flags self w =
     (if sk_send_metadata self then
        obind (ser t (sk_buffer self)) (\<lambda>buf.
          let self = self\<lparr>sk_buffer := buf, sk_buf_flags := Some flags\<rparr>
          in obind (start_send_buffer_message c core call False self w) (\<lambda>(r, self, w).
               case r of
                 Inl e \<Rightarrow> Ret (Inl e, self, w)
               | Inr _ \<Rightarrow> Ret (Inr (), self\<lparr>sk_send_metadata := False\<rparr>, w)))
      else
        obind (if sk_buf_flags self \<noteq> None then start_send_buffer_message c core call True self w
               else Ret (Inr (), self, w)) (\<lambda>(r, self, w).
          case r of
            Inl e \<Rightarrow> Ret (Inl e, self, w)
          | Inr _ \<Rightarrow>
              obind (ser t (sk_buffer self)) (\<lambda>buf.
                let hint = get_buffer_hint flags;
                    self = self\<lparr>sk_buffer := buf, sk_last_buf_hint := (sk_last_buf_hint self \<and> hint),
                                sk_buf_flags := Some flags\<rparr>
                in if \<not> sk_enhance_buffer_strategy self
                   then start_send_buffer_message c core call hint self w
                   else Ret (Inr (), self, w))))"

definition sink_poll_ready :: "waker \<Rightarrow> sink_base \<Rightarrow> 'm world \<Rightarrow> (unit result poll \<times> sink_base \<times> 'm world) outcome" where
  "sink_poll_ready cx self w = (case sk_batch_f self of
     None \<Rightarrow> Ret (Ready (Inr ()), self, w)
   | Some f \<Rightarrow> obind (future_poll f cx w) (\<lambda>(p, w). case p of
         Pending \<Rightarrow> Ret (Pending, self, w)
       | Ready (Inl e) \<Rightarrow> Ret (Ready (Inl e), self, w)
       | Ready (Inr _) \<Rightarrow> Ret (Ready (Inr ()), self\<lparr>sk_batch_f := None\<rparr>, w)))"

definition sink_poll_flush ::
  "slice_core \<Rightarrow> 'm core \<Rightarrow> nat \<Rightarrow> waker \<Rightarrow> sink_base \<Rightarrow> 'm world \<Rightarrow> (unit result poll \<times> sink_base \<times> 'm world) outcome" where
  "sink_poll_flush c core call cx self w =
     obind (if sk_batch_f self \<noteq> None then sink_poll_ready cx self w else Ret (Ready (Inr ()), self, w)) (\<lambda>(p, self, w).
       case p of
         Pending \<Rightarrow> Ret (Pending, self, w)
       | Ready (Inl e) \<Rightarrow> Ret (Ready (Inl e), self, w)
       | Ready (Inr _) \<Rightarrow>
           if sk_buf_flags self \<noteq> None then
             obind (start_send_buffer_message c core call (sk_last_buf_hint self) self w) (\<lambda>(r, self, w).
               case r of
                 Inl e \<Rightarrow> Ret (Ready (Inl e), self, w)
               | Inr _ \<Rightarrow> obind (sink_poll_ready cx self w) (\<lambda>(p, self, w).
                   case p of
                     Ready (Inr _) \<Rightarrow> Ret (Ready (Inr ()), self\<lparr>sk_last_buf_hint := True\<rparr>, w)
                   | _ \<Rightarrow> Ret (p, self, w)))
           else Ret (Ready (Inr ()), self\<lparr>sk_last_buf_hint := True\<rparr>, w))"

section \<open>What a stream of messages promises\<close>

text \<open>
  A receiver is polled by its task while the core completes reads in between. \<open>item n\<close>
  is the \<open>n\<close>-th message of the call, nothing after the last; the invariant knows how
  many messages have been handed out. The contract: a poll does not panic, a message handed
  out is the next one, and the end is reported only when there is no next message.
\<close>

inductive stream_run ::
  "(waker \<Rightarrow> 's \<Rightarrow> ('i result option poll \<times> 's) outcome) \<Rightarrow> ('s \<Rightarrow> 's \<Rightarrow> bool) \<Rightarrow> 's \<Rightarrow> 'i list \<Rightarrow> 's \<Rightarrow> bool"
  for pollf :: "waker \<Rightarrow> 's \<Rightarrow> ('i result option poll \<times> 's) outcome" and env :: "'s \<Rightarrow> 's \<Rightarrow> bool" where
  run_start: "stream_run pollf env s [] s"
| run_env: "stream_run pollf env s outs t \<Longrightarrow> env t u \<Longrightarrow> stream_run pollf env s outs u"
| run_poll: "stream_run pollf env s outs t \<Longrightarrow> pollf cx t = Ret (p, u) \<Longrightarrow>
    stream_run pollf env s (outs @ (case p of Ready (Some (Inr i)) \<Rightarrow> [i] | _ \<Rightarrow> [])) u"

locale message_stream =
  fixes pollf :: "waker \<Rightarrow> 's \<Rightarrow> ('i result option poll \<times> 's) outcome"
    and env :: "'s \<Rightarrow> 's \<Rightarrow> bool"
    and item :: "nat \<Rightarrow> 'i option"
    and inv :: "nat \<Rightarrow> 's \<Rightarrow> bool"
  assumes poll_keeps: "inv n s \<Longrightarrow> \<exists>p s'. pollf cx s = Ret (p, s') \<and> (case p of
        Ready (Some (Inr i)) \<Rightarrow> item n = Some i \<and> inv (Suc n) s'
      | Ready None \<Rightarrow> item n = None \<and> inv n s'
      | _ \<Rightarrow> inv n s')"
    and env_keeps: "inv n s \<Longrightarrow> env s t \<Longrightarrow> inv n t"
begin

lemma run_inv: "stream_run pollf env s outs t \<Longrightarrow> inv 0 s \<Longrightarrow>
   inv (length outs) t \<and> map Some outs = map item [0..<length outs]"
proof (induction rule: stream_run.induct)
  case (run_poll s outs t cx p u)
  then have inv: "inv (length outs) t" and outs: "map Some outs = map item [0..<length outs]" by auto
  from poll_keeps [OF inv, of cx] run_poll.hyps(2) outs show ?case
    by (auto split: poll.splits option.splits sum.splits)
qed (auto intro: env_keeps)

lemma run_no_panic: "stream_run pollf env s outs t \<Longrightarrow> inv 0 s \<Longrightarrow> \<exists>r. pollf cx t = Ret r"
  using run_inv poll_keeps by blast

lemma run_end: "stream_run pollf env s outs t \<Longrightarrow> inv 0 s \<Longrightarrow> pollf cx t = Ret (Ready None, u) \<Longrightarrow> item (length outs) = None"
proof -
  assume "stream_run pollf env s outs t" "inv 0 s" and p: "pollf cx t = Ret (Ready None, u)"
  then have "inv (length outs) t" using run_inv by blast
  from poll_keeps [OF this, of cx] p show ?thesis by simp
qed

end

section \<open>Reads of a call\<close>

text \<open>
  \<open>answer k\<close> is what the core delivers for the \<open>k\<close>-th read batch of the call, in
  the order in which the batches were started; \<open>core_reads\<close> says that reads are
  accepted and that a read finished early is finished with its answer.
\<close>

definition recv_count :: "nat \<Rightarrow> 'm world \<Rightarrow> nat" where
  "recv_count call w = length (filter (\<lambda>b. br_call b = call \<and> br_ops b = call_recv_message) (w_batches w))"

definition core_reads :: "'m core \<Rightarrow> nat \<Rightarrow> (nat \<Rightarrow> 'm option) \<Rightarrow> bool" where
  "core_reads core call answer \<longleftrightarrow> (\<forall>w. fst (core w call call_recv_message) = GRPC_CALL_OK \<and>
     (snd (core w call call_recv_message) = None \<or>
      snd (core w call call_recv_message) = Some (Inr (answer (recv_count call w)))))"

definition read_pending :: "'m option \<Rightarrow> 'm option notify_handle \<Rightarrow> bool" where
  "read_pending ans h = (case cell_abs h of Waiting _ \<Rightarrow> True | Done r \<Rightarrow> r = Inr ans | Taken \<Rightarrow> False)"

text \<open>
  The state of the reads when \<open>n\<close> messages have been handed out. Once the queue is
  shutting down no read can be started and the count no longer matters.
\<close>

definition read_inv :: "nat \<Rightarrow> (nat \<Rightarrow> 'm option) \<Rightarrow> nat \<Rightarrow> nat option \<Rightarrow> bool \<Rightarrow> 'm world \<Rightarrow> bool" where
  "read_inv call answer n msg_f read_done w =
     (if read_done then answer n = None
      else case msg_f of
        None \<Rightarrow> recv_count call w = n \<or> w_ref_cnt w \<le> 0
      | Some f \<Rightarrow> recv_count call w = Suc n \<and> read_pending (answer n) (w_cells w f))"

text \<open>
  What may happen between polls: the outstanding read is completed with its answer, and
  anything at all that does not touch it or start reads of this call, nor reopen a queue
  that is shutting down.
\<close>

definition read_env :: "nat \<Rightarrow> (nat \<Rightarrow> 'm option) \<Rightarrow> nat option \<Rightarrow> 'm world \<Rightarrow> 'm world \<Rightarrow> bool" where
  "read_env call answer msg_f w w' \<longleftrightarrow> recv_count call w' = recv_count call w \<and>
     (w_ref_cnt w \<le> 0 \<longrightarrow> w_ref_cnt w' \<le> 0) \<and>
     (\<forall>f. msg_f = Some f \<longrightarrow> w_cells w' f = w_cells w f \<or>
        (\<exists>wk. cell_abs (w_cells w f) = Waiting wk) \<and>
        w_cells w' f = snd (set_result (Inr (answer (recv_count call w - 1))) (w_cells w f)))"

lemma recv_count_after [simp]:
  "recv_count call (after_batch call' bt ops early w) =
     recv_count call w + of_bool (call' = call \<and> ops = call_recv_message)"
  by (simp add: recv_count_def)

lemma recv_count_before [simp]: "recv_count call (before_batch w) = recv_count call w"
  by (simp add: recv_count_def before_batch_def)

lemma recv_count_cells [simp]: "recv_count call (w\<lparr>w_cells := c\<rparr>) = recv_count call w"
  by (simp add: recv_count_def)

lemma read_env_keeps:
  "read_inv call answer n msg_f done w \<Longrightarrow> read_env call answer msg_f w w' \<Longrightarrow> read_inv call answer n msg_f done w'"
proof (cases "done \<or> msg_f = None")
  case False
  then obtain f where f: "msg_f = Some f" "\<not> done" by auto
  assume inv: "read_inv call answer n msg_f done w" and env: "read_env call answer msg_f w w'"
  have "read_pending (answer n) (w_cells w' f)"
  proof (cases "w_cells w' f = w_cells w f")
    case False
    then obtain wk where "cell_abs (w_cells w f) = Waiting wk"
        "w_cells w' f = snd (set_result (Inr (answer n)) (w_cells w f))"
      using inv env f by (auto simp: read_inv_def read_env_def)
    then show ?thesis
      by (auto simp: read_pending_def cell_abs_def set_result_def split: if_splits option.splits)
  qed (use inv f in \<open>simp add: read_inv_def\<close>)
  then show ?thesis using inv env f by (simp add: read_inv_def read_env_def)
qed (auto simp: read_inv_def read_env_def)

text \<open>Polling the outstanding read, and starting the next one.\<close>

definition same_but :: "nat \<Rightarrow> 'm world \<Rightarrow> 'm world \<Rightarrow> bool" where
  "same_but f w w' \<longleftrightarrow> (\<forall>g. g \<noteq> f \<longrightarrow> w_cells w' g = w_cells w g) \<and> w_next w \<le> w_next w'"

lemma poll_read:
  assumes "read_inv call answer n (Some f) False w"
  shows "(\<exists>w'. future_poll f cx w = Ret (Pending, w') \<and> read_inv call answer n (Some f) False w' \<and> same_but f w w')
    \<or> (\<exists>w'. future_poll f cx w = Ret (Ready (Inr (answer n)), w') \<and> recv_count call w' = Suc n \<and> same_but f w w')"
proof -
  from assms have rc: "recv_count call w = Suc n" and pend: "read_pending (answer n) (w_cells w f)"
    by (simp_all add: read_inv_def)
  show ?thesis
  proof (cases "cell_abs (w_cells w f)")
    case (Waiting wk)
    then obtain h where "cq_future_poll cx (w_cells w f) = Ret (Pending, h)" "cell_abs h = Waiting (Some cx)"
      using cell_pollE [of cx "w_cells w f" Pending "Waiting (Some cx)"] by auto
    with rc show ?thesis by (simp add: future_poll_def read_inv_def read_pending_def same_but_def)
  next
    case (Done r)
    with pend have "r = Inr (answer n)" by (simp add: read_pending_def)
    with Done obtain h where "cq_future_poll cx (w_cells w f) = Ret (Ready (Inr (answer n)), h)"
      using cell_pollE [of cx "w_cells w f" "Ready r" Taken] by auto
    with rc show ?thesis by (simp add: future_poll_def same_but_def)
  next
    case Taken
    with pend show ?thesis by (simp add: read_pending_def)
  qed
qed

lemma start_read:
  assumes "core_reads core call answer" "recv_count call w = n \<or> w_ref_cnt w \<le> 0"
  shows "start_recv_message core call w = Ret (Inl QueueShutdown, w) \<and> w_ref_cnt w \<le> 0
    \<or> (\<exists>w'. start_recv_message core call w = Ret (Inr (w_next w), w')
        \<and> read_inv call answer n (Some (w_next w)) False w' \<and> same_but (w_next w) w w')"
proof (cases "w_ref_cnt w \<le> 0")
  case True
  then show ?thesis by (simp add: start_recv_message_def start_batch_eq)
next
  case False
  with assms have n: "recv_count call w = n" by simp
  obtain status early where c: "core (before_batch w) call call_recv_message = (status, early)" by fastforce
  with assms n have "status = GRPC_CALL_OK" "early = None \<or> early = Some (Inr (answer n))"
    unfolding core_reads_def by (metis fst_conv, metis snd_conv recv_count_before)
  with False c n show ?thesis
    by (auto simp: start_recv_message_def start_batch_eq read_inv_def read_pending_def cell_abs_def notify_new_def
        same_but_def)
qed

section \<open>The receiving side of a call is such a stream\<close>

definition sb_env :: "nat \<Rightarrow> (nat \<Rightarrow> 'm option) \<Rightarrow> streaming_base \<times> 'm world \<Rightarrow> streaming_base \<times> 'm world \<Rightarrow> bool" where
  "sb_env call answer s t \<longleftrightarrow> fst t = fst s \<and> read_env call answer (sb_msg_f (fst s)) (snd s) (snd t)"

definition sb_inv :: "'m core \<Rightarrow> nat \<Rightarrow> (nat \<Rightarrow> 'm option) \<Rightarrow> nat \<Rightarrow> streaming_base \<times> 'm world \<Rightarrow> bool" where
  "sb_inv core call answer n s \<longleftrightarrow> core_reads core call answer \<and> sb_close_f (fst s) = None \<and>
     read_inv call answer n (sb_msg_f (fst s)) (sb_read_done (fst s)) (snd s)"

abbreviation stream_good ::
  "'m core \<Rightarrow> nat \<Rightarrow> (nat \<Rightarrow> 'm option) \<Rightarrow> nat \<Rightarrow> 'm result option poll \<times> streaming_base \<times> 'm world \<Rightarrow> bool" where
  "stream_good core call answer n r \<equiv> (case fst r of
        Ready (Some (Inr i)) \<Rightarrow> answer n = Some i \<and> sb_inv core call answer (Suc n) (snd r)
      | Ready None \<Rightarrow> answer n = None \<and> sb_inv core call answer n (snd r)
      | _ \<Rightarrow> sb_inv core call answer n (snd r))"

lemma streaming_poll_outstanding:
  assumes inv: "sb_inv core call answer n (self, w)" and f: "sb_msg_f self = Some f"
  shows "\<exists>r. streaming_poll core call cx skip self w = Ret r \<and> stream_good core call answer n r"
proof -
  from inv have reads: "core_reads core call answer" and close: "sb_close_f self = None"
    and rd: "read_inv call answer n (sb_msg_f self) (sb_read_done self) w" by (auto simp: sb_inv_def)
  have none: "streaming_close cx skip self w = Ret (None, self, w)" using close by (simp add: streaming_close_def)
  show ?thesis
  proof (cases "sb_read_done self")
    case True
    with none close rd inv show ?thesis
      by (simp add: streaming_poll.simps [of _ _ _ skip] streaming_read_def read_inv_def)
  next
    case False
    with rd f have rd: "read_inv call answer n (Some f) False w" by simp
    from poll_read [OF rd, of cx] consider
        (wait) w' where "future_poll f cx w = Ret (Pending, w')" "read_inv call answer n (Some f) False w'"
      | (got) w' where "future_poll f cx w = Ret (Ready (Inr (answer n)), w')" "recv_count call w' = Suc n"
      by blast
    then show ?thesis
    proof cases
      case wait
      with none False f reads close show ?thesis
        by (simp add: streaming_poll.simps [of _ _ _ skip] streaming_read_def sb_inv_def)
    next
      case got
      show ?thesis
      proof (cases "answer n")
        case None
        with got none False f reads close show ?thesis
          by (simp add: streaming_poll.simps [of _ _ _ skip] streaming_read_def sb_inv_def read_inv_def)
      next
        case (Some m)
        from start_read [OF reads, of w' "Suc n"] got(2) show ?thesis
          using got(1) none False f reads close Some
          by (auto simp: streaming_poll.simps [of _ _ _ skip] streaming_read_def sb_inv_def read_inv_def)
      qed
    qed
  qed
qed

lemma streaming_poll_good:
  assumes inv: "sb_inv core call answer n (self, w)"
  shows "\<exists>r. streaming_poll core call cx False self w = Ret r \<and> stream_good core call answer n r"
proof (cases "sb_msg_f self = None \<and> \<not> sb_read_done self")
  case True
  from inv have reads: "core_reads core call answer" and close: "sb_close_f self = None" by (auto simp: sb_inv_def)
  have none: "streaming_close cx False self w = Ret (None, self, w)" using close by (simp add: streaming_close_def)
  have "recv_count call w = n \<or> w_ref_cnt w \<le> 0" using inv True by (simp add: sb_inv_def read_inv_def)
  from start_read [OF reads this] show ?thesis
  proof
    assume "start_recv_message core call w = Ret (Inl QueueShutdown, w) \<and> w_ref_cnt w \<le> 0"
    with none True reads close show ?thesis
      by (simp add: streaming_poll.simps [of _ _ _ False] streaming_read_def sb_inv_def read_inv_def)
  next
    assume "\<exists>w'. start_recv_message core call w = Ret (Inr (w_next w), w')
        \<and> read_inv call answer n (Some (w_next w)) False w' \<and> same_but (w_next w) w w'"
    then obtain f w' where f: "start_recv_message core call w = Ret (Inr f, w')"
      "read_inv call answer n (Some f) False w'" by blast
    have "sb_inv core call answer n (self\<lparr>sb_msg_f := Some f\<rparr>, w')"
      using f reads close True by (simp add: sb_inv_def)
    from streaming_poll_outstanding [OF this, of f cx True] f none True show ?thesis
      by (auto simp: streaming_poll.simps [of _ _ _ False] streaming_read_def)
  qed
next
  case False
  show ?thesis
  proof (cases "sb_msg_f self")
    case None
    with False have fin: "sb_read_done self" by simp
    have "streaming_close cx False self w = Ret (None, self, w)"
      using inv by (simp add: streaming_close_def sb_inv_def)
    with fin inv show ?thesis
      by (simp add: streaming_poll.simps [of _ _ _ False] streaming_read_def read_inv_def sb_inv_def)
  qed (use streaming_poll_outstanding [OF inv] in blast)
qed

interpretation sbs: message_stream "\<lambda>cx s. streaming_poll core call cx False (fst s) (snd s)"
  "sb_env call answer" answer "sb_inv core call answer" for core call answer
proof
  fix n s cx
  assume "sb_inv core call answer n s"
  then show "\<exists>p s'. streaming_poll core call cx False (fst s) (snd s) = Ret (p, s') \<and> (case p of
        Ready (Some (Inr i)) \<Rightarrow> answer n = Some i \<and> sb_inv core call answer (Suc n) s'
      | Ready None \<Rightarrow> answer n = None \<and> sb_inv core call answer n s'
      | _ \<Rightarrow> sb_inv core call answer n s')"
    using streaming_poll_good [of core call answer n "fst s" "snd s" cx]
    by (metis prod.collapse)
next
  fix n s t
  assume "sb_inv core call answer n s" "sb_env call answer s t"
  then show "sb_inv core call answer n t"
    using read_env_keeps by (fastforce simp: sb_inv_def sb_env_def)
qed

section \<open>Sending\<close>

text \<open>
  A client of the sink that keeps to its contract: before each message it polls the sink
  ready; it stops at the first answer that is not a success.
\<close>

fun send_all ::
  "slice_core \<Rightarrow> 'm core \<Rightarrow> nat \<Rightarrow> ('t \<Rightarrow> grpc_slice \<Rightarrow> grpc_slice outcome) \<Rightarrow> waker \<Rightarrow> ('t \<times> u32) list \<Rightarrow> sink_base
     \<Rightarrow> 'm world \<Rightarrow> (unit result poll \<times> sink_base \<times> 'm world) outcome" where
  "send_all c core call ser cx [] self w = Ret (Ready (Inr ()), self, w)"
| "send_all c core call ser cx ((t, flags) # ms) self w =
     obind (sink_poll_ready cx self w) (\<lambda>(p, self, w).
       case p of
         Ready (Inr _) \<Rightarrow> obind (start_send c core call ser t flags self w) (\<lambda>(r, self, w).
           case r of
             Inr _ \<Rightarrow> send_all c core call ser cx ms self w
           | Inl e \<Rightarrow> Ret (Ready (Inl e), self, w))
       | _ \<Rightarrow> Ret (p, self, w))"

text \<open>
  The hypotheses of the theorems on sending: a core that accepts each write and finishes it
  before the sink is polled again, and a serializer that writes the encoding of a message
  into any slice it is given.
\<close>

definition core_writes :: "'m core \<Rightarrow> bool" where
  "core_writes core \<longleftrightarrow> (\<forall>w call ops. core w call ops = (GRPC_CALL_OK, Some (Inr None)))"

definition ser_ok :: "('t \<Rightarrow> grpc_slice \<Rightarrow> grpc_slice outcome) \<Rightarrow> ('t \<Rightarrow> bytes) \<Rightarrow> bool" where
  "ser_ok ser enc \<longleftrightarrow> (\<forall>t s. slice_wf s \<longrightarrow> (\<exists>s'. ser t s = Ret s' \<and> slice_wf s' \<and> as_slice s' = enc t))"

text \<open>The batch of one message and the batches of a list of messages with their final hints.\<close>

definition is_send :: "nat \<Rightarrow> ('t \<Rightarrow> bytes) \<Rightarrow> batch_rec \<Rightarrow> ('t \<times> u32) \<times> bool \<Rightarrow> bool" where
  "is_send call enc b m \<longleftrightarrow> br_call b = call \<and>
     (\<exists>s. br_ops b = [OpSendMessage s (buffer_hint (snd (fst m)) (snd m))] \<and> as_slice s = enc (fst (fst m)))"

text \<open>The sink between two operations: no write, or one that is finished.\<close>

definition sink_idle :: "sink_base \<Rightarrow> 'm world \<Rightarrow> bool" where
  "sink_idle self w \<longleftrightarrow> slice_wf (sk_buffer self) \<and>
     (\<forall>f. sk_batch_f self = Some f \<longrightarrow> cell_abs (w_cells w f) = Done (Inr None))"

definition holds_message :: "('t \<Rightarrow> bytes) \<Rightarrow> 't \<times> u32 \<Rightarrow> sink_base \<Rightarrow> bool" where
  "holds_message enc m self \<longleftrightarrow> sk_buf_flags self = Some (snd m) \<and> as_slice (sk_buffer self) = enc (fst m)"

lemma sink_ready:
  assumes "sink_idle self w"
  shows "\<exists>w'. sink_poll_ready cx self w = Ret (Ready (Inr ()), self\<lparr>sk_batch_f := None\<rparr>, w')
    \<and> w_batches w' = w_batches w \<and> w_ref_cnt w' = w_ref_cnt w"
proof (cases "sk_batch_f self")
  case None
  then show ?thesis by (cases self) (simp add: sink_poll_ready_def)
next
  case (Some f)
  with assms have "cell_abs (w_cells w f) = Done (Inr None)" by (simp add: sink_idle_def)
  then obtain h where "cq_future_poll cx (w_cells w f) = Ret (Ready (Inr None), h)"
    using cell_pollE [of cx "w_cells w f" "Ready (Inr None)" Taken] by auto
  with Some show ?thesis by (simp add: sink_poll_ready_def future_poll_def)
qed

lemma sink_send_buffer:
  assumes "slice_core_ok c" "core_writes core" "0 < w_ref_cnt w" "sk_batch_f self = None" "\<not> sk_send_metadata self"
    and "slice_wf (sk_buffer self)" "holds_message enc m self"
  shows "\<exists>self' w' b. start_send_buffer_message c core call hint self w = Ret (Inr (), self', w')
    \<and> sink_idle self' w' \<and> w_batches w' = w_batches w @ [b] \<and> is_send call enc b (m, hint) \<and> w_ref_cnt w' = w_ref_cnt w
    \<and> sk_buf_flags self' = None \<and> sk_send_metadata self' = sk_send_metadata self \<and> sk_batch_f self' \<noteq> None
    \<and> sk_enhance_buffer_strategy self' = sk_enhance_buffer_strategy self \<and> sk_last_buf_hint self' = sk_last_buf_hint self"
proof -
  have "core_accepts core" and early: "\<And>w ops. snd (core w call ops) = Some (Inr None)"
    using assms(2) by (simp_all add: core_writes_def core_accepts_def)
  moreover have "slice_wf (slice_default c)" using assms(1) by (simp add: slice_core_ok_def slice_default_def)
  ultimately show ?thesis
    using assms
    by (auto simp: start_send_buffer_message_def start_send_message_def start_batch_accepted holds_message_def
        sink_idle_def is_send_def call_send_message_def cell_abs_def notify_new_def)
qed

text \<open>One message under the enhanced strategy: what was buffered goes out, the message stays.\<close>

lemma start_send_enhanced:
  assumes ok: "slice_core_ok c" "core_writes core" "ser_ok ser enc" "0 < w_ref_cnt w"
    and self: "sk_batch_f self = None" "\<not> sk_send_metadata self" "sk_enhance_buffer_strategy self" "slice_wf (sk_buffer self)"
    and held: "case prev of None \<Rightarrow> sk_buf_flags self = None | Some m \<Rightarrow> holds_message enc m self"
  shows "\<exists>self' w' bs. start_send c core call ser t flags self w = Ret (Inr (), self', w')
    \<and> sink_idle self' w' \<and> \<not> sk_send_metadata self' \<and> sk_enhance_buffer_strategy self' \<and> w_ref_cnt w' = w_ref_cnt w
    \<and> w_batches w' = w_batches w @ bs \<and> list_all2 (is_send call enc) bs (case prev of None \<Rightarrow> [] | Some m \<Rightarrow> [(m, True)])
    \<and> holds_message enc (t, flags) self' \<and> sk_last_buf_hint self' = (sk_last_buf_hint self \<and> get_buffer_hint flags)"
proof (cases prev)
  case None
  obtain s' where "ser t (sk_buffer self) = Ret s'" "slice_wf s'" "as_slice s' = enc t"
    using ok(3) self(4) by (auto simp: ser_ok_def)
  with None held self show ?thesis
    using ok(4) by (simp add: start_send_def sink_idle_def holds_message_def Let_def)
next
  case (Some m)
  with held have m: "holds_message enc m self" by simp
  from sink_send_buffer [OF ok(1,2,4) self(1,2,4) m, of call True] obtain self1 w1 b where
    b: "start_send_buffer_message c core call True self w = Ret (Inr (), self1, w1)" "sink_idle self1 w1"
      "w_batches w1 = w_batches w @ [b]" "is_send call enc b (m, True)" "w_ref_cnt w1 = w_ref_cnt w"
      "\<not> sk_send_metadata self1" "sk_enhance_buffer_strategy self1" "sk_last_buf_hint self1 = sk_last_buf_hint self"
    using self by auto
  obtain s' where "ser t (sk_buffer self1) = Ret s'" "slice_wf s'" "as_slice s' = enc t"
    using ok(3) b(2) unfolding ser_ok_def sink_idle_def by meson
  with Some b m self show ?thesis
    by (simp add: start_send_def sink_idle_def holds_message_def Let_def)
qed

abbreviation opt_list :: "'a option \<Rightarrow> 'a list" where
  "opt_list x \<equiv> (case x of None \<Rightarrow> [] | Some a \<Rightarrow> [a])"

abbreviation hints :: "('t \<times> u32) list \<Rightarrow> bool" where
  "hints ms \<equiv> list_all (\<lambda>m. get_buffer_hint (snd m)) ms"

lemma send_all_enhanced:
  assumes ok: "slice_core_ok c" "core_writes core" "ser_ok ser enc"
  shows "0 < w_ref_cnt w \<Longrightarrow> sink_idle self w \<Longrightarrow> \<not> sk_send_metadata self \<Longrightarrow> sk_enhance_buffer_strategy self \<Longrightarrow>
    (case prev of None \<Rightarrow> sk_buf_flags self = None | Some m \<Rightarrow> holds_message enc m self) \<Longrightarrow>
    \<exists>self' w' bs. send_all c core call ser cx ms self w = Ret (Ready (Inr ()), self', w')
      \<and> sink_idle self' w' \<and> \<not> sk_send_metadata self' \<and> w_ref_cnt w' = w_ref_cnt w \<and> w_batches w' = w_batches w @ bs
      \<and> list_all2 (is_send call enc) bs (map (\<lambda>m. (m, True)) (butlast (opt_list prev @ ms)))
      \<and> (opt_list prev @ ms \<noteq> [] \<longrightarrow> holds_message enc (last (opt_list prev @ ms)) self')
      \<and> sk_last_buf_hint self' = (sk_last_buf_hint self \<and> hints ms)"
proof (induction ms arbitrary: self w prev)
  case Nil
  then show ?case by (auto split: option.splits)
next
  case (Cons m ms)
  obtain t flags where m: "m = (t, flags)" by fastforce
  obtain w1 where w1: "sink_poll_ready cx self w = Ret (Ready (Inr ()), self\<lparr>sk_batch_f := None\<rparr>, w1)"
      "w_batches w1 = w_batches w" "w_ref_cnt w1 = w_ref_cnt w"
    using sink_ready [OF Cons.prems(2)] by blast
  let ?self1 = "self\<lparr>sk_batch_f := None\<rparr>"
  have "case prev of None \<Rightarrow> sk_buf_flags ?self1 = None | Some m \<Rightarrow> holds_message enc m ?self1"
    using Cons.prems(5) by (simp add: holds_message_def split: option.splits)
  with start_send_enhanced [OF ok, of w1 ?self1 prev call t flags] Cons.prems w1 obtain self2 w2 bs where
    s2: "start_send c core call ser t flags ?self1 w1 = Ret (Inr (), self2, w2)" "sink_idle self2 w2"
      "\<not> sk_send_metadata self2" "sk_enhance_buffer_strategy self2" "w_ref_cnt w2 = w_ref_cnt w"
      "w_batches w2 = w_batches w @ bs" "list_all2 (is_send call enc) bs (case prev of None \<Rightarrow> [] | Some m \<Rightarrow> [(m, True)])"
      "holds_message enc (t, flags) self2" "sk_last_buf_hint self2 = (sk_last_buf_hint self \<and> get_buffer_hint flags)"
    by (auto simp: sink_idle_def)
  from Cons.IH [of w2 self2 "Some m"] s2 Cons.prems(1) m obtain self3 w3 bs' where
    s3: "send_all c core call ser cx ms self2 w2 = Ret (Ready (Inr ()), self3, w3)" "sink_idle self3 w3"
      "\<not> sk_send_metadata self3" "w_ref_cnt w3 = w_ref_cnt w" "w_batches w3 = w_batches w2 @ bs'"
      "list_all2 (is_send call enc) bs' (map (\<lambda>m. (m, True)) (butlast (m # ms)))"
      "holds_message enc (last (m # ms)) self3" "sk_last_buf_hint self3 = (sk_last_buf_hint self2 \<and> hints ms)"
    by auto
  have "list_all2 (is_send call enc) (bs @ bs') (map (\<lambda>m. (m, True)) (butlast (opt_list prev @ m # ms)))"
    using list_all2_appendI [OF s2(7) s3(6)] by (cases prev) auto
  moreover have "send_all c core call ser cx (m # ms) self w = Ret (Ready (Inr ()), self3, w3)"
    using m w1(1) s2(1) s3(1) by simp
  ultimately show ?case using s2 s3 m by (cases prev) auto
qed

lemma sink_flush:
  assumes "slice_core_ok c" "core_writes core" "0 < w_ref_cnt w" "sink_idle self w" "\<not> sk_send_metadata self"
    and "holds_message enc m self"
  shows "\<exists>self' w' b. sink_poll_flush c core call cx self w = Ret (Ready (Inr ()), self', w')
    \<and> w_batches w' = w_batches w @ [b] \<and> is_send call enc b (m, sk_last_buf_hint self)
    \<and> sk_buf_flags self' = None \<and> sk_batch_f self' = None \<and> sk_last_buf_hint self'"
proof -
  let ?self1 = "self\<lparr>sk_batch_f := None\<rparr>"
  obtain w1 where w1: "sink_poll_ready cx self w = Ret (Ready (Inr ()), ?self1, w1)"
      "w_batches w1 = w_batches w" "w_ref_cnt w1 = w_ref_cnt w"
    using sink_ready [OF assms(4)] by blast
  have first: "(if sk_batch_f self \<noteq> None then sink_poll_ready cx self w else Ret (Ready (Inr ()), self, w))
      = Ret (Ready (Inr ()), ?self1, if sk_batch_f self \<noteq> None then w1 else w)"
    using w1(1) by (cases self) auto
  let ?w = "if sk_batch_f self \<noteq> None then w1 else w"
  have held: "holds_message enc m ?self1" and buf: "slice_wf (sk_buffer ?self1)" and pos: "0 < w_ref_cnt ?w"
    and log: "w_batches ?w = w_batches w"
    using assms w1 by (auto simp: holds_message_def sink_idle_def)
  from sink_send_buffer [OF assms(1,2) pos _ _ buf held, of call "sk_last_buf_hint ?self1"] assms(5)
  obtain self2 w2 b where s2: "start_send_buffer_message c core call (sk_last_buf_hint ?self1) ?self1 ?w = Ret (Inr (), self2, w2)"
      "sink_idle self2 w2" "w_batches w2 = w_batches w @ [b]" "is_send call enc b (m, sk_last_buf_hint self)"
      "sk_buf_flags self2 = None"
    unfolding log by auto
  from sink_ready [OF s2(2), of cx] obtain w3 where
    "sink_poll_ready cx self2 w2 = Ret (Ready (Inr ()), self2\<lparr>sk_batch_f := None\<rparr>, w3)" "w_batches w3 = w_batches w2" by blast
  with first s2 held show ?thesis
    by (simp add: sink_poll_flush_def holds_message_def)
qed

text \<open>Without the strategy every message goes out at once, with its own hint.\<close>

lemma start_send_plain:
  assumes ok: "slice_core_ok c" "core_writes core" "ser_ok ser enc" "0 < w_ref_cnt w"
    and self: "sk_batch_f self = None" "\<not> sk_send_metadata self" "\<not> sk_enhance_buffer_strategy self"
      "slice_wf (sk_buffer self)" "sk_buf_flags self = None"
  shows "\<exists>self' w' b. start_send c core call ser t flags self w = Ret (Inr (), self', w')
    \<and> sink_idle self' w' \<and> \<not> sk_send_metadata self' \<and> \<not> sk_enhance_buffer_strategy self' \<and> w_ref_cnt w' = w_ref_cnt w
    \<and> w_batches w' = w_batches w @ [b] \<and> is_send call enc b ((t, flags), get_buffer_hint flags) \<and> sk_buf_flags self' = None"
proof -
  obtain s' where s': "ser t (sk_buffer self) = Ret s'" "slice_wf s'" "as_slice s' = enc t"
    using ok(3) self(4) by (auto simp: ser_ok_def)
  let ?self1 = "self\<lparr>sk_buffer := s', sk_last_buf_hint := (sk_last_buf_hint self \<and> get_buffer_hint flags), sk_buf_flags := Some flags\<rparr>"
  have held: "holds_message enc (t, flags) ?self1" using s' by (simp add: holds_message_def)
  from sink_send_buffer [OF ok(1,2,4) _ _ _ held, of call "get_buffer_hint flags"] self s'
  show ?thesis by (simp add: start_send_def Let_def) blast
qed

lemma send_all_plain:
  assumes ok: "slice_core_ok c" "core_writes core" "ser_ok ser enc"
  shows "0 < w_ref_cnt w \<Longrightarrow> sink_idle self w \<Longrightarrow> \<not> sk_send_metadata self \<Longrightarrow> \<not> sk_enhance_buffer_strategy self \<Longrightarrow>
    sk_buf_flags self = None \<Longrightarrow>
    \<exists>self' w' bs. send_all c core call ser cx ms self w = Ret (Ready (Inr ()), self', w')
      \<and> w_batches w' = w_batches w @ bs \<and> list_all2 (is_send call enc) bs (map (\<lambda>m. (m, get_buffer_hint (snd m))) ms)"
proof (induction ms arbitrary: self w)
  case (Cons m ms)
  obtain t flags where m: "m = (t, flags)" by fastforce
  obtain w1 where w1: "sink_poll_ready cx self w = Ret (Ready (Inr ()), self\<lparr>sk_batch_f := None\<rparr>, w1)"
      "w_batches w1 = w_batches w" "w_ref_cnt w1 = w_ref_cnt w"
    using sink_ready [OF Cons.prems(2)] by blast
  from start_send_plain [OF ok, of w1 "self\<lparr>sk_batch_f := None\<rparr>" call t flags] Cons.prems w1 obtain self2 w2 b where
    s2: "start_send c core call ser t flags (self\<lparr>sk_batch_f := None\<rparr>) w1 = Ret (Inr (), self2, w2)" "sink_idle self2 w2"
      "\<not> sk_send_metadata self2" "\<not> sk_enhance_buffer_strategy self2" "w_ref_cnt w2 = w_ref_cnt w"
      "w_batches w2 = w_batches w @ [b]" "is_send call enc b ((t, flags), get_buffer_hint flags)" "sk_buf_flags self2 = None"
    by (auto simp: sink_idle_def)
  from Cons.IH [of w2 self2] s2 Cons.prems(1) obtain self3 w3 bs where
    s3: "send_all c core call ser cx ms self2 w2 = Ret (Ready (Inr ()), self3, w3)" "w_batches w3 = w_batches w2 @ bs"
      "list_all2 (is_send call enc) bs (map (\<lambda>m. (m, get_buffer_hint (snd m))) ms)"
    by auto
  with s2 m w1(1) show ?case by (auto intro!: exI [of _ "b # bs"])
qed simp

section \<open>Properties\<close>


definition write_core :: "'m core" where
  "write_core = (\<lambda>w call ops. (GRPC_CALL_OK, Some (Inr None)))"

definition byte_ser :: "bytes \<Rightarrow> grpc_slice \<Rightarrow> grpc_slice outcome" where
  "byte_ser t s = Ret (Refcounted 1 (length t) t)"

lemma write_core_ok [simp]: "core_writes write_core" "ser_ok byte_ser id"
  by (simp_all add: core_writes_def write_core_def ser_ok_def byte_ser_def slice_wf_def as_slice_def)


text \<open>
  Without enhanced batching every message is sent at once, exactly once and in order,
  with the buffer hint it was offered with.
\<close>

theorem sink_plain_rule:
  assumes "slice_core_ok c" "core_writes core" "ser_ok ser enc" "0 < w_ref_cnt w"
  shows "\<exists>self' w' bs. send_all c core call ser cx ms (sink_base_new c False) w = Ret (Ready (Inr ()), self', w')
    \<and> w_batches w' = w_batches w @ bs
    \<and> list_all2 (is_send call enc) bs (map (\<lambda>m. (m, get_buffer_hint (snd m))) ms)"
proof -
  have "sink_idle (sink_base_new c False) w"
    using assms(1) by (simp add: sink_idle_def sink_base_new_def slice_core_ok_def slice_default_def)
  from send_all_plain [OF assms(1-4) this, of call cx ms] show ?thesis by (simp add: sink_base_new_def)
qed

theorem sink_plain_rule_witness:
  "\<exists>self' w' bs. send_all sample_core write_core 5 byte_ser 0 [(''a'', 1), (''b'', 0)] (sink_base_new sample_core False)
      (world_new :: unit world) = Ret (Ready (Inr ()), self', w')
    \<and> w_batches w' = bs \<and> list_all2 (is_send 5 id) bs [((''a'', 1), True), ((''b'', 0), False)]"
proof -
  have pos: "0 < w_ref_cnt (world_new :: unit world)" by (simp add: world_new_def)
  have "get_buffer_hint 1" "\<not> get_buffer_hint 0" by (simp_all add: get_buffer_hint_def GRPC_WRITE_BUFFER_HINT_def)
  with sink_plain_rule [OF sample_core_ok write_core_ok pos, of 5 0 "[(''a'', 1), (''b'', 0)]"] show ?thesis
    by (fastforce simp: world_new_def)
qed

text \<open>
  Switching enhanced batching off while a message is buffered makes the next send panic,
  although the caller polled the sink ready before it: the buffered message is started and
  the new one is started on top of it.
\<close>

theorem enhance_switch_panics:
  assumes "slice_core_ok c" "core_writes core" "ser_ok ser enc" "0 < w_ref_cnt w"
  shows "\<exists>self' w'. send_all c core call ser cx [m] ((sink_base_new c False)\<lparr>sk_enhance_buffer_strategy := True\<rparr>) w
       = Ret (Ready (Inr ()), self', w')
    \<and> send_all c core call ser cx [m'] (self'\<lparr>sk_enhance_buffer_strategy := False\<rparr>) w'
       = Panic ''assertion failed: self.batch_f.is_none()''"
proof -
  let ?self = "(sink_base_new c False)\<lparr>sk_enhance_buffer_strategy := True\<rparr>"
  have idle: "sink_idle ?self w"
    using assms(1) by (simp add: sink_idle_def sink_base_new_def slice_core_ok_def slice_default_def)
  from send_all_enhanced [OF assms(1-4) idle, of None call cx "[m]"] obtain self' w' where
    s: "send_all c core call ser cx [m] ?self w = Ret (Ready (Inr ()), self', w')" "sink_idle self' w'"
      "\<not> sk_send_metadata self'" "w_ref_cnt w' = w_ref_cnt w" "holds_message enc m self'"
    by (auto simp: sink_base_new_def)
  let ?off = "self'\<lparr>sk_enhance_buffer_strategy := False\<rparr>"
  have "sink_idle ?off w'" using s(2) by (simp add: sink_idle_def)
  then obtain w1 where w1: "sink_poll_ready cx ?off w' = Ret (Ready (Inr ()), ?off\<lparr>sk_batch_f := None\<rparr>, w1)" "w_ref_cnt w1 = w_ref_cnt w'"
    using sink_ready by blast
  let ?self1 = "?off\<lparr>sk_batch_f := None\<rparr>"
  have held: "holds_message enc m ?self1" "slice_wf (sk_buffer ?self1)"
    using s by (simp_all add: holds_message_def sink_idle_def)
  from sink_send_buffer [OF assms(1,2) _ _ _ held(2,1), of w1 call True] s(3,4) w1(2) assms(4)
  obtain self2 w2 where s2: "start_send_buffer_message c core call True ?self1 w1 = Ret (Inr (), self2, w2)"
      "slice_wf (sk_buffer self2)" "sk_batch_f self2 \<noteq> None" "\<not> sk_enhance_buffer_strategy self2"
    by (auto simp: sink_idle_def)
  obtain t flags where m': "m' = (t, flags)" by fastforce
  obtain buf where "ser t (sk_buffer self2) = Ret buf" using assms(3) s2(2) unfolding ser_ok_def by meson
  with s2 s(3) held(1) have "start_send c core call ser t flags ?self1 w1 = Panic ''assertion failed: self.batch_f.is_none()''"
    by (auto simp: start_send_def holds_message_def Let_def start_send_buffer_message_def [of _ _ _ "get_buffer_hint flags"])
  with s(1) w1(1) m' show ?thesis by simp
qed

theorem enhance_switch_panics_witness:
  "\<exists>self' w'. send_all sample_core write_core 5 byte_ser 0 [(''a'', 0)]
       ((sink_base_new sample_core False)\<lparr>sk_enhance_buffer_strategy := True\<rparr>) (world_new :: unit world)
       = Ret (Ready (Inr ()), self', w')
    \<and> send_all sample_core write_core 5 byte_ser 0 [(''b'', 0)] (self'\<lparr>sk_enhance_buffer_strategy := False\<rparr>) w'
       = Panic ''assertion failed: self.batch_f.is_none()''"
proof -
  have pos: "0 < w_ref_cnt (world_new :: unit world)" by (simp add: world_new_def)
  show ?thesis by (rule enhance_switch_panics [OF sample_core_ok write_core_ok pos])
qed

text \<open>
  C16. A stream of requests yields the messages of the call in order, each once, whatever
  the timing of polls and completed reads: it never panics, and it ends only after the last
  message.
\<close>

theorem request_stream_in_order:
  assumes "core_reads core call answer" "recv_count call w = 0"
    and "stream_run (\<lambda>cx s. streaming_poll core call cx False (fst s) (snd s)) (sb_env call answer)
           (streaming_base_new None, w) outs t"
  shows "map Some outs = map answer [0..<length outs]
    \<and> (\<exists>r. streaming_poll core call cx False (fst t) (snd t) = Ret r)
    \<and> (streaming_poll core call cx False (fst t) (snd t) = Ret (Ready None, u) \<longrightarrow> answer (length outs) = None)"
proof -
  have inv: "sb_inv core call answer 0 (streaming_base_new None, w)"
    using assms by (simp add: sb_inv_def streaming_base_new_def read_inv_def)
  show ?thesis
    using sbs.run_inv [OF assms(3) inv] sbs.run_no_panic [OF assms(3) inv] sbs.run_end [OF assms(3) inv] by blast
qed

definition list_answer :: "'m list \<Rightarrow> nat \<Rightarrow> 'm option" where
  "list_answer ms k = (if k < length ms then Some (ms ! k) else None)"

definition read_core :: "'m list \<Rightarrow> 'm core" where
  "read_core ms = (\<lambda>w call ops. (GRPC_CALL_OK, Some (Inr (list_answer ms (recv_count call w)))))"

lemma read_core_reads: "core_reads (read_core ms) call (list_answer ms)"
  by (simp add: core_reads_def read_core_def)

lemma sample_stream_poll:
  "\<exists>t. streaming_poll (read_core ''a'') 5 0 False (streaming_base_new None) world_new = Ret (Ready (Some (Inr (CHR ''a''))), t)"
  by (simp add: streaming_poll.simps [of _ _ _ False] streaming_poll.simps [of _ _ _ True] streaming_close_def streaming_read_def
      streaming_base_new_def start_recv_message_def start_batch_eq read_core_def list_answer_def recv_count_def world_new_def
      before_batch_def after_batch_def future_poll_def cq_future_poll_def notify_new_def)

theorem request_stream_in_order_witness:
  "\<exists>t. stream_run (\<lambda>cx s. streaming_poll (read_core ''a'') 5 cx False (fst s) (snd s)) (sb_env 5 (list_answer ''a''))
         (streaming_base_new None, world_new) ''a'' t
    \<and> map Some ''a'' = map (list_answer ''a'') [0..<1]
    \<and> (\<exists>r. streaming_poll (read_core ''a'') 5 0 False (fst t) (snd t) = Ret r)"
proof -
  let ?poll = "\<lambda>cx s. streaming_poll (read_core ''a'') 5 cx False (fst s) (snd s)"
  let ?s = "(streaming_base_new None, world_new :: char world)"
  obtain t where poll: "?poll 0 ?s = Ret (Ready (Some (Inr (CHR ''a''))), t)"
    using sample_stream_poll by auto
  have run: "stream_run ?poll (sb_env 5 (list_answer ''a'')) ?s ''a'' t"
    using stream_run.run_poll [of ?poll "sb_env 5 (list_answer ''a'')" ?s "[]" ?s 0, OF stream_run.run_start poll] by simp
  have "recv_count 5 (world_new :: char world) = 0" by (simp add: recv_count_def world_new_def)
  note ord = request_stream_in_order [OF read_core_reads this run, of 0]
  show ?thesis by (rule exI [of _ t]) (use ord run in simp)
qed

end
