(* ===== verification/Grpc_Server_Call.thy ===== *)
theory Grpc_Server_Call
  imports Grpc_Stream
begin

text \<open>
  The server's side of a call in \<^verbatim>\<open>src/call/server.rs\<close>: deadlines, the context a
  handler gets, the stream of requests, the sinks that answer unary and streaming calls, and
  the functions that accept a call and hand it to the user's handler. The two macros that
  generate the sinks are modelled once; the call they hold is passed beside them, because it
  may be shared with the stream of requests.
\<close>

section \<open>Deadlines\<close>

datatype gpr_clock_type = GPR_CLOCK_MONOTONIC | GPR_CLOCK_REALTIME | GPR_CLOCK_PRECISE | GPR_TIMESPAN

record gpr_timespec =
  tv_sec :: "64 word"
  tv_nsec :: "32 word"
  clock_type :: gpr_clock_type

text \<open>A \<^verbatim>\<open>Duration\<close>: seconds, and nanoseconds below one second.\<close>

record duration =
  dur_secs :: u64
  dur_nanos :: u32

definition timespec_from_duration :: "duration \<Rightarrow> gpr_timespec" where
  "timespec_from_duration dur =
     \<lparr>tv_sec = dur_secs dur, tv_nsec = dur_nanos dur, clock_type = GPR_TIMESPAN\<rparr>"

text \<open>\<open>convert\<close> is the core's conversion to another clock, \<open>cmp\<close> its comparison.\<close>

definition deadline_new :: "(gpr_timespec \<Rightarrow> gpr_clock_type \<Rightarrow> gpr_timespec) \<Rightarrow> gpr_timespec \<Rightarrow> gpr_timespec" where
  "deadline_new convert spec = convert spec GPR_CLOCK_REALTIME"

definition deadline_exceeded :: "(gpr_timespec \<Rightarrow> gpr_timespec \<Rightarrow> int) \<Rightarrow> gpr_timespec \<Rightarrow> gpr_timespec \<Rightarrow> bool" where
  "deadline_exceeded cmp now spec \<longleftrightarrow> 0 \<le> cmp now spec"

definition deadline_from_duration :: "(gpr_timespec \<Rightarrow> gpr_clock_type \<Rightarrow> gpr_timespec) \<Rightarrow> duration \<Rightarrow> gpr_timespec" where
  "deadline_from_duration convert dur = deadline_new convert (timespec_from_duration dur)"

section \<open>The context of a request\<close>

text \<open>
  \<^verbatim>\<open>grpcwrap_request_call_context\<close>, filled by the core when a call arrives; the call
  pointer is null before.
\<close>

record request_ctx =
  rq_call :: "nat option"
  rq_method :: grpc_slice
  rq_host :: grpc_slice
  rq_deadline :: gpr_timespec
  rq_metadata :: metadata

definition request_ctx_create :: request_ctx where
  "request_ctx_create =
     \<lparr>rq_call = None, rq_method = fst zero_slot, rq_host = fst zero_slot,
      rq_deadline = \<lparr>tv_sec = 0, tv_nsec = 0, clock_type = GPR_CLOCK_MONOTONIC\<rparr>, rq_metadata = empty_array\<rparr>"

definition request_ctx_call :: "request_ctx \<Rightarrow> nat outcome" where
  "request_ctx_call ctx = (case rq_call ctx of
     None \<Rightarrow> Panic ''assertion failed: !call.is_null()''
   | Some call \<Rightarrow> Ret call)"

definition request_method :: "request_ctx \<Rightarrow> bytes" where
  "request_method ctx = as_slice (rq_method ctx)"

definition request_host :: "request_ctx \<Rightarrow> bytes" where
  "request_host ctx = as_slice (rq_host ctx)"

text \<open>\<^verbatim>\<open>RpcContext\<close>, which the handler gets.\<close>

record rpc_context =
  rx_ctx :: request_ctx
  rx_deadline :: gpr_timespec

definition rpc_context_new :: "(gpr_timespec \<Rightarrow> gpr_clock_type \<Rightarrow> gpr_timespec) \<Rightarrow> request_ctx \<Rightarrow> rpc_context" where
  "rpc_context_new convert ctx = \<lparr>rx_ctx = ctx, rx_deadline = deadline_new convert (rq_deadline ctx)\<rparr>"

section \<open>The stream of requests\<close>

definition request_stream_poll ::
  "'m core \<Rightarrow> ('m \<Rightarrow> 't result) \<Rightarrow> waker \<Rightarrow> streaming_base \<Rightarrow> share_call \<Rightarrow> 'm world
     \<Rightarrow> ('t result option poll \<times> streaming_base \<times> 'm world) outcome" where
  "request_stream_poll core de cx base sc w = (case share_check_alive sc w of
     Inl e \<Rightarrow> Ret (Ready (Some (Inl e)), base, w)
   | Inr _ \<Rightarrow> obind (streaming_poll core (sc_call sc) cx False base w) (\<lambda>(p, base, w).
       Ret (case p of
              Pending \<Rightarrow> Pending
            | Ready None \<Rightarrow> Ready None
            | Ready (Some (Inl e)) \<Rightarrow> Ready (Some (Inl e))
            | Ready (Some (Inr data)) \<Rightarrow> Ready (Some (de data)), base, w)))"

definition request_stream_drop :: "streaming_base \<Rightarrow> share_call \<Rightarrow> 'm world \<Rightarrow> 'm world outcome" where
  "request_stream_drop base sc w = streaming_on_drop (sc_call sc) base w"

section \<open>The sink of a single response\<close>

record unary_sink_result =
  us_cq_f :: "nat option"
  us_err :: "error option"

definition unary_complete ::
  "slice_core \<Rightarrow> 'm core \<Rightarrow> ('t \<Rightarrow> grpc_slice \<Rightarrow> grpc_slice outcome) \<Rightarrow> u32 \<Rightarrow> RpcStatus \<Rightarrow> 't option \<Rightarrow> share_call \<Rightarrow> 'm world
     \<Rightarrow> (unary_sink_result \<times> 'm world) outcome" where
  "unary_complete c core ser write_flags status t sc w =
     obind (case t of
              None \<Rightarrow> Ret None
            | Some t \<Rightarrow> obind (ser t (slice_default c)) (\<lambda>buf. Ret (Some buf))) (\<lambda>data.
     obind (start_send_status_from_server c core (sc_call sc) status True data write_flags w) (\<lambda>(res, w).
       Ret (case res of
              Inr f \<Rightarrow> \<lparr>us_cq_f = Some f, us_err = None\<rparr>
            | Inl e \<Rightarrow> \<lparr>us_cq_f = None, us_err = Some e\<rparr>, w)))"

text \<open>The write flags of the sink are 0 and never changed.\<close>

definition unary_success ::
  "slice_core \<Rightarrow> 'm core \<Rightarrow> ('t \<Rightarrow> grpc_slice \<Rightarrow> grpc_slice outcome) \<Rightarrow> 't \<Rightarrow> share_call \<Rightarrow> 'm world
     \<Rightarrow> (unary_sink_result \<times> 'm world) outcome" where
  "unary_success c core ser t sc w = unary_complete c core ser 0 status_ok (Some t) sc w"

definition unary_fail ::
  "slice_core \<Rightarrow> 'm core \<Rightarrow> ('t \<Rightarrow> grpc_slice \<Rightarrow> grpc_slice outcome) \<Rightarrow> RpcStatus \<Rightarrow> share_call \<Rightarrow> 'm world
     \<Rightarrow> (unary_sink_result \<times> 'm world) outcome" where
  "unary_fail c core ser status sc w = unary_complete c core ser 0 status None sc w"

text \<open>Dropping a sink that was never completed cancels the call.\<close>

definition unary_sink_drop :: "share_call option \<Rightarrow> 'm world \<Rightarrow> 'm world outcome" where
  "unary_sink_drop call w = (case call of None \<Rightarrow> Ret w | Some sc \<Rightarrow> call_cancel (sc_call sc) w)"

text \<open>The end of both futures: the call must finish.\<close>

definition await_finish :: "waker \<Rightarrow> share_call \<Rightarrow> 'm world \<Rightarrow> (unit result poll \<times> share_call \<times> 'm world) outcome" where
  "await_finish cx sc w = obind (poll_finish cx sc w) (\<lambda>(p, sc, w).
     Ret (case p of
            Pending \<Rightarrow> Pending
          | Ready (Inl e) \<Rightarrow> Ready (Inl e)
          | Ready (Inr _) \<Rightarrow> Ready (Inr ()), sc, w))"

definition unary_result_poll ::
  "waker \<Rightarrow> unary_sink_result \<Rightarrow> share_call \<Rightarrow> 'm world
     \<Rightarrow> (unit result poll \<times> unary_sink_result \<times> share_call \<times> 'm world) outcome" where
  "unary_result_poll cx self sc w = (case us_err self of
     Some e \<Rightarrow> Ret (Ready (Inl e), self\<lparr>us_err := None\<rparr>, sc, w)
   | None \<Rightarrow> (case us_cq_f self of
       None \<Rightarrow> obind (await_finish cx sc w) (\<lambda>(p, sc, w). Ret (p, self, sc, w))
     | Some f \<Rightarrow> obind (future_poll f cx w) (\<lambda>(p, w). case p of
           Pending \<Rightarrow> Ret (Pending, self, sc, w)
         | Ready (Inl e) \<Rightarrow> Ret (Ready (Inl e), self, sc, w)
         | Ready (Inr _) \<Rightarrow> obind (await_finish cx sc w) (\<lambda>(p, sc, w). Ret (p, self\<lparr>us_cq_f := None\<rparr>, sc, w)))))"

section \<open>The sink of a stream of responses\<close>

text \<open>\<open>st_call\<close> says whether the sink still holds the call, which only \<^verbatim>\<open>fail\<close> takes.\<close>

record stream_sink =
  st_call :: bool
  st_base :: sink_base
  st_flush_f :: "nat option"
  st_status :: RpcStatus
  st_flushed :: bool
  st_closed :: bool

definition stream_sink_new :: "slice_core \<Rightarrow> stream_sink" where
  "stream_sink_new c =
     \<lparr>st_call = True, st_base = sink_base_new c True, st_flush_f = None, st_status = status_ok,
      st_flushed = False, st_closed = False\<rparr>"

definition st_enhance_batch :: "bool \<Rightarrow> stream_sink \<Rightarrow> stream_sink" where
  "st_enhance_batch flag self = self\<lparr>st_base := (st_base self)\<lparr>sk_enhance_buffer_strategy := flag\<rparr>\<rparr>"

definition st_set_status :: "RpcStatus \<Rightarrow> stream_sink \<Rightarrow> stream_sink outcome" where
  "st_set_status status self =
     obind (rust_assert (st_flush_f self = None) ''assertion failed: self.flush_f.is_none()'')
       (\<lambda>_. Ret (self\<lparr>st_status := status\<rparr>))"

record stream_sink_failure =
  sf_fail_f :: "nat option"
  sf_err :: "error option"

definition st_fail ::
  "slice_core \<Rightarrow> 'm core \<Rightarrow> RpcStatus \<Rightarrow> stream_sink \<Rightarrow> share_call \<Rightarrow> 'm world
     \<Rightarrow> (stream_sink_failure \<times> stream_sink \<times> 'm world) outcome" where
  "st_fail c core status self sc w =
     obind (rust_assert (st_flush_f self = None) ''assertion failed: self.flush_f.is_none()'') (\<lambda>_.
     obind (rust_assert (st_call self) ''called Option::unwrap() on a None value'') (\<lambda>_.
     obind (start_send_status_from_server c core (sc_call sc) status (sk_send_metadata (st_base self)) None 0 w) (\<lambda>(res, w).
       Ret (case res of
              Inr f \<Rightarrow> \<lparr>sf_fail_f = Some f, sf_err = None\<rparr>
            | Inl e \<Rightarrow> \<lparr>sf_fail_f = None, sf_err = Some e\<rparr>, self\<lparr>st_call := False\<rparr>, w))))"

definition st_drop :: "stream_sink \<Rightarrow> share_call \<Rightarrow> 'm world \<Rightarrow> 'm world outcome" where
  "st_drop self sc w = (if \<not> st_closed self \<and> st_call self then call_cancel (sc_call sc) w else Ret w)"

text \<open>\<^verbatim>\<open>poll_ready\<close> and \<^verbatim>\<open>poll_flush\<close> first look whether the call has finished.\<close>

definition st_unless_stopped ::
  "waker \<Rightarrow> (share_call \<Rightarrow> 'm world \<Rightarrow> (unit result poll \<times> sink_base \<times> 'm world) outcome) \<Rightarrow> stream_sink \<Rightarrow> share_call \<Rightarrow> 'm world
     \<Rightarrow> (unit result poll \<times> stream_sink \<times> share_call \<times> 'm world) outcome" where
  "st_unless_stopped cx next self sc w =
     obind (rust_assert (st_call self) ''called Option::unwrap() on a None value'') (\<lambda>_.
     obind (poll_finish cx sc w) (\<lambda>(p, sc, w). case p of
       Ready (Inl e) \<Rightarrow> Ret (Ready (Inl e), self, sc, w)
     | Ready (Inr _) \<Rightarrow> Ret (Ready (Inl RemoteStopped), self, sc, w)
     | Pending \<Rightarrow> obind (next sc w) (\<lambda>(p, b, w). Ret (p, self\<lparr>st_base := b\<rparr>, sc, w))))"

definition st_poll_ready ::
  "waker \<Rightarrow> stream_sink \<Rightarrow> share_call \<Rightarrow> 'm world \<Rightarrow> (unit result poll \<times> stream_sink \<times> share_call \<times> 'm world) outcome" where
  "st_poll_ready cx self = st_unless_stopped cx (\<lambda>sc w. sink_poll_ready cx (st_base self) w) self"

definition st_start_send ::
  "slice_core \<Rightarrow> 'm core \<Rightarrow> ('t \<Rightarrow> grpc_slice \<Rightarrow> grpc_slice outcome) \<Rightarrow> 't \<Rightarrow> u32 \<Rightarrow> stream_sink \<Rightarrow> share_call \<Rightarrow> 'm world
     \<Rightarrow> (unit result \<times> stream_sink \<times> 'm world) outcome" where
  "st_start_send c core ser msg flags self sc w =
     obind (rust_assert (st_call self) ''called Option::unwrap() on a None value'') (\<lambda>_.
     obind (start_send c core (sc_call sc) ser msg flags (st_base self) w) (\<lambda>(r, b, w).
       Ret (r, self\<lparr>st_base := b\<rparr>, w)))"

definition st_poll_flush ::
  "slice_core \<Rightarrow> 'm core \<Rightarrow> waker \<Rightarrow> stream_sink \<Rightarrow> share_call \<Rightarrow> 'm world
     \<Rightarrow> (unit result poll \<times> stream_sink \<times> share_call \<times> 'm world) outcome" where
  "st_poll_flush c core cx self = st_unless_stopped cx (\<lambda>sc w. sink_poll_flush c core (sc_call sc) cx (st_base self) w) self"

text \<open>
  \<^verbatim>\<open>poll_close\<close> in two parts: the status is started once the sink is ready; then the
  status must be written and the call finish.
\<close>

definition st_await_close ::
  "waker \<Rightarrow> stream_sink \<Rightarrow> share_call \<Rightarrow> 'm world \<Rightarrow> (unit result poll \<times> stream_sink \<times> share_call \<times> 'm world) outcome" where
  "st_await_close cx self sc w =
     obind (if st_flushed self then Ret (Ready (Inr None), w)
            else obind (unwrap (st_flush_f self)) (\<lambda>f. future_poll f cx w)) (\<lambda>(p, w). case p of
       Pending \<Rightarrow> Ret (Pending, self, sc, w)
     | Ready (Inl e) \<Rightarrow> Ret (Ready (Inl e), self, sc, w)
     | Ready (Inr _) \<Rightarrow>
         (let self = self\<lparr>st_flushed := True\<rparr> in
          obind (rust_assert (st_call self) ''called Option::unwrap() on a None value'') (\<lambda>_.
          obind (await_finish cx sc w) (\<lambda>(p, sc, w).
            Ret (p, if p = Ready (Inr ()) then self\<lparr>st_closed := True\<rparr> else self, sc, w)))))"

definition st_poll_close ::
  "slice_core \<Rightarrow> 'm core \<Rightarrow> waker \<Rightarrow> stream_sink \<Rightarrow> share_call \<Rightarrow> 'm world
     \<Rightarrow> (unit result poll \<times> stream_sink \<times> share_call \<times> 'm world) outcome" where
  "st_poll_close c core cx self sc w =
     (if st_flush_f self \<noteq> None then st_await_close cx self sc w
      else obind (sink_poll_ready cx (st_base self) w) (\<lambda>(p, b, w).
        let self = self\<lparr>st_base := b\<rparr> in
        case p of
          Ready (Inr _) \<Rightarrow>
            obind (rust_assert (st_call self) ''called Option::unwrap() on a None value'') (\<lambda>_.
            obind (start_send_status_from_server c core (sc_call sc) (st_status self) (sk_send_metadata b) None 0 w) (\<lambda>(r, w).
              case r of
                Inl e \<Rightarrow> Ret (Ready (Inl e), self, sc, w)
              | Inr f \<Rightarrow> st_await_close cx (self\<lparr>st_flush_f := Some f\<rparr>) sc w))
        | _ \<Rightarrow> Ret (p, self, sc, w)))"

text \<open>The future of \<^verbatim>\<open>fail\<close>; unlike the sink it looks at \<^verbatim>\<open>finished\<close> first.\<close>

definition sf_poll ::
  "waker \<Rightarrow> stream_sink_failure \<Rightarrow> share_call \<Rightarrow> 'm world
     \<Rightarrow> (unit result poll \<times> stream_sink_failure \<times> share_call \<times> 'm world) outcome" where
  "sf_poll cx self sc w = (case sf_err self of
     Some e \<Rightarrow> Ret (Ready (Inl e), self\<lparr>sf_err := None\<rparr>, sc, w)
   | None \<Rightarrow> obind (if sc_finished sc then Ret (Ready (Inr ()), sc, w) else await_finish cx sc w) (\<lambda>(readiness, sc, w).
       case readiness of
         Ready (Inl e) \<Rightarrow> Ret (Ready (Inl e), self, sc, w)
       | _ \<Rightarrow> obind (case sf_fail_f self of
                       None \<Rightarrow> Ret (Ready (Inr None), w)
                     | Some f \<Rightarrow> future_poll f cx w) (\<lambda>(p, w). case p of
             Pending \<Rightarrow> Ret (Pending, self, sc, w)
           | Ready (Inl e) \<Rightarrow> Ret (Ready (Inl e), self, sc, w)
           | Ready (Inr _) \<Rightarrow> Ret (readiness, self\<lparr>sf_fail_f := None\<rparr>, sc, w))))"

section \<open>Handing a call to its handler\<close>

text \<open>
  The user's handler is an argument: it gets the context, the request or the stream of
  requests, and the sink, and works on its own state \<open>'e\<close> and the world.
  \<open>debug_error\<close> is the debug text of an error.
\<close>

definition accept_call :: "'m core \<Rightarrow> nat \<Rightarrow> 'm world \<Rightarrow> (nat option \<times> 'm world) outcome" where
  "accept_call core call w = obind (start_server_side core call w) (\<lambda>(r, w). case r of
     Inl QueueShutdown \<Rightarrow> Ret (None, w)
   | Inl e \<Rightarrow> Panic ''unexpected error when trying to accept request''
   | Inr f \<Rightarrow> Ret (Some f, w))"

definition deserialize_failure :: "(error \<Rightarrow> string) \<Rightarrow> error \<Rightarrow> RpcStatus" where
  "deserialize_failure debug_error e =
     with_message INTERNAL (''Failed to deserialize response message: '' @ debug_error e)"

definition execute_unary ::
  "'m core \<Rightarrow> (error \<Rightarrow> string) \<Rightarrow> ('m \<Rightarrow> 'p result)
     \<Rightarrow> (rpc_context \<Rightarrow> 'p \<Rightarrow> share_call \<Rightarrow> 'e \<times> 'm world \<Rightarrow> ('e \<times> 'm world) outcome)
     \<Rightarrow> rpc_context \<Rightarrow> 'm \<Rightarrow> 'e \<times> 'm world \<Rightarrow> ('e \<times> 'm world) outcome" where
  "execute_unary core debug_error de f ctx payload = (\<lambda>(u, w).
     obind (request_ctx_call (rx_ctx ctx)) (\<lambda>call.
     obind (accept_call core call w) (\<lambda>(close_f, w). case close_f of
       None \<Rightarrow> Ret (u, w)
     | Some close_f \<Rightarrow> (case de payload of
         Inl e \<Rightarrow> obind (call_abort core call (deserialize_failure debug_error e) w) (\<lambda>w. Ret (u, w))
       | Inr request \<Rightarrow> f ctx request (share_call_new call close_f) (u, w)))))"

definition execute_client_streaming ::
  "'m core \<Rightarrow> (rpc_context \<Rightarrow> streaming_base \<Rightarrow> share_call \<Rightarrow> 'e \<times> 'm world \<Rightarrow> ('e \<times> 'm world) outcome)
     \<Rightarrow> rpc_context \<Rightarrow> 'e \<times> 'm world \<Rightarrow> ('e \<times> 'm world) outcome" where
  "execute_client_streaming core f ctx = (\<lambda>(u, w).
     obind (request_ctx_call (rx_ctx ctx)) (\<lambda>call.
     obind (accept_call core call w) (\<lambda>(close_f, w). case close_f of
       None \<Rightarrow> Ret (u, w)
     | Some close_f \<Rightarrow> f ctx (streaming_base_new None) (share_call_new call close_f) (u, w))))"

definition execute_server_streaming ::
  "slice_core \<Rightarrow> 'm core \<Rightarrow> (error \<Rightarrow> string) \<Rightarrow> ('m \<Rightarrow> 'p result)
     \<Rightarrow> (rpc_context \<Rightarrow> 'p \<Rightarrow> stream_sink \<times> share_call \<Rightarrow> 'e \<times> 'm world \<Rightarrow> ('e \<times> 'm world) outcome)
     \<Rightarrow> rpc_context \<Rightarrow> 'm \<Rightarrow> 'e \<times> 'm world \<Rightarrow> ('e \<times> 'm world) outcome" where
  "execute_server_streaming c core debug_error de f ctx payload = (\<lambda>(u, w).
     obind (request_ctx_call (rx_ctx ctx)) (\<lambda>call.
     obind (accept_call core call w) (\<lambda>(close_f, w). case close_f of
       None \<Rightarrow> Ret (u, w)
     | Some close_f \<Rightarrow> (case de payload of
         Inl e \<Rightarrow> obind (call_abort core call (deserialize_failure debug_error e) w) (\<lambda>w. Ret (u, w))
       | Inr request \<Rightarrow> f ctx request (stream_sink_new c, share_call_new call close_f) (u, w)))))"

definition execute_duplex_streaming ::
  "slice_core \<Rightarrow> 'm core
     \<Rightarrow> (rpc_context \<Rightarrow> streaming_base \<Rightarrow> stream_sink \<times> share_call \<Rightarrow> 'e \<times> 'm world \<Rightarrow> ('e \<times> 'm world) outcome)
     \<Rightarrow> rpc_context \<Rightarrow> 'e \<times> 'm world \<Rightarrow> ('e \<times> 'm world) outcome" where
  "execute_duplex_streaming c core f ctx = (\<lambda>(u, w).
     obind (request_ctx_call (rx_ctx ctx)) (\<lambda>call.
     obind (accept_call core call w) (\<lambda>(close_f, w). case close_f of
       None \<Rightarrow> Ret (u, w)
     | Some close_f \<Rightarrow> f ctx (streaming_base_new None) (stream_sink_new c, share_call_new call close_f) (u, w))))"

definition execute_unimplemented :: "'m core \<Rightarrow> request_ctx \<Rightarrow> 'm world \<Rightarrow> 'm world outcome" where
  "execute_unimplemented core ctx w =
     obind (request_ctx_call ctx) (\<lambda>call.
     obind (accept_call core call w) (\<lambda>(close_f, w). case close_f of
       None \<Rightarrow> Ret w
     | Some _ \<Rightarrow> call_abort core call (status_new UNIMPLEMENTED) w))"

section \<open>What the sink of a streaming call has sent\<close>

text \<open>
  The operations of the batches a call has started, batch by batch; the number of times its
  initial metadata and its status were sent.
\<close>

definition call_log :: "nat \<Rightarrow> 'm world \<Rightarrow> op list list" where
  "call_log call w = map br_ops (filter (\<lambda>b. br_call b = call) (w_batches w))"

fun is_meta_op :: "op \<Rightarrow> bool" where
  "is_meta_op (OpSendInitialMetadata _ _) = True"
| "is_meta_op _ = False"

fun is_status_op :: "op \<Rightarrow> bool" where
  "is_status_op (OpSendStatusFromServer _ _ _) = True"
| "is_status_op _ = False"

definition sends_meta :: "op list list \<Rightarrow> nat" where
  "sends_meta l = tcount is_meta_op (concat l)"

definition sends_status :: "op list list \<Rightarrow> nat" where
  "sends_status l = tcount is_status_op (concat l)"

text \<open>
  A user of the sink: any operations in any order, except that nothing but closing follows
  the start of the close; in between the core completes any batches and the queue may be
  shut down. A panic ends the run.
\<close>

datatype ('t, 'm) st_act =
    AReady waker
  | ASend 't u32
  | AFlush waker
  | ASetStatus RpcStatus
  | AEnhance bool
  | AClose waker
  | AComplete nat "'m option result"
  | AShutdown

type_synonym 'm st_state = "stream_sink \<times> share_call \<times> 'm world"

definition returned :: "'a outcome \<Rightarrow> 'a option" where
  "returned x = (case x of Ret a \<Rightarrow> Some a | Panic _ \<Rightarrow> None)"

definition st_exec ::
  "slice_core \<Rightarrow> 'm core \<Rightarrow> ('t \<Rightarrow> grpc_slice \<Rightarrow> grpc_slice outcome) \<Rightarrow> ('t, 'm) st_act \<Rightarrow> 'm st_state \<Rightarrow> 'm st_state option" where
  "st_exec c core ser a = (\<lambda>(self, sc, w). case a of
     AComplete f r \<Rightarrow> Some (self, sc, w\<lparr>w_cells := (w_cells w)(f := snd (set_result r (w_cells w f)))\<rparr>)
   | AShutdown \<Rightarrow> Some (self, sc, w\<lparr>w_ref_cnt := snd (the (shutdown [False] (w_ref_cnt w)))\<rparr>)
   | AClose cx \<Rightarrow> map_option snd (returned (st_poll_close c core cx self sc w))
   | _ \<Rightarrow> if st_flush_f self \<noteq> None then None else (case a of
         AReady cx \<Rightarrow> map_option snd (returned (st_poll_ready cx self sc w))
       | ASend t flags \<Rightarrow> map_option (\<lambda>(r, self, w). (self, sc, w)) (returned (st_start_send c core ser t flags self sc w))
       | AFlush cx \<Rightarrow> map_option snd (returned (st_poll_flush c core cx self sc w))
       | ASetStatus status \<Rightarrow> map_option (\<lambda>self. (self, sc, w)) (returned (st_set_status status self))
       | AEnhance flag \<Rightarrow> Some (st_enhance_batch flag self, sc, w)
       | _ \<Rightarrow> None))"

definition st_init :: "slice_core \<Rightarrow> nat \<Rightarrow> op list list \<Rightarrow> 'm st_state \<Rightarrow> bool" where
  "st_init c call l0 = (\<lambda>(self, sc, w).
     self = stream_sink_new c \<and> sc_call sc = call \<and> call_log call w = l0)"

text \<open>What one operation of the base may add to the log.\<close>

definition log_ext :: "nat \<Rightarrow> sink_base \<Rightarrow> 'm world \<Rightarrow> sink_base \<Rightarrow> 'm world \<Rightarrow> bool" where
  "log_ext call b w b' w' \<longleftrightarrow> w_ref_cnt w' = w_ref_cnt w \<and> (\<exists>M. call_log call w' = call_log call w @ M \<and>
     (if sk_send_metadata b
      then if sk_send_metadata b' then M = [] \<and> (sk_buf_flags b' = sk_buf_flags b \<or> w_ref_cnt w \<le> 0)
           else (\<exists>s f. M = [call_send_message s f 1])
      else \<not> sk_send_metadata b' \<and> (\<forall>ops \<in> set M. \<exists>s f. ops = call_send_message s f 0)))"

lemma call_log_after [simp]:
  "call_log call (after_batch call' bt ops early w) = call_log call w @ (if call' = call then [ops] else [])"
  by (simp add: call_log_def)

lemma call_log_update [simp]:
  "call_log call (w\<lparr>w_cells := c\<rparr>) = call_log call w"
  "call_log call (w\<lparr>w_ref_cnt := n\<rparr>) = call_log call w"
  by (simp_all add: call_log_def)

lemma future_poll_frame:
  "future_poll f cx w = Ret (p, w') \<Longrightarrow> call_log call w' = call_log call w \<and> w_ref_cnt w' = w_ref_cnt w"
  by (auto simp: future_poll_def split: obind_splits prod.splits)

lemma poll_finish_frame:
  "poll_finish cx sc w = Ret (p, sc', w') \<Longrightarrow> sc_call sc' = sc_call sc \<and> call_log call w' = call_log call w \<and> w_ref_cnt w' = w_ref_cnt w"
  using future_poll_frame
  by (fastforce simp: poll_finish_def split: obind_splits prod.splits poll.splits sum.splits error.splits)

lemma await_finish_frame:
  "await_finish cx sc w = Ret (p, sc', w') \<Longrightarrow> sc_call sc' = sc_call sc \<and> call_log call w' = call_log call w \<and> w_ref_cnt w' = w_ref_cnt w"
  using poll_finish_frame by (fastforce simp: await_finish_def split: obind_splits prod.splits)

lemma sink_ready_frame:
  assumes "sink_poll_ready cx b w = Ret (p, b', w')"
  shows "b'\<lparr>sk_batch_f := None\<rparr> = b\<lparr>sk_batch_f := None\<rparr> \<and> call_log call w' = call_log call w \<and> w_ref_cnt w' = w_ref_cnt w"
proof (cases "sk_batch_f b")
  case (Some f)
  with assms obtain q where "future_poll f cx w = Ret (q, w')"
    by (auto simp: sink_poll_ready_def split: obind_splits prod.splits poll.splits sum.splits)
  from future_poll_frame [OF this] Some assms show ?thesis
    by (auto simp: sink_poll_ready_def split: obind_splits prod.splits poll.splits sum.splits)
qed (use assms in \<open>auto simp: sink_poll_ready_def\<close>)

lemma send_buffer_frame:
  assumes "start_send_buffer_message c core call hint b w = Ret (r, b', w')"
  shows "sk_send_metadata b' = sk_send_metadata b \<and> w_ref_cnt w' = w_ref_cnt w \<and>
    (case r of
       Inl _ \<Rightarrow> w_ref_cnt w \<le> 0 \<and> b' = b \<and> w' = w
     | Inr _ \<Rightarrow> 0 < w_ref_cnt w \<and> sk_buf_flags b' = None \<and>
         (\<exists>s f. call_log call w' = call_log call w @ [call_send_message s f (if sk_send_metadata b then 1 else 0)]))"
  using assms
  by (auto simp: start_send_buffer_message_def start_send_message_def start_batch_eq rust_assert_def
      split: obind_splits if_splits prod.splits) blast+

lemma send_message_exists [simp]: "\<exists>s f. call_send_message a b n = call_send_message s f n"
  by blast

lemma ready_same:
  assumes "sink_poll_ready cx b w = Ret (p, b', w')"
  shows "sk_send_metadata b' = sk_send_metadata b" "sk_buf_flags b' = sk_buf_flags b"
  using assms by (auto simp: sink_poll_ready_def split: option.splits obind_splits prod.splits poll.splits sum.splits)

lemma ready_log:
  assumes "sink_poll_ready cx b w = Ret (p, b', w')"
  shows "log_ext call b w b' w'"
  using sink_ready_frame [OF assms, of call] ready_same [OF assms] by (auto simp: log_ext_def)

lemma log_ext_trans:
  "log_ext call b w b1 w1 \<Longrightarrow> log_ext call b1 w1 b2 w2 \<Longrightarrow> sk_send_metadata b1 \<longrightarrow> sk_send_metadata b \<Longrightarrow>
   sk_send_metadata b \<longrightarrow> sk_send_metadata b1 \<Longrightarrow> log_ext call b w b2 w2"
  by (fastforce simp: log_ext_def split: if_splits)

lemma start_send_log:
  assumes "start_send c core call ser t flags b w = Ret (r, b', w')"
    and "sk_send_metadata b \<and> sk_buf_flags b \<noteq> None \<longrightarrow> w_ref_cnt w \<le> 0"
  shows "log_ext call b w b' w'"
proof (cases "sk_send_metadata b")
  case True
  with assms obtain buf r1 b1 where
    "start_send_buffer_message c core call False (b\<lparr>sk_buffer := buf, sk_buf_flags := Some flags\<rparr>) w = Ret (r1, b1, w')"
    "b' = (case r1 of Inl _ \<Rightarrow> b1 | Inr _ \<Rightarrow> b1\<lparr>sk_send_metadata := False\<rparr>)"
    by (auto simp: start_send_def Let_def split: obind_splits prod.splits sum.splits)
  with send_buffer_frame [OF this(1)] True show ?thesis
    by (auto simp: log_ext_def split: sum.splits)
next
  case False
  let ?first = "if sk_buf_flags b \<noteq> None then start_send_buffer_message c core call True b w else Ret (Inr (), b, w)"
  from assms False obtain r1 b1 w1 where first: "?first = Ret (r1, b1, w1)"
    by (auto simp: start_send_def Let_def split: obind_splits prod.splits sum.splits if_splits)
  have one: "log_ext call b w b1 w1" "\<not> sk_send_metadata b1"
    using first False send_buffer_frame [of c core call True b w r1 b1 w1]
    by (auto simp: log_ext_def split: if_splits sum.splits)
  show ?thesis
  proof (cases r1)
    case (Inl e)
    with assms False first one show ?thesis by (auto simp: start_send_def)
  next
    case (Inr u)
    with assms False first obtain buf where two:
      "(let self = b1\<lparr>sk_buffer := buf, sk_last_buf_hint := (sk_last_buf_hint b1 \<and> get_buffer_hint flags), sk_buf_flags := Some flags\<rparr>
        in if \<not> sk_enhance_buffer_strategy self then start_send_buffer_message c core call (get_buffer_hint flags) self w1
           else Ret (Inr (), self, w1)) = Ret (r, b', w')"
      by (auto simp: start_send_def Let_def split: obind_splits)
    have "log_ext call b1 w1 b' w'"
      using two one(2) send_buffer_frame [of c core call "get_buffer_hint flags" _ w1 r b' w']
      by (fastforce simp: log_ext_def Let_def split: if_splits sum.splits)
    with one False show ?thesis by (fastforce simp: log_ext_def)
  qed
qed

lemma flush_log:
  assumes "sink_poll_flush c core call cx b w = Ret (p, b', w')"
    and "sk_send_metadata b \<and> sk_buf_flags b \<noteq> None \<longrightarrow> w_ref_cnt w \<le> 0"
  shows "log_ext call b w b' w'"
proof -
  have eq: "(if sk_batch_f b \<noteq> None then sink_poll_ready cx b w else Ret (Ready (Inr ()), b, w)) = sink_poll_ready cx b w"
    by (simp add: sink_poll_ready_def)
  note flush = assms(1) [unfolded sink_poll_flush_def eq]
  from flush obtain p1 b1 w1 where one: "sink_poll_ready cx b w = Ret (p1, b1, w1)"
    by (cases "sink_poll_ready cx b w") auto
  note flush = flush [unfolded one, simplified]
  have ext1: "log_ext call b w b1 w1" and same1: "sk_send_metadata b1 = sk_send_metadata b" "sk_buf_flags b1 = sk_buf_flags b"
      "w_ref_cnt w1 = w_ref_cnt w"
    using ready_log [OF one] ready_same [OF one] sink_ready_frame [OF one] by auto
  consider "b' = b1 \<and> w' = w1" | "p1 = Ready (Inr ())"
    using flush by (auto split: poll.splits sum.splits)
  then have "log_ext call b1 w1 b' w'"
  proof cases
    case 1
    then show ?thesis by (auto simp: log_ext_def)
  next
    case 2
    show ?thesis
    proof (cases "sk_buf_flags b1 = None")
      case True
      with flush 2 show ?thesis by (auto simp: log_ext_def)
    next
      case False
      with flush 2 obtain r b2 w2 where
        two: "start_send_buffer_message c core call (sk_last_buf_hint b1) b1 w1 = Ret (r, b2, w2)"
        by (auto split: obind_splits)
      note fr = send_buffer_frame [OF two]
      show ?thesis
      proof (cases r)
        case (Inl e)
        with flush 2 two False fr show ?thesis by (auto simp: log_ext_def)
      next
        case (Inr u)
        with fr assms(2) same1 False have "\<not> sk_send_metadata b1" by auto
        moreover from this fr Inr have "log_ext call b1 w1 b2 w2" by (auto simp: log_ext_def)
        moreover from flush 2 two False Inr obtain p3 b3 where
          three: "sink_poll_ready cx b2 w2 = Ret (p3, b3, w')" "sk_send_metadata b' = sk_send_metadata b3"
          by (auto split: obind_splits poll.splits sum.splits)
        moreover have "log_ext call b2 w2 b' w'"
          using ready_log [OF three(1), of call] three(2) ready_same [OF three(1)] fr \<open>\<not> sk_send_metadata b1\<close>
          by (auto simp: log_ext_def)
        ultimately show ?thesis using fr by (auto elim: log_ext_trans)
      qed
    qed
  qed
  with ext1 same1 show ?thesis by (auto elim: log_ext_trans)
qed

section \<open>The protocol of a streaming response\<close>

text \<open>
  What the sink has sent so far: the initial metadata once, with the first batch; the status
  once, with the last batch, as soon as the close has been started.
\<close>

definition st_good :: "stream_sink \<Rightarrow> op list list \<Rightarrow> bool" where
  "st_good self L \<longleftrightarrow>
     sends_status L = of_bool (st_flush_f self \<noteq> None) \<and>
     sends_meta L = of_bool (\<not> sk_send_metadata (st_base self) \<or> st_flush_f self \<noteq> None) \<and>
     (L = [] \<longleftrightarrow> sk_send_metadata (st_base self) \<and> st_flush_f self = None) \<and>
     (L \<noteq> [] \<longrightarrow> list_ex is_meta_op (hd L)) \<and>
     (st_flush_f self \<noteq> None \<longrightarrow> list_ex is_status_op (last L))"

definition st_inv :: "nat \<Rightarrow> op list list \<Rightarrow> 'm st_state \<Rightarrow> bool" where
  "st_inv call l0 = (\<lambda>(self, sc, w). sc_call sc = call \<and>
     (sk_send_metadata (st_base self) \<and> sk_buf_flags (st_base self) \<noteq> None \<longrightarrow> w_ref_cnt w \<le> 0) \<and>
     (\<exists>L. call_log call w = l0 @ L \<and> st_good self L))"

lemma sends_simps [simp]:
  "sends_meta [] = 0" "sends_status [] = 0"
  "sends_meta (l @ m) = sends_meta l + sends_meta m" "sends_status (l @ m) = sends_status l + sends_status m"
  "sends_meta [call_send_message s f 1] = 1" "sends_meta [call_send_message s f 0] = 0"
  "sends_status [call_send_message s f n] = 0"
  by (auto simp: sends_meta_def sends_status_def tcount_def call_send_message_def)

lemma sends_plain:
  assumes "\<forall>ops \<in> set M. \<exists>s f. ops = call_send_message s f 0"
  shows "sends_meta M = 0" "sends_status M = 0"
  using assms by (fastforce simp: sends_meta_def sends_status_def tcount_0_iff call_send_message_def)+

lemma base_step:
  assumes inv: "st_inv call l0 (self, sc, w)" and open_: "st_flush_f self = None"
    and ext: "log_ext call (st_base self) w b' w'" and sc: "sc_call sc' = sc_call sc"
  shows "st_inv call l0 (self\<lparr>st_base := b'\<rparr>, sc', w')"
proof -
  let ?b = "st_base self"
  from inv obtain L where L: "call_log call w = l0 @ L" "st_good self L" and call: "sc_call sc = call"
    and buf: "sk_send_metadata ?b \<and> sk_buf_flags ?b \<noteq> None \<longrightarrow> w_ref_cnt w \<le> 0"
    by (auto simp: st_inv_def)
  from ext obtain M where M: "call_log call w' = l0 @ (L @ M)" and ref: "w_ref_cnt w' = w_ref_cnt w"
    and kind: "if sk_send_metadata ?b
      then if sk_send_metadata b' then M = [] \<and> (sk_buf_flags b' = sk_buf_flags ?b \<or> w_ref_cnt w \<le> 0)
           else (\<exists>s f. M = [call_send_message s f 1])
      else \<not> sk_send_metadata b' \<and> (\<forall>ops \<in> set M. \<exists>s f. ops = call_send_message s f 0)"
    by (auto simp: log_ext_def L(1))
  have "st_good (self\<lparr>st_base := b'\<rparr>) (L @ M)"
  proof (cases "sk_send_metadata ?b")
    case True
    with L(2) kind open_ show ?thesis
      by (auto simp: st_good_def call_send_message_def split: if_splits)
        (simp_all add: sends_meta_def sends_status_def tcount_def)
  next
    case False
    with kind have plain: "\<forall>ops \<in> set M. \<exists>s f. ops = call_send_message s f 0" "\<not> sk_send_metadata b'" by auto
    show ?thesis using False L(2) open_ plain(2) sends_plain [OF plain(1)]
      by (auto simp: st_good_def)
  qed
  moreover have "sk_send_metadata b' \<and> sk_buf_flags b' \<noteq> None \<longrightarrow> w_ref_cnt w' \<le> 0"
    using kind buf ref by (auto split: if_splits)
  ultimately show ?thesis using M call sc by (auto simp: st_inv_def)
qed

lemma send_status_frame:
  assumes "start_send_status_from_server c core call status em None fl w = Ret (r, w')"
  shows "w_ref_cnt w' = w_ref_cnt w \<and> (case r of
      Inl _ \<Rightarrow> w' = w
    | Inr _ \<Rightarrow> \<exists>code msg tr. call_log call w' = call_log call w @ [call_send_status_from_server code msg tr (if em then 1 else 0) None fl])"
proof (cases "status_trailer c status")
  case (Panic m)
  with assms show ?thesis
    by (auto simp: start_send_status_from_server_def with_cq_ref_def cq_borrow_eq split: if_splits)
next
  case (Ret tr)
  with assms show ?thesis
    by (auto simp: start_send_status_from_server_def start_batch_eq split: if_splits prod.splits) blast+
qed

lemma await_close_frame:
  assumes "st_await_close cx self sc w = Ret (p, self', sc', w')"
  shows "st_flush_f self' = st_flush_f self \<and> st_base self' = st_base self \<and> sc_call sc' = sc_call sc
    \<and> call_log call w' = call_log call w \<and> w_ref_cnt w' = w_ref_cnt w"
  using assms await_finish_frame [of cx sc _ _ sc' w' call] future_poll_frame [of _ cx w _ _ call]
  by (auto simp: st_await_close_def Let_def rust_assert_def split: obind_splits prod.splits poll.splits sum.splits if_splits)

lemma await_close_step:
  assumes "st_inv call l0 (self, sc, w)" "st_await_close cx self sc w = Ret (p, self', sc', w')"
  shows "st_inv call l0 (self', sc', w')"
  using assms(1) await_close_frame [OF assms(2), of call] by (auto simp: st_inv_def st_good_def)

lemma close_start_step:
  assumes inv: "st_inv call l0 (self, sc, w)" and open_: "st_flush_f self = None"
    and st: "start_send_status_from_server c core call status (sk_send_metadata (st_base self)) None 0 w = Ret (Inr f, w')"
  shows "st_inv call l0 (self\<lparr>st_flush_f := Some f\<rparr>, sc, w')"
proof -
  from inv obtain L where L: "call_log call w = l0 @ L" "st_good self L" and call: "sc_call sc = call"
    and buf: "sk_send_metadata (st_base self) \<and> sk_buf_flags (st_base self) \<noteq> None \<longrightarrow> w_ref_cnt w \<le> 0"
    by (auto simp: st_inv_def)
  from send_status_frame [OF st] obtain code msg tr where
    log: "call_log call w' = l0 @ (L @ [call_send_status_from_server code msg tr (if sk_send_metadata (st_base self) then 1 else 0) None 0])"
    and ref: "w_ref_cnt w' = w_ref_cnt w" by (auto simp: L(1))
  have "st_good (self\<lparr>st_flush_f := Some f\<rparr>)
      (L @ [call_send_status_from_server code msg tr (if sk_send_metadata (st_base self) then 1 else 0) None 0])"
    using L(2) open_
    by (auto simp: st_good_def call_send_status_from_server_def sends_meta_def sends_status_def tcount_def)
  with log buf ref call show ?thesis by (auto simp: st_inv_def)
qed

lemma close_step:
  assumes inv: "st_inv call l0 (self, sc, w)" and run: "st_poll_close c core cx self sc w = Ret (p, self', sc', w')"
  shows "st_inv call l0 (self', sc', w')"
proof (cases "st_flush_f self = None")
  case False
  with run inv show ?thesis by (auto simp: st_poll_close_def intro: await_close_step)
next
  case True
  have call: "sc_call sc = call" using inv by (simp add: st_inv_def)
  from run True obtain p1 b1 w1 where one: "sink_poll_ready cx (st_base self) w = Ret (p1, b1, w1)"
    by (cases "sink_poll_ready cx (st_base self) w") (auto simp: st_poll_close_def)
  note run1 = run [unfolded st_poll_close_def one, simplified True, simplified]
  have inv1: "st_inv call l0 (self\<lparr>st_base := b1\<rparr>, sc, w1)"
    using base_step [OF inv True ready_log [OF one]] by simp
  show ?thesis
  proof (cases "p1 = Ready (Inr ())")
    case False
    with run1 inv1 show ?thesis by (auto simp: Let_def split: poll.splits sum.splits)
  next
    case ready: True
    with run1 obtain r w2 where two:
      "start_send_status_from_server c core call (st_status self) (sk_send_metadata b1) None 0 w1 = Ret (r, w2)"
      by (auto simp: Let_def call rust_assert_def split: obind_splits if_splits)
    show ?thesis
    proof (cases r)
      case (Inl e)
      with send_status_frame [OF two] run1 ready two inv1 call show ?thesis
        by (auto simp: Let_def rust_assert_def split: if_splits)
    next
      case (Inr f)
      have "st_inv call l0 (self\<lparr>st_base := b1, st_flush_f := Some f\<rparr>, sc, w2)"
        using close_start_step [OF inv1, of c core "st_status self" f w2] two Inr True by simp
      moreover have "st_await_close cx (self\<lparr>st_base := b1, st_flush_f := Some f\<rparr>) sc w2 = Ret (p, self', sc', w')"
        using run1 ready two Inr call by (auto simp: Let_def rust_assert_def split: if_splits)
      ultimately show ?thesis by (rule await_close_step)
    qed
  qed
qed

lemma returned_Some [simp]: "returned x = Some a \<longleftrightarrow> x = Ret a"
  by (cases x) (auto simp: returned_def)

lemma unless_stopped_step:
  assumes inv: "st_inv call l0 (self, sc, w)" "st_flush_f self = None"
    and run: "st_unless_stopped cx next self sc w = Ret (p, self', sc', w')"
    and ext: "\<And>sc1 w1 q b. sc_call sc1 = call \<Longrightarrow> w_ref_cnt w1 = w_ref_cnt w \<Longrightarrow> next sc1 w1 = Ret (q, b, w')
      \<Longrightarrow> log_ext call (st_base self) w1 b w'"
  shows "st_inv call l0 (self', sc', w')"
proof -
  from run obtain q sc1 w1 where one: "poll_finish cx sc w = Ret (q, sc1, w1)"
    by (auto simp: st_unless_stopped_def rust_assert_def split: obind_splits if_splits)
  note fr = poll_finish_frame [OF one, of call]
  with inv(1) have inv1: "st_inv call l0 (self, sc1, w1)" and call: "sc_call sc1 = call"
    by (auto simp: st_inv_def)
  show ?thesis
  proof (cases q)
    case Pending
    with run one obtain q' b where "next sc1 w1 = Ret (q', b, w')" "self' = self\<lparr>st_base := b\<rparr>" "sc' = sc1"
      by (auto simp: st_unless_stopped_def rust_assert_def split: obind_splits if_splits)
    with base_step [OF inv1 inv(2) ext [OF call _ this(1)], of sc1] fr show ?thesis by simp
  next
    case (Ready r)
    with run one inv1 show ?thesis
      by (auto simp: st_unless_stopped_def rust_assert_def split: if_splits sum.splits)
  qed
qed

lemma st_exec_iff:
  "st_exec c core ser (AReady cx) (self, sc, w) = Some s' \<longleftrightarrow>
     st_flush_f self = None \<and> (\<exists>p. st_poll_ready cx self sc w = Ret (p, s'))"
  "st_exec c core ser (ASend m flags) (self, sc, w) = Some s' \<longleftrightarrow>
     st_flush_f self = None \<and> (\<exists>r self' w'. st_start_send c core ser m flags self sc w = Ret (r, self', w') \<and> s' = (self', sc, w'))"
  "st_exec c core ser (AFlush cx) (self, sc, w) = Some s' \<longleftrightarrow>
     st_flush_f self = None \<and> (\<exists>p. st_poll_flush c core cx self sc w = Ret (p, s'))"
  "st_exec c core ser (AClose cx) (self, sc, w) = Some s' \<longleftrightarrow> (\<exists>p. st_poll_close c core cx self sc w = Ret (p, s'))"
  by (cases s'; auto simp: st_exec_def)+

lemma st_exec_step:
  assumes inv: "st_inv call l0 s" and step: "st_exec c core ser a s = Some t"
  shows "st_inv call l0 t"
proof -
  obtain self sc w where s: "s = (self, sc, w)" by (cases s)
  obtain self' sc' w' where t: "t = (self', sc', w')" by (cases t)
  note inv = inv [unfolded s] and step = step [unfolded s t]
  have call: "sc_call sc = call" and buf: "sk_send_metadata (st_base self) \<and> sk_buf_flags (st_base self) \<noteq> None \<longrightarrow> w_ref_cnt w \<le> 0"
    using inv by (auto simp: st_inv_def)
  have "st_inv call l0 (self', sc', w')"
  proof (cases a)
    case (AReady cx)
    obtain p where op: "st_flush_f self = None" and run: "st_poll_ready cx self sc w = Ret (p, self', sc', w')"
      using step [unfolded AReady st_exec_iff] by blast
    show ?thesis by (rule unless_stopped_step [OF inv op run [unfolded st_poll_ready_def]]) (rule ready_log)
  next
    case (ASend m flags)
    obtain r where op: "st_flush_f self = None" and run: "st_start_send c core ser m flags self sc w = Ret (r, self', w')"
      and sc: "sc' = sc"
      using step [unfolded ASend st_exec_iff] by blast
    from run obtain b where b: "start_send c core call ser m flags (st_base self) w = Ret (r, b, w')" "self' = self\<lparr>st_base := b\<rparr>"
      by (auto simp: st_start_send_def rust_assert_def call split: obind_splits if_splits)
    with base_step [OF inv op start_send_log [OF b(1) buf], of sc] sc show ?thesis by simp
  next
    case (AFlush cx)
    obtain p where op: "st_flush_f self = None" and run: "st_poll_flush c core cx self sc w = Ret (p, self', sc', w')"
      using step [unfolded AFlush st_exec_iff] by blast
    have ext: "log_ext call (st_base self) w1 b w'"
      if "sc_call sc1 = call" "w_ref_cnt w1 = w_ref_cnt w" "sink_poll_flush c core (sc_call sc1) cx (st_base self) w1 = Ret (q, b, w')"
      for sc1 w1 q b
      using flush_log [OF that(3)] buf that(1,2) by simp
    show ?thesis by (rule unless_stopped_step [OF inv op run [unfolded st_poll_flush_def]]) (rule ext)
  next
    case (AClose cx)
    obtain p where "st_poll_close c core cx self sc w = Ret (p, self', sc', w')"
      using step [unfolded AClose st_exec_iff] by blast
    with inv show ?thesis by (rule close_step)
  next
    case (ASetStatus st)
    with step inv show ?thesis
      by (auto simp: st_exec_def st_inv_def st_good_def st_set_status_def split: if_splits)
  next
    case (AEnhance flag)
    with step inv show ?thesis
      by (auto simp: st_exec_def st_inv_def st_good_def st_enhance_batch_def split: if_splits)
  next
    case (AComplete f r)
    with step inv show ?thesis by (auto simp: st_exec_def st_inv_def)
  next
    case AShutdown
    with step inv show ?thesis by (auto simp: st_exec_def st_inv_def shutdown_once split: if_splits)
  qed
  with t show ?thesis by simp
qed

interpretation sts: invariant_system "st_init c call l0" "exec_step (st_exec c core ser)" "st_inv call l0"
  for c call l0 core ser
proof unfold_locales
  show "st_inv call l0 s" if "st_init c call l0 s" for s :: "'a st_state"
    using that by (auto simp: st_init_def st_inv_def st_good_def stream_sink_new_def sink_base_new_def)
  show "st_inv call l0 t" if "st_inv call l0 s" "exec_step (st_exec c core ser) s t" for s t :: "'a st_state"
    using that st_exec_step unfolding exec_step_def by blast
qed

section \<open>Polling by the state of the handle\<close>

definition take_cell :: "nat \<Rightarrow> 'm world \<Rightarrow> 'm world" where
  "take_cell f w = w\<lparr>w_cells := (w_cells w)(f := (w_cells w f)\<lparr>nh_result := None, nh_stale := True\<rparr>)\<rparr>"

lemma take_cell_simps [simp]:
  "cell_abs (w_cells (take_cell f w) g) = (if g = f then Taken else cell_abs (w_cells w g))"
  "w_ref_cnt (take_cell f w) = w_ref_cnt w" "w_next (take_cell f w) = w_next w"
  by (simp_all add: take_cell_def cell_abs_def)

lemma poll_done: "cell_abs (w_cells w f) = Done r \<Longrightarrow> future_poll f cx w = Ret (Ready r, take_cell f w)"
  by (auto simp: future_poll_def cq_future_poll_def cell_abs_def take_cell_def split: if_splits option.splits)

lemma poll_taken: "cell_abs (w_cells w f) = Taken \<Longrightarrow> future_poll f cx w = Panic STALE_MESSAGE"
  by (auto simp: future_poll_def cq_future_poll_def cell_abs_def split: if_splits option.splits)

lemma poll_waiting: "cell_abs (w_cells w f) = Waiting wk \<Longrightarrow> \<exists>w'. future_poll f cx w = Ret (Pending, w')"
  by (auto simp: future_poll_def cq_future_poll_def cell_abs_def Let_def split: if_splits option.splits)

lemma status_ok_simps:
  "code status_ok = OK" "message status_ok = []" "details status_ok = []" "code_i32 OK = 0"
  by (simp_all add: status_ok_def status_new_def with_message_def with_details_def)

lemma array_move_None: "fst (array_move None) = empty_array"
  by (simp add: array_move_def)

section \<open>Properties\<close>


lemma sample_close:
  "\<exists>s. run_acts (st_exec sample_core write_core byte_ser) [ASend ''m'' 0, AClose 3]
        (stream_sink_new sample_core, share_call_new 5 100, (world_new :: unit world)) = Some s"
  by (simp add: st_exec_def st_start_send_def stream_sink_new_def sink_base_new_def start_send_def byte_ser_def Let_def
      start_send_buffer_message_def start_send_message_def start_batch_eq write_core_def world_new_def returned_def
      st_poll_close_def sink_poll_ready_def future_poll_def cq_future_poll_def share_call_new_def start_send_status_from_server_def
      status_trailer_def status_ok_def status_new_def with_message_def with_details_def st_await_close_def await_finish_def
      poll_finish_def notify_new_def before_batch_def is_inline_def after_batch_def)




text \<open>
  Once the sink of a streaming response has reported that the call was stopped, using it
  again panics, even closing it: the future that watches the call has already been taken.
\<close>

theorem stopped_sink_panics:
  assumes "core_writes core" "0 < w_ref_cnt w" "st_call self" "st_flush_f self = None" "\<not> st_flushed self" "sk_batch_f (st_base self) = None"
    and "details (st_status self) = []" "sc_close_f sc < w_next w" "cell_abs (w_cells w (sc_close_f sc)) = Done (Inr m)"
  shows "\<exists>sc' w'. st_poll_ready cx self sc w = Ret (Ready (Inl RemoteStopped), self, sc', w')
    \<and> st_poll_ready cx' self sc' w' = Panic STALE_MESSAGE
    \<and> st_poll_flush c core cx' self sc' w' = Panic STALE_MESSAGE
    \<and> st_poll_close c core cx' self sc' w' = Panic STALE_MESSAGE"
proof -
  let ?w' = "take_cell (sc_close_f sc) w"
  let ?sc' = "sc\<lparr>sc_status := Some status_ok, sc_finished := True\<rparr>"
  have ready: "st_poll_ready cx self sc w = Ret (Ready (Inl RemoteStopped), self, ?sc', ?w')"
    using assms by (simp add: st_poll_ready_def st_unless_stopped_def poll_finish_def poll_done)
  have gone: "poll_finish cx' ?sc' v = Panic STALE_MESSAGE" if "cell_abs (w_cells v (sc_close_f sc)) = Taken" for v :: "'a world"
    using that by (simp add: poll_finish_def poll_taken)
  have taken: "cell_abs (w_cells ?w' (sc_close_f sc)) = Taken" by simp
  let ?ops = "call_send_status_from_server (code_i32 (code (st_status self)))
      (if code (st_status self) = OK then [] else message (st_status self)) None (if sk_send_metadata (st_base self) then 1 else 0) None 0"
  have status: "start_send_status_from_server c core (sc_call sc) (st_status self) (sk_send_metadata (st_base self)) None 0 ?w' =
      Ret (Inr (w_next w), after_batch (sc_call sc) Finish ?ops (Some (Inr None)) ?w')"
    using assms(1,2,7)
    by (auto simp: start_send_status_from_server_def status_trailer_def start_batch_eq core_writes_def)
  let ?w2 = "after_batch (sc_call sc) Finish ?ops (Some (Inr None)) ?w'"
  have done1: "cell_abs (w_cells ?w2 (w_next w)) = Done (Inr None)" by (simp add: cell_abs_def notify_new_def)
  have "cell_abs (w_cells (take_cell (w_next w) ?w2) (sc_close_f sc)) = Taken"
    using assms(8) taken by simp
  from gone [OF this] have "st_poll_close c core cx' self ?sc' ?w' = Panic STALE_MESSAGE"
    using assms status done1
    by (simp add: st_poll_close_def sink_poll_ready_def st_await_close_def poll_done await_finish_def)
  moreover have "st_poll_ready cx' self ?sc' ?w' = Panic STALE_MESSAGE" "st_poll_flush c core cx' self ?sc' ?w' = Panic STALE_MESSAGE"
    using assms gone [OF taken] by (simp_all add: st_poll_ready_def st_poll_flush_def st_unless_stopped_def)
  ultimately show ?thesis using ready by blast
qed

definition stopped_world :: "unit world" where
  "stopped_world = world_new\<lparr>w_cells := (\<lambda>_. notify_new\<lparr>nh_result := Some (Inr None)\<rparr>), w_next := 1\<rparr>"

theorem stopped_sink_panics_witness:
  "\<exists>sc' w'. st_poll_ready 3 (stream_sink_new sample_core) (share_call_new 5 0) stopped_world
       = Ret (Ready (Inl RemoteStopped), stream_sink_new sample_core, sc', w')
    \<and> st_poll_close sample_core write_core 3 (stream_sink_new sample_core) sc' w' = Panic STALE_MESSAGE"
  using stopped_sink_panics [of write_core stopped_world "stream_sink_new sample_core" "share_call_new 5 0" None 3 3 sample_core]
  by (auto simp: stream_sink_new_def sink_base_new_def stopped_world_def world_new_def share_call_new_def status_ok_simps
      cell_abs_def notify_new_def)

end
