(* ===== verification/Grpc_Server.thy ===== *)
theory Grpc_Server
  imports Grpc_Server_Call
begin

text \<open>
  The server of \<^verbatim>\<open>src/server.rs\<close> with the callbacks of
  \<^verbatim>\<open>src/task/callback.rs\<close>: handlers and checkers, the slots in which a queue waits
  for calls, and how a call that arrives finds its handler. One queue's part of the server is
  a \<open>queue_sys\<close>; the user's handlers and checkers are arguments that work on a state
  \<open>'e\<close> of their own and on the world.
\<close>

section \<open>Handlers and checkers\<close>

datatype MethodType = Unary | ClientStreaming | ServerStreaming | Duplex

record ('e, 'm) handler =
  h_method_type :: MethodType
  h_cb :: "rpc_context \<Rightarrow> 'm option \<Rightarrow> 'e \<times> 'm world \<Rightarrow> ('e \<times> 'm world) outcome"

type_synonym ('e, 'm) handlers = "bytes \<rightharpoonup> ('e, 'm) handler"

definition service_builder_new :: "('e, 'm) handlers" where
  "service_builder_new = Map.empty"

definition add_unary_handler ::
  "'m core \<Rightarrow> (error \<Rightarrow> string) \<Rightarrow> bytes \<Rightarrow> ('m \<Rightarrow> 'p result)
     \<Rightarrow> (rpc_context \<Rightarrow> 'p \<Rightarrow> share_call \<Rightarrow> 'e \<times> 'm world \<Rightarrow> ('e \<times> 'm world) outcome) \<Rightarrow> ('e, 'm) handlers \<Rightarrow> ('e, 'm) handlers" where
  "add_unary_handler core debug_error name de handler self =
     self(name \<mapsto> \<lparr>h_method_type = Unary,
       h_cb = (\<lambda>ctx payload s. obind (unwrap payload) (\<lambda>p. execute_unary core debug_error de handler ctx p s))\<rparr>)"

definition add_client_streaming_handler ::
  "'m core \<Rightarrow> bytes \<Rightarrow> (rpc_context \<Rightarrow> streaming_base \<Rightarrow> share_call \<Rightarrow> 'e \<times> 'm world \<Rightarrow> ('e \<times> 'm world) outcome)
     \<Rightarrow> ('e, 'm) handlers \<Rightarrow> ('e, 'm) handlers" where
  "add_client_streaming_handler core name handler self =
     self(name \<mapsto> \<lparr>h_method_type = ClientStreaming, h_cb = (\<lambda>ctx _ s. execute_client_streaming core handler ctx s)\<rparr>)"

definition add_server_streaming_handler ::
  "slice_core \<Rightarrow> 'm core \<Rightarrow> (error \<Rightarrow> string) \<Rightarrow> bytes \<Rightarrow> ('m \<Rightarrow> 'p result)
     \<Rightarrow> (rpc_context \<Rightarrow> 'p \<Rightarrow> stream_sink \<times> share_call \<Rightarrow> 'e \<times> 'm world \<Rightarrow> ('e \<times> 'm world) outcome)
     \<Rightarrow> ('e, 'm) handlers \<Rightarrow> ('e, 'm) handlers" where
  "add_server_streaming_handler c core debug_error name de handler self =
     self(name \<mapsto> \<lparr>h_method_type = ServerStreaming,
       h_cb = (\<lambda>ctx payload s. obind (unwrap payload) (\<lambda>p. execute_server_streaming c core debug_error de handler ctx p s))\<rparr>)"

definition add_duplex_streaming_handler ::
  "slice_core \<Rightarrow> 'm core \<Rightarrow> bytes
     \<Rightarrow> (rpc_context \<Rightarrow> streaming_base \<Rightarrow> stream_sink \<times> share_call \<Rightarrow> 'e \<times> 'm world \<Rightarrow> ('e \<times> 'm world) outcome)
     \<Rightarrow> ('e, 'm) handlers \<Rightarrow> ('e, 'm) handlers" where
  "add_duplex_streaming_handler c core name handler self =
     self(name \<mapsto> \<lparr>h_method_type = Duplex, h_cb = (\<lambda>ctx _ s. execute_duplex_streaming c core handler ctx s)\<rparr>)"

text \<open>A checker is cloned for every request, so what it changes in itself is forgotten.\<close>

datatype CheckResult = Continue | Abort RpcStatus

type_synonym 'e checker = "rpc_context \<Rightarrow> 'e \<Rightarrow> CheckResult \<times> 'e"

fun run_checkers :: "'e checker list \<Rightarrow> rpc_context \<Rightarrow> 'e \<Rightarrow> RpcStatus option \<times> 'e" where
  "run_checkers [] ctx u = (None, u)"
| "run_checkers (k # ks) ctx u = (case k ctx u of
     (CheckResult.Continue, u) \<Rightarrow> run_checkers ks ctx u
   | (CheckResult.Abort status, u) \<Rightarrow> (Some status, u))"

text \<open>\<^verbatim>\<open>execute\<close> of \<^verbatim>\<open>call/server.rs\<close>.\<close>

definition execute ::
  "(gpr_timespec \<Rightarrow> gpr_clock_type \<Rightarrow> gpr_timespec) \<Rightarrow> 'm core \<Rightarrow> request_ctx \<Rightarrow> 'm option \<Rightarrow> ('e, 'm) handler \<Rightarrow> 'e checker list
     \<Rightarrow> 'e \<times> 'm world \<Rightarrow> ('e \<times> 'm world) outcome" where
  "execute convert core ctx payload f checkers = (\<lambda>(u, w).
     let rpc_ctx = rpc_context_new convert ctx in
     case run_checkers checkers rpc_ctx u of
       (Some status, u) \<Rightarrow> obind (request_ctx_call ctx) (\<lambda>call. obind (call_abort core call status w) (\<lambda>w. Ret (u, w)))
     | (None, u) \<Rightarrow> h_cb f rpc_ctx payload (u, w))"

section \<open>Waiting for calls\<close>

record ('e, 'm) request_call_context =
  rcc_registry :: "('e, 'm) handlers"
  rcc_checkers :: "'e checker list"

text \<open>\<^verbatim>\<open>RequestContext\<close> and \<^verbatim>\<open>UnaryRequestContext\<close>, the contents of the two tags.\<close>

record ('e, 'm) request =
  rc_ctx :: request_ctx
  rc_request_call :: "('e, 'm) request_call_context option"

record ('e, 'm, 'b) unary_request =
  ur_request :: "('e, 'm) request"
  ur_request_call :: "('e, 'm) request_call_context option"
  ur_batch :: "'b batch_context"

definition request_new :: "('e, 'm) request_call_context \<Rightarrow> ('e, 'm) request" where
  "request_new rc = \<lparr>rc_ctx = request_ctx_create, rc_request_call = Some rc\<rparr>"

definition unary_request_new :: "('e, 'm) request \<Rightarrow> ('e, 'm) request_call_context \<Rightarrow> ('e, 'm, 'b) unary_request" where
  "unary_request_new ctx rc = \<lparr>ur_request = ctx, ur_request_call = Some rc, ur_batch = batch_context_create\<rparr>"

type_synonym ('e, 'm, 'b) tag = "('b, ('e, 'm) request, ('e, 'm, 'b) unary_request) CallTag"

text \<open>
  A queue of a server: the user's state, the world, the server's shutdown flag, and the
  request tags the core holds. \<open>req\<close> is the core's answer when a call is requested.
\<close>

record ('e, 'm, 'b) queue_sys =
  qs_user :: 'e
  qs_world :: "'m world"
  qs_shutdown :: bool
  qs_tags :: "('e, 'm, 'b) tag list"

definition request_call ::
  "(('e, 'm, 'b) queue_sys \<Rightarrow> grpc_call_error) \<Rightarrow> ('e, 'm) request_call_context \<Rightarrow> ('e, 'm, 'b) queue_sys
     \<Rightarrow> ('e, 'm, 'b) queue_sys outcome" where
  "request_call req ctx s =
     (if qs_shutdown s then Ret s
      else case cq_borrow (qs_world s) of
        (Inl _, w) \<Rightarrow> Ret (s\<lparr>qs_world := w\<rparr>)
      | (Inr _, w) \<Rightarrow>
          (let prom = Request (request_new ctx) in
           if req (s\<lparr>qs_world := w\<rparr>) \<noteq> GRPC_CALL_OK then Panic ''failed to request call''
           else Ret (s\<lparr>qs_world := cq_release w, qs_tags := qs_tags s @ [prom]\<rparr>)))"

fun request_calls ::
  "(('e, 'm, 'b) queue_sys \<Rightarrow> grpc_call_error) \<Rightarrow> ('e, 'm) request_call_context \<Rightarrow> nat \<Rightarrow> ('e, 'm, 'b) queue_sys
     \<Rightarrow> ('e, 'm, 'b) queue_sys outcome" where
  "request_calls req rc 0 s = Ret s"
| "request_calls req rc (Suc n) s = obind (request_call req rc s) (request_calls req rc n)"

section \<open>A call arrives\<close>

text \<open>
  \<^verbatim>\<open>handle_stream_req\<close>: calls whose request is a stream, and calls nobody handles,
  are taken at once; the others are given back.
\<close>

definition handle_stream_req ::
  "(gpr_timespec \<Rightarrow> gpr_clock_type \<Rightarrow> gpr_timespec) \<Rightarrow> 'm core \<Rightarrow> ('e, 'm) request_call_context \<Rightarrow> ('e, 'm) request \<Rightarrow> 'e \<times> 'm world
     \<Rightarrow> ((('e, 'm) request + unit) \<times> 'e \<times> 'm world) outcome" where
  "handle_stream_req convert core rc self = (\<lambda>(u, w).
     case rcc_registry rc (request_method (rc_ctx self)) of
       Some handler \<Rightarrow>
         if h_method_type handler \<in> {Unary, ServerStreaming} then Ret (Inl self, u, w)
         else obind (execute convert core (rc_ctx self) None handler (rcc_checkers rc) (u, w)) (\<lambda>s. Ret (Inr (), s))
     | None \<Rightarrow> obind (execute_unimplemented core (rc_ctx self) w) (\<lambda>w. Ret (Inr (), u, w)))"

text \<open>
  \<^verbatim>\<open>handle_unary_req\<close>: the message is fetched before the handler is called; the queue
  is not borrowed. The call of a request that arrived is never null, a null one could only
  crash in the core.
\<close>

definition handle_unary_req ::
  "'m core \<Rightarrow> ('e, 'm) request_call_context \<Rightarrow> ('e, 'm) request \<Rightarrow> ('e, 'm, 'b) queue_sys \<Rightarrow> ('e, 'm, 'b) queue_sys outcome" where
  "handle_unary_req core rc self s =
     (case rq_call (rc_ctx self) of
        None \<Rightarrow> Panic ''null call''
      | Some call \<Rightarrow>
          (let w = qs_world s in
           if fst (core w call call_recv_message) \<noteq> GRPC_CALL_OK then Panic ''try to receive message fail''
           else Ret (s\<lparr>qs_world := w\<lparr>w_batches := w_batches w @
                         [\<lparr>br_call = call, br_ops = call_recv_message, br_tag = UnaryRequestTag, br_ref_cnt = w_ref_cnt w\<rparr>]\<rparr>,
                       qs_tags := qs_tags s @ [UnaryRequest (unary_request_new self rc)]\<rparr>)))"

definition request_resolve ::
  "(gpr_timespec \<Rightarrow> gpr_clock_type \<Rightarrow> gpr_timespec) \<Rightarrow> 'm core \<Rightarrow> (('e, 'm, 'b) queue_sys \<Rightarrow> grpc_call_error) \<Rightarrow> bool \<Rightarrow> ('e, 'm) request
     \<Rightarrow> ('e, 'm, 'b) queue_sys \<Rightarrow> ('e, 'm, 'b) queue_sys outcome" where
  "request_resolve convert core req success self s =
     obind (unwrap (rc_request_call self)) (\<lambda>rc.
       let self = self\<lparr>rc_request_call := None\<rparr> in
       if \<not> success then request_call req rc s
       else obind (handle_stream_req convert core rc self (qs_user s, qs_world s)) (\<lambda>(r, u, w).
         let s = s\<lparr>qs_user := u, qs_world := w\<rparr> in
         case r of
           Inr _ \<Rightarrow> request_call req rc s
         | Inl ctx \<Rightarrow> handle_unary_req core rc ctx s))"

text \<open>\<^verbatim>\<open>UnaryRequestContext::handle\<close>, with the message that arrived, if any.\<close>

definition handle_unary ::
  "(gpr_timespec \<Rightarrow> gpr_clock_type \<Rightarrow> gpr_timespec) \<Rightarrow> 'm core \<Rightarrow> ('e, 'm) request_call_context \<Rightarrow> ('e, 'm, 'b) unary_request \<Rightarrow> 'm option
     \<Rightarrow> 'e \<times> 'm world \<Rightarrow> ('e \<times> 'm world) outcome" where
  "handle_unary convert core rc self reader = (\<lambda>(u, w).
     obind (unwrap (rcc_registry rc (request_method (rc_ctx (ur_request self))))) (\<lambda>handler.
       if reader \<noteq> None then execute convert core (rc_ctx (ur_request self)) reader handler (rcc_checkers rc) (u, w)
       else obind (request_ctx_call (rc_ctx (ur_request self))) (\<lambda>call.
            obind (call_abort core call (with_message INTERNAL ''No payload'') w) (\<lambda>w. Ret (u, w)))))"

definition unary_request_resolve ::
  "(gpr_timespec \<Rightarrow> gpr_clock_type \<Rightarrow> gpr_timespec) \<Rightarrow> 'm core \<Rightarrow> (('e, 'm, 'b) queue_sys \<Rightarrow> grpc_call_error) \<Rightarrow> ('b \<Rightarrow> 'm outcome)
     \<Rightarrow> bool \<Rightarrow> ('e, 'm, 'b) unary_request \<Rightarrow> ('e, 'm, 'b) queue_sys \<Rightarrow> ('e, 'm, 'b) queue_sys outcome" where
  "unary_request_resolve convert core req open_reader success self s =
     obind (unwrap (ur_request_call self)) (\<lambda>rc.
       if \<not> success then request_call req rc s
       else obind (recv_message open_reader (ur_batch self)) (\<lambda>(reader, ctx).
            obind (handle_unary convert core rc (self\<lparr>ur_request_call := None, ur_batch := ctx\<rparr>) reader (qs_user s, qs_world s)) (\<lambda>(u, w).
            request_call req rc (s\<lparr>qs_user := u, qs_world := w\<rparr>))))"

section \<open>Building, starting and stopping a server\<close>

record Binder =
  bd_host :: string
  bd_port :: "16 word"

definition fmt_Binder :: "Binder \<Rightarrow> string" where
  "fmt_Binder b = ''Binder { host: '' @ bd_host b @ '', port: '' @ show_nat (unat (bd_port b)) @ '' }''"

record ('e, 'm) server_builder =
  bl_binders :: "Binder list"
  bl_slots_per_cq :: nat
  bl_handlers :: "('e, 'm) handlers"
  bl_checkers :: "'e checker list"

definition DEFAULT_REQUEST_SLOTS_PER_CQ :: nat where
  "DEFAULT_REQUEST_SLOTS_PER_CQ = 1024"

definition server_builder_new :: "('e, 'm) server_builder" where
  "server_builder_new =
     \<lparr>bl_binders = [], bl_slots_per_cq = DEFAULT_REQUEST_SLOTS_PER_CQ, bl_handlers = Map.empty, bl_checkers = []\<rparr>"

definition server_bind :: "string \<Rightarrow> 16 word \<Rightarrow> ('e, 'm) server_builder \<Rightarrow> ('e, 'm) server_builder" where
  "server_bind host port self = self\<lparr>bl_binders := bl_binders self @ [\<lparr>bd_host = host, bd_port = port\<rparr>]\<rparr>"

definition requests_slot_per_cq :: "nat \<Rightarrow> ('e, 'm) server_builder \<Rightarrow> ('e, 'm) server_builder" where
  "requests_slot_per_cq slots self = self\<lparr>bl_slots_per_cq := slots\<rparr>"

definition register_service :: "('e, 'm) handlers \<Rightarrow> ('e, 'm) server_builder \<Rightarrow> ('e, 'm) server_builder" where
  "register_service service self = self\<lparr>bl_handlers := bl_handlers self ++ service\<rparr>"

definition add_checker :: "'e checker \<Rightarrow> ('e, 'm) server_builder \<Rightarrow> ('e, 'm) server_builder" where
  "add_checker checker self = self\<lparr>bl_checkers := bl_checkers self @ [checker]\<rparr>"

text \<open>
  \<open>bind\<close> is what the core answers when it is asked to listen on an address: the
  port it got, which is cut to 16 bits, or 0.
\<close>

fun bind_all :: "(Binder \<Rightarrow> int) \<Rightarrow> Binder list \<Rightarrow> Binder list result" where
  "bind_all bind [] = Inr []"
| "bind_all bind (b # bs) =
     (let bind_port = word_of_int (bind b) :: 16 word in
      if bind_port = 0 then Inl (BindFail (bd_host b) (unat (bd_port b)))
      else case bind_all bind bs of
        Inl e \<Rightarrow> Inl e
      | Inr bs' \<Rightarrow> Inr (b\<lparr>bd_port := bind_port\<rparr> # bs'))"

text \<open>Every queue is borrowed while it is registered.\<close>

fun register_queues :: "'m world list \<Rightarrow> unit result \<times> 'm world list" where
  "register_queues [] = (Inr (), [])"
| "register_queues (w # ws) = (case cq_borrow w of
     (Inl e, w) \<Rightarrow> (Inl e, w # ws)
   | (Inr _, w) \<Rightarrow> (case register_queues ws of (r, ws) \<Rightarrow> (r, cq_release w # ws)))"

record ('e, 'm) server =
  sv_binders :: "Binder list"
  sv_slots_per_cq :: nat
  sv_handlers :: "('e, 'm) handlers"
  sv_checkers :: "'e checker list"
  sv_shutdown :: bool

text \<open>
  The result of \<^verbatim>\<open>build\<close>, the queues, and whether the core's server has been
  destroyed again.
\<close>

definition server_build ::
  "(Binder \<Rightarrow> int) \<Rightarrow> ('e, 'm) server_builder \<Rightarrow> 'm world list \<Rightarrow> ('e, 'm) server result \<times> 'm world list \<times> bool" where
  "server_build bind self cqs = (case bind_all bind (bl_binders self) of
     Inl e \<Rightarrow> (Inl e, cqs, True)
   | Inr binders \<Rightarrow> (case register_queues cqs of
       (Inl e, cqs) \<Rightarrow> (Inl e, cqs, False)
     | (Inr _, cqs) \<Rightarrow> (Inr \<lparr>sv_binders = binders, sv_slots_per_cq = bl_slots_per_cq self, sv_handlers = bl_handlers self,
                            sv_checkers = bl_checkers self, sv_shutdown = False\<rparr>, cqs, False)))"

text \<open>\<^verbatim>\<open>start\<close>: each queue gets its own copy of the handlers and its slots.\<close>

fun server_start ::
  "(('e, 'm, 'b) queue_sys \<Rightarrow> grpc_call_error) \<Rightarrow> ('e, 'm) server \<Rightarrow> ('e, 'm, 'b) queue_sys list \<Rightarrow> ('e, 'm, 'b) queue_sys list outcome" where
  "server_start req self [] = Ret []"
| "server_start req self (q # qs) =
     (let rc = \<lparr>rcc_registry = sv_handlers self, rcc_checkers = sv_checkers self\<rparr> in
      obind (request_calls req rc (sv_slots_per_cq self) q) (\<lambda>q.
      obind (server_start req self qs) (\<lambda>qs. Ret (q # qs))))"

text \<open>
  \<^verbatim>\<open>shutdown\<close>: the first queue is borrowed, the core told to shut down, and the flag
  set that all queues see. A future that waits for the core is returned.
\<close>

definition server_shutdown ::
  "('e, 'm) server \<Rightarrow> ('e, 'm, 'b) queue_sys list \<Rightarrow> (bool notify_handle \<times> ('e, 'm) server \<times> ('e, 'm, 'b) queue_sys list) outcome" where
  "server_shutdown self qs = (case qs of
     [] \<Rightarrow> Panic ''index out of bounds''
   | q # _ \<Rightarrow> (case cq_borrow (qs_world q) of
       (Inl _, _) \<Rightarrow> Panic ''called Result::unwrap() on an Err value''
     | (Inr _, w) \<Rightarrow> Ret (notify_new, self\<lparr>sv_shutdown := True\<rparr>, map (\<lambda>q. q\<lparr>qs_shutdown := True\<rparr>) (q\<lparr>qs_world := cq_release w\<rparr> # tl qs))))"

definition shutdown_future_poll :: "waker \<Rightarrow> bool notify_handle \<Rightarrow> (unit result poll \<times> bool notify_handle) outcome" where
  "shutdown_future_poll cx cq_f = obind (cq_future_poll cx cq_f) (\<lambda>(p, cq_f). case p of
     Pending \<Rightarrow> Ret (Pending, cq_f)
   | Ready (Inr ok) \<Rightarrow> Ret (Ready (if ok then Inr () else Inl ShutdownFailed), cq_f)
   | Ready (Inl e) \<Rightarrow> Panic ''internal error: entered unreachable code: action future should never resolve to error'')"

text \<open>Dropping a server shuts it down unless that was done, and says whether it waits for that.\<close>

definition server_drop ::
  "('e, 'm) server \<Rightarrow> ('e, 'm, 'b) queue_sys list \<Rightarrow> (bool \<times> ('e, 'm) server \<times> ('e, 'm, 'b) queue_sys list) outcome" where
  "server_drop self qs =
     (if \<not> sv_shutdown self then obind (server_shutdown self qs) (\<lambda>(_, self, qs). Ret (True, self, qs))
      else Ret (False, self, qs))"

definition bind_addrs :: "('e, 'm) server \<Rightarrow> (string \<times> 16 word) list" where
  "bind_addrs self = map (\<lambda>b. (bd_host b, bd_port b)) (sv_binders self)"

section \<open>Every slot is kept\<close>

text \<open>
  What happens to the server's part of a queue: the core answers a request tag with a call or
  a failure, or a unary request tag with a message; the server or the queue is shut down.
\<close>

definition take_tag :: "nat \<Rightarrow> ('e, 'm, 'b) queue_sys \<Rightarrow> ('e, 'm, 'b) queue_sys" where
  "take_tag i s = s\<lparr>qs_tags := take i (qs_tags s) @ drop (Suc i) (qs_tags s)\<rparr>"

inductive server_step ::
  "(gpr_timespec \<Rightarrow> gpr_clock_type \<Rightarrow> gpr_timespec) \<Rightarrow> 'm core \<Rightarrow> (('e, 'm, 'b) queue_sys \<Rightarrow> grpc_call_error) \<Rightarrow> ('b \<Rightarrow> 'm outcome)
     \<Rightarrow> ('e, 'm, 'b) queue_sys \<Rightarrow> ('e, 'm, 'b) queue_sys \<Rightarrow> bool"
  for convert core req open_reader where
  a_call: "i < length (qs_tags s) \<Longrightarrow> qs_tags s ! i = Request r \<Longrightarrow>
    request_resolve convert core req success (r\<lparr>rc_ctx := ctx\<rparr>) (take_tag i s) = Ret t \<Longrightarrow>
    server_step convert core req open_reader s t"
| a_message: "i < length (qs_tags s) \<Longrightarrow> qs_tags s ! i = UnaryRequest u \<Longrightarrow>
    unary_request_resolve convert core req open_reader success (u\<lparr>ur_batch := b\<rparr>) (take_tag i s) = Ret t \<Longrightarrow>
    server_step convert core req open_reader s t"
| a_server_shutdown: "server_step convert core req open_reader s (s\<lparr>qs_shutdown := True\<rparr>)"
| a_queue_shutdown: "server_step convert core req open_reader s
    (s\<lparr>qs_world := (qs_world s)\<lparr>w_ref_cnt := snd (the (shutdown [False] (w_ref_cnt (qs_world s))))\<rparr>\<rparr>)"

text \<open>The handlers give back the references to the queue that they borrow.\<close>

definition handlers_keep :: "('e, 'm) request_call_context \<Rightarrow> bool" where
  "handlers_keep rc \<longleftrightarrow> (\<forall>h \<in> ran (rcc_registry rc). \<forall>ctx p u w u' w'.
     h_cb h ctx p (u, w) = Ret (u', w') \<longrightarrow> w_ref_cnt w' = w_ref_cnt w)"

definition tag_of :: "('e, 'm) request_call_context \<Rightarrow> ('e, 'm, 'b) tag \<Rightarrow> bool" where
  "tag_of rc tag = (case tag of
     Request r \<Rightarrow> rc_request_call r = Some rc
   | UnaryRequest u \<Rightarrow> ur_request_call u = Some rc
   | _ \<Rightarrow> False)"

definition slots_inv :: "('e, 'm) request_call_context \<Rightarrow> nat \<Rightarrow> ('e, 'm, 'b) queue_sys \<Rightarrow> bool" where
  "slots_inv rc n s \<longleftrightarrow> list_all (tag_of rc) (qs_tags s) \<and> length (qs_tags s) \<le> n \<and>
     (\<not> qs_shutdown s \<and> 0 < w_ref_cnt (qs_world s) \<longrightarrow> length (qs_tags s) = n)"

lemma request_call_effect:
  assumes "request_call req rc s = Ret t"
  shows "qs_user t = qs_user s \<and> qs_world t = qs_world s \<and> qs_shutdown t = qs_shutdown s
    \<and> qs_tags t = qs_tags s @ (if qs_shutdown s \<or> w_ref_cnt (qs_world s) \<le> 0 then [] else [Request (request_new rc)])"
  using assms
  by (auto simp: request_call_def cq_borrow_eq cq_release_eq Let_def split: if_splits)

lemma call_abort_frame: "call_abort core call status w = Ret w' \<Longrightarrow> w_ref_cnt w' = w_ref_cnt w"
  by (auto simp: call_abort_def cq_borrow_eq cq_release_eq Let_def split: if_splits)

lemma accept_call_frame: "accept_call core call w = Ret (r, w') \<Longrightarrow> w_ref_cnt w' = w_ref_cnt w"
  by (auto simp: accept_call_def start_server_side_def start_batch_eq split: obind_splits if_splits prod.splits)

lemma execute_frame:
  assumes "execute convert core ctx payload f checkers (u, w) = Ret (u', w')"
    and "\<And>ctx p u w u' w'. h_cb f ctx p (u, w) = Ret (u', w') \<Longrightarrow> w_ref_cnt w' = w_ref_cnt w"
  shows "w_ref_cnt w' = w_ref_cnt w"
  using assms call_abort_frame
  by (fastforce simp: execute_def Let_def split: prod.splits option.splits obind_splits)

lemma handle_stream_frame:
  assumes "handle_stream_req convert core rc self (u, w) = Ret (r, u', w')" "handlers_keep rc"
  shows "w_ref_cnt w' = w_ref_cnt w \<and> (\<forall>x. r = Inl x \<longrightarrow> x = self)"
proof (cases "rcc_registry rc (request_method (rc_ctx self))")
  case None
  with assms(1) show ?thesis
    by (auto simp: handle_stream_req_def execute_unimplemented_def dest!: accept_call_frame call_abort_frame
        split: obind_splits option.splits)
next
  case (Some h)
  then have keep: "\<And>ctx p u w u' w'. h_cb h ctx p (u, w) = Ret (u', w') \<Longrightarrow> w_ref_cnt w' = w_ref_cnt w"
    using assms(2) by (auto simp: handlers_keep_def ran_def)
  show ?thesis using assms(1) Some execute_frame [OF _ keep]
    by (auto simp: handle_stream_req_def split: obind_splits if_splits)
qed

lemma obind_assoc: "obind (obind m f) g = obind m (\<lambda>x. obind (f x) g)"
  by (cases m) auto

lemma slots_refill:
  assumes "slots_inv rc n s" "i < length (qs_tags s)"
    and "qs_tags t = qs_tags (take_tag i s) @ X" "list_all (tag_of rc) X" "length X \<le> 1"
    and "\<not> qs_shutdown t \<and> 0 < w_ref_cnt (qs_world t) \<longrightarrow> length X = 1"
    and "qs_shutdown t = qs_shutdown s" "w_ref_cnt (qs_world t) = w_ref_cnt (qs_world s)"
  shows "slots_inv rc n t"
proof -
  have "length (qs_tags (take_tag i s)) = length (qs_tags s) - 1" using assms(2) by (simp add: take_tag_def)
  moreover have "list_all (tag_of rc) (qs_tags (take_tag i s))"
    using assms(1) by (auto simp: slots_inv_def take_tag_def list_all_iff dest: in_set_takeD in_set_dropD)
  ultimately show ?thesis using assms by (auto simp: slots_inv_def)
qed

lemma take_tag_simps [simp]:
  "qs_user (take_tag i s) = qs_user s" "qs_world (take_tag i s) = qs_world s" "qs_shutdown (take_tag i s) = qs_shutdown s"
  by (simp_all add: take_tag_def)

lemma tag_of_new [simp]: "tag_of rc (Request (request_new rc))" "tag_of rc (UnaryRequest (unary_request_new r rc))"
  by (simp_all add: tag_of_def request_new_def unary_request_new_def)

lemma request_resolve_slot:
  assumes keep: "handlers_keep rc" and run: "request_resolve convert core req success r s = Ret t" and rc: "rc_request_call r = Some rc"
  shows "\<exists>X. qs_tags t = qs_tags s @ X \<and> list_all (tag_of rc) X \<and> length X \<le> 1
    \<and> (\<not> qs_shutdown t \<and> 0 < w_ref_cnt (qs_world t) \<longrightarrow> length X = 1)
    \<and> qs_shutdown t = qs_shutdown s \<and> w_ref_cnt (qs_world t) = w_ref_cnt (qs_world s)"
proof (cases success)
  case False
  with run rc have "request_call req rc s = Ret t" by (simp add: request_resolve_def)
  from request_call_effect [OF this] show ?thesis by auto
next
  case True
  let ?r = "r\<lparr>rc_request_call := None\<rparr>"
  from True run rc obtain q u w where h: "handle_stream_req convert core rc ?r (qs_user s, qs_world s) = Ret (q, u, w)"
    and rest: "(case q of Inr _ \<Rightarrow> request_call req rc (s\<lparr>qs_user := u, qs_world := w\<rparr>)
                        | Inl ctx \<Rightarrow> handle_unary_req core rc ctx (s\<lparr>qs_user := u, qs_world := w\<rparr>)) = Ret t"
    by (auto simp: request_resolve_def Let_def split: obind_splits)
  note fr = handle_stream_frame [OF h keep]
  show ?thesis
  proof (cases q)
    case (Inl ctx)
    with rest fr show ?thesis by (auto simp: handle_unary_req_def Let_def split: option.splits if_splits)
  next
    case (Inr x)
    with rest have "request_call req rc (s\<lparr>qs_user := u, qs_world := w\<rparr>) = Ret t" by simp
    from request_call_effect [OF this] fr show ?thesis by auto
  qed
qed

lemma unary_resolve_slot:
  assumes keep: "handlers_keep rc" and run: "unary_request_resolve convert core req open_reader success u s = Ret t"
    and rc: "ur_request_call u = Some rc"
  shows "\<exists>X. qs_tags t = qs_tags s @ X \<and> list_all (tag_of rc) X \<and> length X \<le> 1
    \<and> (\<not> qs_shutdown t \<and> 0 < w_ref_cnt (qs_world t) \<longrightarrow> length X = 1)
    \<and> qs_shutdown t = qs_shutdown s \<and> w_ref_cnt (qs_world t) = w_ref_cnt (qs_world s)"
proof (cases success)
  case False
  with run rc have "request_call req rc s = Ret t" by (simp add: unary_request_resolve_def)
  from request_call_effect [OF this] show ?thesis by auto
next
  case True
  with run rc obtain reader ctx e w where
    h: "handle_unary convert core rc (u\<lparr>ur_request_call := None, ur_batch := ctx\<rparr>) reader (qs_user s, qs_world s) = Ret (e, w)"
    and rest: "request_call req rc (s\<lparr>qs_user := e, qs_world := w\<rparr>) = Ret t"
    by (auto simp: unary_request_resolve_def split: obind_splits)
  from h obtain hd where hd: "rcc_registry rc (request_method (rc_ctx (ur_request u))) = Some hd"
    by (auto simp: handle_unary_def split: obind_splits)
  then have keep': "\<And>ctx p u w u' w'. h_cb hd ctx p (u, w) = Ret (u', w') \<Longrightarrow> w_ref_cnt w' = w_ref_cnt w"
    using keep by (auto simp: handlers_keep_def ran_def)
  have "w_ref_cnt w = w_ref_cnt (qs_world s)"
    using h hd execute_frame [OF _ keep'] call_abort_frame
    by (auto simp: handle_unary_def split: obind_splits if_splits)
  with request_call_effect [OF rest] show ?thesis by auto
qed

definition server_init :: "('e, 'm) request_call_context \<Rightarrow> nat \<Rightarrow> (('e, 'm, 'b) queue_sys \<Rightarrow> grpc_call_error) \<Rightarrow> ('e, 'm, 'b) queue_sys \<Rightarrow> bool" where
  "server_init rc n req s \<longleftrightarrow> handlers_keep rc \<and> (\<exists>s0. qs_tags s0 = [] \<and> request_calls req rc n s0 = Ret s)"

lemma request_calls_slots:
  "request_calls req rc n s = Ret t \<Longrightarrow>
   qs_user t = qs_user s \<and> qs_world t = qs_world s \<and> qs_shutdown t = qs_shutdown s
   \<and> qs_tags t = qs_tags s @ (if qs_shutdown s \<or> w_ref_cnt (qs_world s) \<le> 0 then [] else replicate n (Request (request_new rc)))"
proof (induction n arbitrary: s)
  case (Suc n)
  then obtain s1 where s1: "request_call req rc s = Ret s1" "request_calls req rc n s1 = Ret t" by (auto split: obind_splits)
  from Suc.IH [OF s1(2)] request_call_effect [OF s1(1)] show ?case by auto
qed simp

interpretation srv: invariant_system "server_init rc n req" "server_step convert core req open_reader"
    "\<lambda>s. handlers_keep rc \<and> slots_inv rc n s"
  for rc :: "('e, 'm) request_call_context" and n and req :: "('e, 'm, 'b) queue_sys \<Rightarrow> grpc_call_error"
    and convert and core :: "'m core" and open_reader :: "'b \<Rightarrow> 'm outcome"
proof unfold_locales
  fix s :: "('e, 'm, 'b) queue_sys"
  assume "server_init rc n req s"
  then obtain s0 where "handlers_keep rc" "qs_tags s0 = []" "request_calls req rc n s0 = Ret s" by (auto simp: server_init_def)
  with request_calls_slots [OF this(3)] show "handlers_keep rc \<and> slots_inv rc n s"
    by (auto simp: slots_inv_def list_all_iff)
next
  fix s t :: "('e, 'm, 'b) queue_sys"
  assume inv: "handlers_keep rc \<and> slots_inv rc n s" and step: "server_step convert core req open_reader s t"
  have tag: "tag_of rc (qs_tags s ! i)" if "i < length (qs_tags s)" for i
    using inv that by (auto simp: slots_inv_def list_all_length)
  from step have "slots_inv rc n t"
  proof cases
    case (a_call i r success ctx)
    then have "rc_request_call (r\<lparr>rc_ctx := ctx\<rparr>) = Some rc" using tag [of i] by (simp add: tag_of_def)
    from request_resolve_slot [OF conjunct1 [OF inv] a_call(3) this] obtain X where
      "qs_tags t = qs_tags (take_tag i s) @ X" "list_all (tag_of rc) X" "length X \<le> 1"
      "\<not> qs_shutdown t \<and> 0 < w_ref_cnt (qs_world t) \<longrightarrow> length X = 1"
      "qs_shutdown t = qs_shutdown s" "w_ref_cnt (qs_world t) = w_ref_cnt (qs_world s)"
      unfolding take_tag_simps by blast
    with inv a_call(1) show ?thesis using slots_refill by blast
  next
    case (a_message i u success b)
    then have "ur_request_call (u\<lparr>ur_batch := b\<rparr>) = Some rc" using tag [of i] by (simp add: tag_of_def)
    from unary_resolve_slot [OF conjunct1 [OF inv] a_message(3) this] obtain X where
      "qs_tags t = qs_tags (take_tag i s) @ X" "list_all (tag_of rc) X" "length X \<le> 1"
      "\<not> qs_shutdown t \<and> 0 < w_ref_cnt (qs_world t) \<longrightarrow> length X = 1"
      "qs_shutdown t = qs_shutdown s" "w_ref_cnt (qs_world t) = w_ref_cnt (qs_world s)"
      unfolding take_tag_simps by blast
    with inv a_message(1) show ?thesis using slots_refill by blast
  qed (use inv in \<open>auto simp: slots_inv_def shutdown_once split: if_splits\<close>)
  with inv show "handlers_keep rc \<and> slots_inv rc n t" by blast
qed

section \<open>Properties\<close>


definition sample_rcc :: "(nat, unit) request_call_context" where
  "sample_rcc = \<lparr>rcc_registry = [''/m'' \<mapsto> \<lparr>h_method_type = Unary, h_cb = (\<lambda>_ _ (u, w). Ret (Suc u, w))\<rparr>], rcc_checkers = []\<rparr>"

definition sample_queue :: "(nat, unit, unit) queue_sys" where
  "sample_queue = \<lparr>qs_user = 0, qs_world = world_new, qs_shutdown = False, qs_tags = []\<rparr>"

lemma sample_keep: "handlers_keep sample_rcc"
  by (auto simp: handlers_keep_def sample_rcc_def ran_def)

lemma sample_server_init:
  "server_init sample_rcc 2 (\<lambda>_. GRPC_CALL_OK) (sample_queue\<lparr>qs_tags := replicate 2 (Request (request_new sample_rcc))\<rparr>)"
  unfolding server_init_def
  by (intro conjI sample_keep exI [of _ sample_queue])
    (simp_all add: sample_queue_def numeral_2_eq_2 request_call_def world_new_def cq_borrow_eq cq_release_eq Let_def)


lemma call_abort_log:
  assumes "core_accepts core" "0 < w_ref_cnt w"
  shows "\<exists>w'. call_abort core call status w = Ret w' \<and> w_ref_cnt w' = w_ref_cnt w \<and> call_log call w' = call_log call w @
      [[OpSendStatusFromServer (code_i32 (code status)) (if code status = OK then [] else message status) empty_array,
        OpSendInitialMetadata empty_array 0]]"
  using assms
  by (simp add: call_abort_def cq_borrow_eq cq_release_eq core_accepts_def Let_def call_log_def
      call_send_status_from_server_def array_move_None)

lemma accept_call_log:
  assumes "core_accepts core" "0 < w_ref_cnt w"
  shows "\<exists>f w'. accept_call core call w = Ret (Some f, w') \<and> w_ref_cnt w' = w_ref_cnt w
      \<and> call_log call w' = call_log call w @ [[OpRecvCloseOnServer]]"
  using assms(2) start_batch_accepted [OF assms]
  by (simp add: accept_call_def start_server_side_def call_start_serverside_def)

lemma execute_unimplemented_log:
  assumes "core_accepts core" "0 < w_ref_cnt w" "rq_call ctx = Some call"
  shows "\<exists>w'. execute_unimplemented core ctx w = Ret w' \<and> call_log call w' = call_log call w @
           [[OpRecvCloseOnServer], [OpSendStatusFromServer 12 [] empty_array, OpSendInitialMetadata empty_array 0]]"
proof -
  obtain f w1 where w1: "accept_call core call w = Ret (Some f, w1)" "0 < w_ref_cnt w1"
    "call_log call w1 = call_log call w @ [[OpRecvCloseOnServer]]"
    using accept_call_log [OF assms(1,2)] assms(2) by metis
  with call_abort_log [OF assms(1) w1(2), of call "status_new UNIMPLEMENTED"] assms(3) show ?thesis
    by (auto simp: execute_unimplemented_def request_ctx_call_def status_new_def with_message_def with_details_def)
qed

lemma request_resolve_unary:
  assumes "rc_request_call r = Some rc" "rq_call (rc_ctx r) = Some call" "core_accepts core"
    and "rcc_registry rc (request_method (rc_ctx r)) = Some h" "h_method_type h \<in> {Unary, ServerStreaming}"
  shows "\<exists>w. request_resolve convert core req True r s =
           Ret (s\<lparr>qs_world := w, qs_tags := qs_tags s @ [UnaryRequest (unary_request_new (r\<lparr>rc_request_call := None\<rparr>) rc)]\<rparr>)
         \<and> call_log call w = call_log call (qs_world s) @ [[OpRecvMessage]]"
proof (intro exI conjI)
  let ?w = "(qs_world s)\<lparr>w_batches := w_batches (qs_world s) @ [\<lparr>br_call = call, br_ops = call_recv_message,
    br_tag = UnaryRequestTag, br_ref_cnt = w_ref_cnt (qs_world s)\<rparr>]\<rparr>"
  show "request_resolve convert core req True r s =
      Ret (s\<lparr>qs_world := ?w, qs_tags := qs_tags s @ [UnaryRequest (unary_request_new (r\<lparr>rc_request_call := None\<rparr>) rc)]\<rparr>)"
    using assms by (simp add: request_resolve_def handle_stream_req_def handle_unary_req_def Let_def core_accepts_def)
  show "call_log call ?w = call_log call (qs_world s) @ [[OpRecvMessage]]"
    by (simp add: call_recv_message_def call_log_def)
qed


text \<open>
  When the message of a single-message call has arrived, the handler is called with it,
  once, unless a checker aborts the call; without a message the call is answered with an
  INTERNAL status and the handler is not called. Either way the slot is requested anew.
\<close>

theorem unary_dispatch:
  assumes rc: "ur_request_call u = Some rc" and call: "rq_call (rc_ctx (ur_request u)) = Some call"
    and h: "rcc_registry rc (request_method (rc_ctx (ur_request u))) = Some h"
    and core: "core_accepts core" and alive: "0 < w_ref_cnt (qs_world s)"
  shows "case bc_recv_message (ur_batch u) of
     None \<Rightarrow> \<exists>w. unary_request_resolve convert core req open_reader True u s = request_call req rc (s\<lparr>qs_world := w\<rparr>)
       \<and> call_log call w = call_log call (qs_world s) @
           [[OpSendStatusFromServer 13 ''No payload'' empty_array, OpSendInitialMetadata empty_array 0]]
   | Some buf \<Rightarrow> (\<forall>m. open_reader buf = Ret m \<and>
         fst (run_checkers (rcc_checkers rc) (rpc_context_new convert (rc_ctx (ur_request u))) (qs_user s)) = None \<longrightarrow>
       unary_request_resolve convert core req open_reader True u s =
         obind (h_cb h (rpc_context_new convert (rc_ctx (ur_request u))) (Some m)
                 (snd (run_checkers (rcc_checkers rc) (rpc_context_new convert (rc_ctx (ur_request u))) (qs_user s)), qs_world s))
           (\<lambda>(u, w). request_call req rc (s\<lparr>qs_user := u, qs_world := w\<rparr>)))"
  using assms
  by (auto simp: unary_request_resolve_def recv_message_def take_recv_message_def handle_unary_def execute_def Let_def
      request_ctx_call_def call_abort_def cq_borrow_eq cq_release_eq core_accepts_def call_send_status_from_server_def
      call_log_def array_move_None with_message_def with_details_def split: option.splits prod.splits)

definition sample_request :: "string \<Rightarrow> (nat, unit) request" where
  "sample_request m = \<lparr>rc_ctx = request_ctx_create\<lparr>rq_call := Some 7, rq_method := Refcounted 1 (length m) m\<rparr>,
     rc_request_call = Some sample_rcc\<rparr>"

lemma sample_request_method [simp]: "request_method (rc_ctx (sample_request m)) = m"
  by (simp add: sample_request_def request_method_def as_slice_def)


theorem unary_dispatch_witness:
  "unary_request_resolve (\<lambda>t _. t) ok_core (\<lambda>_. GRPC_CALL_OK) Ret True
       \<lparr>ur_request = sample_request ''/m'', ur_request_call = Some sample_rcc, ur_batch = batch_context_create\<lparr>bc_recv_message := Some ()\<rparr>\<rparr>
       sample_queue
     = request_call (\<lambda>_. GRPC_CALL_OK) sample_rcc (sample_queue\<lparr>qs_user := 1\<rparr>)"
proof -
  let ?u = "\<lparr>ur_request = sample_request ''/m'', ur_request_call = Some sample_rcc, ur_batch = batch_context_create\<lparr>bc_recv_message := Some ()\<rparr>\<rparr>"
  have hyps: "ur_request_call ?u = Some sample_rcc" "rq_call (rc_ctx (ur_request ?u)) = Some 7"
    "rcc_registry sample_rcc (request_method (rc_ctx (ur_request ?u))) =
       Some \<lparr>h_method_type = Unary, h_cb = (\<lambda>_ _ (u, w). Ret (Suc u, w))\<rparr>"
    "0 < w_ref_cnt (qs_world sample_queue)"
    by (simp_all add: sample_request_def [of "''/m''"] request_method_def as_slice_def sample_queue_def world_new_def sample_rcc_def)
  from unary_dispatch [OF hyps(1-3) ok_core_accepts hyps(4), of "\<lambda>t _. t" "\<lambda>_. GRPC_CALL_OK" Ret]
  show ?thesis by (simp add: sample_rcc_def sample_queue_def)
qed

end
