(* ===== verification/Grpc_Env.thy ===== *)
theory Grpc_Env
  imports Grpc_Server "HOL-Library.Multiset"
begin

text \<open>
  The environment of \<^verbatim>\<open>src/env.rs\<close>: the threads that poll the completion queues,
  each running one event loop, and the choice of a queue for a new channel. The tags that the
  loop takes from the queue are resolved as in \<^verbatim>\<open>src/task/mod.rs\<close>.
\<close>

section \<open>Resolving a tag\<close>

text \<open>
  The state of a polling thread: its part of the server with the world, the handles of
  actions, and the work pushed by the tasks it runs. \<open>run_task\<close> resolves the tag of a
  spawned task, \<^verbatim>\<open>executor::resolve\<close>.
\<close>

record ('e, 'm, 'b, 'w) poll_thread =
  pt_queue :: "('e, 'm, 'b) queue_sys"
  pt_actions :: "nat \<Rightarrow> bool notify_handle"
  pt_work :: "'w work_queue"

definition call_tag_resolve ::
  "(gpr_timespec \<Rightarrow> gpr_clock_type \<Rightarrow> gpr_timespec) \<Rightarrow> 'm core \<Rightarrow> (('e, 'm, 'b) queue_sys \<Rightarrow> grpc_call_error) \<Rightarrow> ('b \<Rightarrow> 'm outcome)
     \<Rightarrow> (nat \<Rightarrow> bool \<Rightarrow> ('e, 'm, 'b, 'w) poll_thread \<Rightarrow> ('e, 'm, 'b, 'w) poll_thread outcome) \<Rightarrow> ('e, 'm, 'b) tag \<Rightarrow> bool
     \<Rightarrow> ('e, 'm, 'b, 'w) poll_thread \<Rightarrow> ('e, 'm, 'b, 'w) poll_thread outcome" where
  "call_tag_resolve convert core req open_reader run_task tag success s = (case tag of
     Batch prom \<Rightarrow> obind (complete_batch open_reader (bp_ty prom) (bp_inner prom) (bp_ctx prom) success (qs_world (pt_queue s)))
                    (\<lambda>(_, w). Ret (s\<lparr>pt_queue := (pt_queue s)\<lparr>qs_world := w\<rparr>\<rparr>))
   | Request cb \<Rightarrow> obind (request_resolve convert core req success cb (pt_queue s)) (\<lambda>q. Ret (s\<lparr>pt_queue := q\<rparr>))
   | UnaryRequest cb \<Rightarrow> obind (unary_request_resolve convert core req open_reader success cb (pt_queue s)) (\<lambda>q. Ret (s\<lparr>pt_queue := q\<rparr>))
   | CallTag.Abort _ \<Rightarrow> Ret s
   | Action a \<Rightarrow> Ret (s\<lparr>pt_actions := (pt_actions s)(a := snd (action_resolve success (pt_actions s a)))\<rparr>)
   | Spawn task \<Rightarrow> run_task task success s)"

section \<open>The event loop\<close>

datatype 't event = GRPC_QUEUE_SHUTDOWN | GRPC_QUEUE_TIMEOUT | GRPC_OP_COMPLETE 't bool

text \<open>
  \<^verbatim>\<open>while let Some(work) = cq.worker.pop_work()\<close>: finishing work may push more of it,
  so the loop need not end.
\<close>

partial_function (option) run_work ::
  "('w \<Rightarrow> ('e, 'm, 'b, 'w) poll_thread \<Rightarrow> ('e, 'm, 'b, 'w) poll_thread outcome) \<Rightarrow> ('e, 'm, 'b, 'w) poll_thread
     \<Rightarrow> ('e, 'm, 'b, 'w) poll_thread outcome option" where
  "run_work finish s = (case pop_work (pt_work s) of
     (None, q) \<Rightarrow> Some (Ret (s\<lparr>pt_work := q\<rparr>))
   | (Some w, q) \<Rightarrow> (case finish w (s\<lparr>pt_work := q\<rparr>) of
       Panic m \<Rightarrow> Some (Panic m)
     | Ret s \<Rightarrow> run_work finish s))"

text \<open>The loop over the events the queue delivers; \<open>True\<close> once it has seen the shutdown.\<close>

fun poll_queue ::
  "('t \<Rightarrow> bool \<Rightarrow> ('e, 'm, 'b, 'w) poll_thread \<Rightarrow> ('e, 'm, 'b, 'w) poll_thread outcome)
     \<Rightarrow> ('w \<Rightarrow> ('e, 'm, 'b, 'w) poll_thread \<Rightarrow> ('e, 'm, 'b, 'w) poll_thread outcome)
     \<Rightarrow> 't event list \<Rightarrow> ('e, 'm, 'b, 'w) poll_thread \<Rightarrow> (bool \<times> ('e, 'm, 'b, 'w) poll_thread) outcome option" where
  "poll_queue resolve finish [] s = Some (Ret (False, s))"
| "poll_queue resolve finish (GRPC_QUEUE_SHUTDOWN # es) s = Some (Ret (True, s))"
| "poll_queue resolve finish (GRPC_QUEUE_TIMEOUT # es) s = poll_queue resolve finish es s"
| "poll_queue resolve finish (GRPC_OP_COMPLETE tag success # es) s = (case resolve tag success s of
     Panic m \<Rightarrow> Some (Panic m)
   | Ret s \<Rightarrow> (case run_work finish s of
       None \<Rightarrow> None
     | Some (Panic m) \<Rightarrow> Some (Panic m)
     | Some (Ret s) \<Rightarrow> poll_queue resolve finish es s))"

section \<open>The environment\<close>

record env_builder =
  eb_cq_count :: nat
  eb_name_prefix :: "string option"

text \<open>\<open>cores\<close> is the number of processors the core counts.\<close>

definition env_builder_new :: "nat \<Rightarrow> env_builder" where
  "env_builder_new cores = \<lparr>eb_cq_count = cores, eb_name_prefix = None\<rparr>"

definition cq_count :: "nat \<Rightarrow> env_builder \<Rightarrow> env_builder outcome" where
  "cq_count cnt self = obind (rust_assert (0 < cnt) ''assertion failed: count > 0'') (\<lambda>_. Ret (self\<lparr>eb_cq_count := cnt\<rparr>))"

definition name_prefix :: "string \<Rightarrow> env_builder \<Rightarrow> env_builder" where
  "name_prefix prefix self = self\<lparr>eb_name_prefix := Some prefix\<rparr>"

record 'q environment =
  env_cqs :: "'q list"
  env_idx :: u64

text \<open>
  \<^verbatim>\<open>build\<close>: the names of the threads, and the queues in the order in which the threads
  sent them back, one per thread.
\<close>

definition thread_names :: "env_builder \<Rightarrow> string option list" where
  "thread_names self = map (\<lambda>i. map_option (\<lambda>prefix. prefix @ ''-'' @ show_nat i) (eb_name_prefix self)) [0..<eb_cq_count self]"

definition env_build :: "(nat \<Rightarrow> 'q) \<Rightarrow> nat list \<Rightarrow> env_builder \<Rightarrow> 'q environment" where
  "env_build queue_of order self = \<lparr>env_cqs = map queue_of (take (eb_cq_count self) order), env_idx = 0\<rparr>"

definition environment_new :: "nat \<Rightarrow> (nat \<Rightarrow> 'q) \<Rightarrow> nat list \<Rightarrow> nat \<Rightarrow> 'q environment outcome" where
  "environment_new cores queue_of order cnt =
     obind (rust_assert (0 < cnt) ''assertion failed: cq_count > 0'') (\<lambda>_.
     obind (cq_count cnt (name_prefix ''grpc-poll'' (env_builder_new cores))) (\<lambda>b.
     Ret (env_build queue_of order b)))"

definition pick_cq :: "'q environment \<Rightarrow> 'q outcome \<times> 'q environment" where
  "pick_cq self =
     (let idx = env_idx self; self' = self\<lparr>env_idx := idx + 1\<rparr>; n = length (env_cqs self) in
      (if n = 0 then Panic ''attempt to calculate the remainder with a divisor of zero''
       else Ret (env_cqs self ! (unat idx mod n)), self'))"

fun pick_cqs :: "nat \<Rightarrow> 'q environment \<Rightarrow> 'q outcome list" where
  "pick_cqs 0 self = []"
| "pick_cqs (Suc k) self = (case pick_cq self of (q, self) \<Rightarrow> q # pick_cqs k self)"

definition environment_drop :: "'m world environment \<Rightarrow> 'm world environment" where
  "environment_drop self = self\<lparr>env_cqs := map (\<lambda>w. w\<lparr>w_ref_cnt := snd (the (shutdown [False] (w_ref_cnt w))),
     w_core_shutdowns := w_core_shutdowns w + of_bool (fst (the (shutdown [False] (w_ref_cnt w))) = Some True)\<rparr>) (env_cqs self)\<rparr>"

lemma pick_cqs_eq:
  assumes "env_cqs self \<noteq> []" "unat (env_idx self) + k \<le> 2 ^ 64"
  shows "pick_cqs k self = map (\<lambda>j. Ret (env_cqs self ! ((unat (env_idx self) + j) mod length (env_cqs self)))) [0..<k]"
  using assms
proof (induction k arbitrary: self)
  case (Suc k)
  let ?self = "self\<lparr>env_idx := env_idx self + 1\<rparr>"
  have nxt: "unat (env_idx self + 1) = Suc (unat (env_idx self))" if "k \<noteq> 0"
    using Suc.prems(2) that by (subst unat_word_ariths) simp
  have "pick_cqs k ?self = map (\<lambda>j. Ret (env_cqs self ! ((Suc (unat (env_idx self)) + j) mod length (env_cqs self)))) [0..<k]"
  proof (cases "k = 0")
    case False
    with Suc.IH [of ?self] Suc.prems nxt show ?thesis by simp
  qed simp
  moreover have "map (\<lambda>j. Ret (env_cqs self ! ((unat (env_idx self) + j) mod length (env_cqs self)))) [0..<Suc k] =
      Ret (env_cqs self ! (unat (env_idx self) mod length (env_cqs self))) #
      map (\<lambda>j. Ret (env_cqs self ! ((Suc (unat (env_idx self)) + j) mod length (env_cqs self)))) [0..<k]"
    by (simp add: map_upt_Suc del: upt_Suc)
  ultimately show ?case using Suc.prems(1) by (simp add: pick_cq_def Let_def del: upt_Suc)
qed simp

lemma rotate_map: "map (\<lambda>j. xs ! ((i + j) mod length xs)) [0..<length xs] = rotate i xs"
  by (rule nth_equalityI) (simp_all add: nth_rotate ac_simps)

lemma mset_rotate_once: "mset (rotate1 xs) = mset xs"
  by (cases xs) simp_all

lemma mset_rotate_many: "mset (rotate n xs) = mset xs"
  by (induction n) (simp_all add: mset_rotate_once)

section \<open>The work is done after every event\<close>

text \<open>
  The loop over the pending work ends with an empty queue when finishing work cannot go on
  for ever: every piece takes some \<open>rank\<close> of the thread down.
\<close>

lemma pop_work_cases:
  "pop_work q = (None, q') \<Longrightarrow> wq_pending q = [] \<and> wq_pending q' = []"
  by (auto simp: pop_work_def Let_def split: if_splits)

lemma run_work_ends:
  fixes rank :: "('e, 'm, 'b, 'w) poll_thread \<Rightarrow> nat"
  assumes dec: "\<And>w s q. pop_work (pt_work s) = (Some w, q) \<Longrightarrow> \<exists>s'. finish w (s\<lparr>pt_work := q\<rparr>) = Ret s' \<and> rank s' < rank s"
  shows "\<exists>s'. run_work finish s = Some (Ret s') \<and> wq_pending (pt_work s') = []"
proof (induction "rank s" arbitrary: s rule: less_induct)
  case less
  obtain r q where r: "pop_work (pt_work s) = (r, q)" by fastforce
  show ?case
  proof (cases r)
    case None
    with r pop_work_cases [of "pt_work s" q] show ?thesis by (simp add: run_work.simps)
  next
    case (Some w)
    with dec [of s w q] r obtain s' where "finish w (s\<lparr>pt_work := q\<rparr>) = Ret s'" "rank s' < rank s" by auto
    with less [of s'] r Some show ?thesis by (simp add: run_work.simps [of finish s])
  qed
qed

section \<open>Properties\<close>




definition idle_thread :: "(unit, unit, unit, nat) poll_thread" where
  "idle_thread = \<lparr>pt_queue = \<lparr>qs_user = (), qs_world = world_new, qs_shutdown = False, qs_tags = []\<rparr>,
     pt_actions = (\<lambda>_. notify_new), pt_work = work_queue_new 0\<rparr>"


end
