(* ===== verification/Grpc_Client.thy ===== *)
theory Grpc_Client
  imports Grpc_Stream
begin

text \<open>
  \<^verbatim>\<open>src/call/client.rs\<close>: call options, the four ways to start a call, and the
  receivers and sinks that a client gets. A call object of the core is a number; whether
  the core's channel creates one is the argument \<open>mk_call\<close>.
\<close>

section \<open>Call options\<close>

definition GRPC_INITIAL_METADATA_IDEMPOTENT_REQUEST :: u32 where
  "GRPC_INITIAL_METADATA_IDEMPOTENT_REQUEST = 16"

definition GRPC_INITIAL_METADATA_WAIT_FOR_READY :: u32 where
  "GRPC_INITIAL_METADATA_WAIT_FOR_READY = 32"

definition GRPC_INITIAL_METADATA_CACHEABLE_REQUEST :: u32 where
  "GRPC_INITIAL_METADATA_CACHEABLE_REQUEST = 64"

record call_option =
  co_timeout :: "nat option"
  co_write_flags :: u32
  co_call_flags :: u32
  co_headers :: "metadata option"

definition call_option_default :: call_option where
  "call_option_default = \<lparr>co_timeout = None, co_write_flags = 0, co_call_flags = 0, co_headers = None\<rparr>"

definition idempotent :: "call_option \<Rightarrow> bool \<Rightarrow> call_option" where
  "idempotent self is_idempotent = self\<lparr>co_call_flags :=
     change_flag (co_call_flags self) GRPC_INITIAL_METADATA_IDEMPOTENT_REQUEST is_idempotent\<rparr>"

definition wait_for_ready :: "call_option \<Rightarrow> bool \<Rightarrow> call_option" where
  "wait_for_ready self wait = self\<lparr>co_call_flags :=
     change_flag (co_call_flags self) GRPC_INITIAL_METADATA_WAIT_FOR_READY wait\<rparr>"

definition cacheable :: "call_option \<Rightarrow> bool \<Rightarrow> call_option" where
  "cacheable self is_cacheable = self\<lparr>co_call_flags :=
     change_flag (co_call_flags self) GRPC_INITIAL_METADATA_CACHEABLE_REQUEST is_cacheable\<rparr>"

definition opt_write_flags :: "call_option \<Rightarrow> u32 \<Rightarrow> call_option" where
  "opt_write_flags self flags = self\<lparr>co_write_flags := flags\<rparr>"

definition opt_timeout :: "call_option \<Rightarrow> nat \<Rightarrow> call_option" where
  "opt_timeout self timeout = self\<lparr>co_timeout := Some timeout\<rparr>"

definition opt_headers :: "call_option \<Rightarrow> metadata \<Rightarrow> call_option" where
  "opt_headers self meta = self\<lparr>co_headers := Some meta\<rparr>"

section \<open>Starting calls\<close>

text \<open>
  \<^verbatim>\<open>Channel::create_call\<close> of \<^verbatim>\<open>src/channel.rs\<close>: the queue is borrowed
  while the core creates the call; a null call is a panic.
\<close>

definition create_call :: "('m world \<Rightarrow> nat option) \<Rightarrow> 'm world \<Rightarrow> (nat result \<times> 'm world) outcome" where
  "create_call mk_call = with_cq_ref (\<lambda>w. case mk_call w of
     None \<Rightarrow> Panic ''assertion failed: !call.is_null()''
   | Some call \<Rightarrow> Ret (call, w))"

definition unary_async ::
  "slice_core \<Rightarrow> ('m world \<Rightarrow> nat option) \<Rightarrow> 'm core \<Rightarrow> ('t \<Rightarrow> grpc_slice \<Rightarrow> grpc_slice outcome) \<Rightarrow> 't \<Rightarrow> call_option
     \<Rightarrow> 'm world \<Rightarrow> ((nat \<times> nat) result \<times> 'm world) outcome" where
  "unary_async c mk_call core ser req opt w =
     obind (create_call mk_call w) (\<lambda>(r, w). case r of
       Inl e \<Rightarrow> Ret (Inl e, w)
     | Inr call \<Rightarrow>
         obind (ser req (slice_default c)) (\<lambda>payload.
         obind (check_run core call CheckRead
                  (call_start_unary payload (co_write_flags opt) (co_headers opt) (co_call_flags opt)) w) (\<lambda>(cq_f, w).
         Ret (Inr (call, cq_f), w))))"

definition client_streaming ::
  "('m world \<Rightarrow> nat option) \<Rightarrow> 'm core \<Rightarrow> call_option \<Rightarrow> 'm world \<Rightarrow> (share_call result \<times> 'm world) outcome" where
  "client_streaming mk_call core opt w =
     obind (create_call mk_call w) (\<lambda>(r, w). case r of
       Inl e \<Rightarrow> Ret (Inl e, w)
     | Inr call \<Rightarrow>
         obind (check_run core call CheckRead
                  (call_start_client_streaming (co_headers opt) (co_call_flags opt)) w) (\<lambda>(cq_f, w).
         Ret (Inr (share_call_new call cq_f), w)))"

definition server_streaming ::
  "slice_core \<Rightarrow> ('m world \<Rightarrow> nat option) \<Rightarrow> 'm core \<Rightarrow> ('t \<Rightarrow> grpc_slice \<Rightarrow> grpc_slice outcome) \<Rightarrow> 't \<Rightarrow> call_option
     \<Rightarrow> 'm world \<Rightarrow> (share_call result \<times> 'm world) outcome" where
  "server_streaming c mk_call core ser req opt w =
     obind (create_call mk_call w) (\<lambda>(r, w). case r of
       Inl e \<Rightarrow> Ret (Inl e, w)
     | Inr call \<Rightarrow>
         obind (ser req (slice_default c)) (\<lambda>payload.
         obind (check_run core call Finish
                  (call_start_server_streaming payload (co_write_flags opt) (co_headers opt) (co_call_flags opt)) w) (\<lambda>(cq_f, w).
         obind (check_run core call Finish call_recv_initial_metadata w) (\<lambda>(_, w).
         Ret (Inr (share_call_new call cq_f), w)))))"

definition duplex_streaming ::
  "('m world \<Rightarrow> nat option) \<Rightarrow> 'm core \<Rightarrow> call_option \<Rightarrow> 'm world \<Rightarrow> (share_call result \<times> 'm world) outcome" where
  "duplex_streaming mk_call core opt w =
     obind (create_call mk_call w) (\<lambda>(r, w). case r of
       Inl e \<Rightarrow> Ret (Inl e, w)
     | Inr call \<Rightarrow>
         obind (check_run core call Finish
                  (call_start_duplex_streaming (co_headers opt) (co_call_flags opt)) w) (\<lambda>(cq_f, w).
         obind (check_run core call Finish call_recv_initial_metadata w) (\<lambda>(_, w).
         Ret (Inr (share_call_new call cq_f), w))))"

section \<open>Single responses\<close>

text \<open>
  \<^verbatim>\<open>ClientUnaryReceiver::poll\<close>; \<open>de\<close> deserializes the response. The message
  is unwrapped: an OK status without a message is a panic.
\<close>

definition client_unary_poll :: "('m \<Rightarrow> 't result) \<Rightarrow> waker \<Rightarrow> nat \<Rightarrow> 'm world \<Rightarrow> ('t result poll \<times> 'm world) outcome" where
  "client_unary_poll de cx resp_f w =
     obind (future_poll resp_f cx w) (\<lambda>(p, w). case p of
       Pending \<Rightarrow> Ret (Pending, w)
     | Ready (Inl e) \<Rightarrow> Ret (Ready (Inl e), w)
     | Ready (Inr data) \<Rightarrow> obind (unwrap data) (\<lambda>m. Ret (Ready (de m), w)))"

text \<open>\<^verbatim>\<open>ClientCStreamReceiver\<close>: its flag \<^verbatim>\<open>finished\<close> and the shared call.\<close>

definition client_cstream_poll ::
  "('m \<Rightarrow> 't result) \<Rightarrow> waker \<Rightarrow> bool \<Rightarrow> share_call \<Rightarrow> 'm world \<Rightarrow> ('t result poll \<times> bool \<times> share_call \<times> 'm world) outcome" where
  "client_cstream_poll de cx finished sc w =
     obind (poll_finish cx sc w) (\<lambda>(p, sc, w). case p of
       Pending \<Rightarrow> Ret (Pending, finished, sc, w)
     | Ready (Inl e) \<Rightarrow> Ret (Ready (Inl e), finished, sc, w)
     | Ready (Inr data) \<Rightarrow> obind (unwrap data) (\<lambda>m.
         case de m of
           Inl e \<Rightarrow> Ret (Ready (Inl e), finished, sc, w)
         | Inr t \<Rightarrow> Ret (Ready (Inr t), True, sc, w)))"

definition client_cstream_drop :: "bool \<Rightarrow> share_call \<Rightarrow> 'm world \<Rightarrow> 'm world outcome" where
  "client_cstream_drop finished sc w = (if \<not> finished then call_cancel (sc_call sc) w else Ret w)"

section \<open>The sink of client streaming and duplex calls\<close>

record streaming_call_sink =
  ss_base :: sink_base
  ss_close_f :: "nat option"

definition streaming_call_sink_new :: "slice_core \<Rightarrow> streaming_call_sink" where
  "streaming_call_sink_new c = \<lparr>ss_base = sink_base_new c False, ss_close_f = None\<rparr>"

definition enhance_batch :: "streaming_call_sink \<Rightarrow> bool \<Rightarrow> streaming_call_sink" where
  "enhance_batch self flag = self\<lparr>ss_base := (ss_base self)\<lparr>sk_enhance_buffer_strategy := flag\<rparr>\<rparr>"

definition ss_drop :: "streaming_call_sink \<Rightarrow> share_call \<Rightarrow> 'm world \<Rightarrow> 'm world outcome" where
  "ss_drop self sc w = (if ss_close_f self = None then call_cancel (sc_call sc) w else Ret w)"

definition ss_poll_ready :: "waker \<Rightarrow> streaming_call_sink \<Rightarrow> 'm world \<Rightarrow> (unit result poll \<times> streaming_call_sink \<times> 'm world) outcome" where
  "ss_poll_ready cx self w =
     obind (sink_poll_ready cx (ss_base self) w) (\<lambda>(p, b, w). Ret (p, self\<lparr>ss_base := b\<rparr>, w))"

definition ss_start_send ::
  "slice_core \<Rightarrow> 'm core \<Rightarrow> ('t \<Rightarrow> grpc_slice \<Rightarrow> grpc_slice outcome) \<Rightarrow> 't \<Rightarrow> u32 \<Rightarrow> streaming_call_sink \<Rightarrow> share_call
     \<Rightarrow> 'm world \<Rightarrow> (unit result \<times> streaming_call_sink \<times> 'm world) outcome" where
  "ss_start_send c core ser msg flags self sc w = (case share_check_alive sc w of
     Inl e \<Rightarrow> Ret (Inl e, self, w)
   | Inr _ \<Rightarrow> obind (start_send c core (sc_call sc) ser msg flags (ss_base self) w)
               (\<lambda>(r, b, w). Ret (r, self\<lparr>ss_base := b\<rparr>, w)))"

definition ss_poll_flush ::
  "slice_core \<Rightarrow> 'm core \<Rightarrow> waker \<Rightarrow> streaming_call_sink \<Rightarrow> share_call \<Rightarrow> 'm world
     \<Rightarrow> (unit result poll \<times> streaming_call_sink \<times> 'm world) outcome" where
  "ss_poll_flush c core cx self sc w = (case share_check_alive sc w of
     Inl e \<Rightarrow> Ret (Ready (Inl e), self, w)
   | Inr _ \<Rightarrow> obind (sink_poll_flush c core (sc_call sc) cx (ss_base self) w)
               (\<lambda>(p, b, w). Ret (p, self\<lparr>ss_base := b\<rparr>, w)))"

text \<open>The second half of \<^verbatim>\<open>poll_close\<close>, once the close has been started.\<close>

definition ss_await_close ::
  "waker \<Rightarrow> streaming_call_sink \<Rightarrow> share_call \<Rightarrow> 'm world \<Rightarrow> (unit result poll \<times> streaming_call_sink \<times> 'm world) outcome" where
  "ss_await_close cx self sc w =
     obind (unwrap (ss_close_f self)) (\<lambda>close_f.
     obind (future_poll close_f cx w) (\<lambda>(p, w). case p of
       Pending \<Rightarrow> (case share_check_alive sc w of
                    Inl e \<Rightarrow> Ret (Ready (Inl e), self, w)
                  | Inr _ \<Rightarrow> Ret (Pending, self, w))
     | Ready (Inl e) \<Rightarrow> Ret (Ready (Inl e), self, w)
     | Ready (Inr _) \<Rightarrow> Ret (Ready (Inr ()), self, w)))"

definition ss_poll_close ::
  "'m core \<Rightarrow> waker \<Rightarrow> streaming_call_sink \<Rightarrow> share_call \<Rightarrow> 'm world
     \<Rightarrow> (unit result poll \<times> streaming_call_sink \<times> 'm world) outcome" where
  "ss_poll_close core cx self sc w =
     (if ss_close_f self = None then
        obind (ss_poll_ready cx self w) (\<lambda>(p, self, w). case p of
          Ready (Inr _) \<Rightarrow>
            obind (start_send_close_client core (sc_call sc) w) (\<lambda>(r, w). case r of
              Inl e \<Rightarrow> Ret (Ready (Inl e), self, w)
            | Inr close_f \<Rightarrow> ss_await_close cx (self\<lparr>ss_close_f := Some close_f\<rparr>) sc w)
        | _ \<Rightarrow> Ret (p, self, w))
      else ss_await_close cx self sc w)"

section \<open>Streams of responses\<close>

record response_stream =
  rs_msg_f :: "nat option"
  rs_read_done :: bool
  rs_finished :: bool

definition response_stream_new :: response_stream where
  "response_stream_new = \<lparr>rs_msg_f = None, rs_read_done = False, rs_finished = False\<rparr>"

text \<open>The first part of \<^verbatim>\<open>ResponseStreamImpl::poll\<close>: the finish of the call.\<close>

definition response_finish ::
  "waker \<Rightarrow> response_stream \<Rightarrow> share_call \<Rightarrow> 'm world \<Rightarrow> (error option \<times> response_stream \<times> share_call \<times> 'm world) outcome" where
  "response_finish cx self sc w =
     (if rs_finished self then Ret (None, self, sc, w)
      else obind (poll_finish cx sc w) (\<lambda>(p, sc, w).
        let self = self\<lparr>rs_finished := sc_finished sc\<rparr>
        in case p of
             Ready (Inl e) \<Rightarrow> Ret (Some e, self, sc, w)
           | _ \<Rightarrow> Ret (None, self, sc, w)))"

text \<open>The outstanding read at the head of the loop, \<open>Inl\<close> being an early return.\<close>

definition response_read ::
  "waker \<Rightarrow> response_stream \<Rightarrow> 'm world \<Rightarrow> (('t result option poll + 'm option) \<times> response_stream \<times> 'm world) outcome" where
  "response_read cx self w =
     (if rs_read_done self then Ret (Inr None, self, w)
      else case rs_msg_f self of
        None \<Rightarrow> Ret (Inr None, self, w)
      | Some msg_f \<Rightarrow> obind (future_poll msg_f cx w) (\<lambda>(p, w). case p of
            Pending \<Rightarrow> Ret (Inl Pending, self, w)
          | Ready (Inl e) \<Rightarrow> Ret (Inl (Ready (Some (Inl e))), self, w)
          | Ready (Inr bytes) \<Rightarrow>
              Ret (Inr bytes, if bytes = None then self\<lparr>rs_read_done := True\<rparr> else self, w)))"

lemma response_read_again:
  "response_read cx self w = Ret (Inr None, self', w') \<Longrightarrow> \<not> rs_read_done self' \<Longrightarrow> rs_msg_f self = None"
  by (auto simp: response_read_def split: if_splits option.splits obind_splits prod.splits poll.splits sum.splits)

text \<open>The loop; a second pass polls the read that the first one started.\<close>

function response_loop ::
  "'m core \<Rightarrow> ('m \<Rightarrow> 't result) \<Rightarrow> nat \<Rightarrow> waker \<Rightarrow> response_stream \<Rightarrow> 'm world
     \<Rightarrow> ('t result option poll \<times> response_stream \<times> 'm world) outcome" where
  "response_loop core de call cx self w =
     obind (response_read cx self w) (\<lambda>(got, self1, w1).
       case got of
         Inl p \<Rightarrow> Ret (p, self1, w1)
       | Inr bytes \<Rightarrow>
           if rs_read_done self1 then
             (if rs_finished self1 then Ret (Ready None, self1, w1) else Ret (Pending, self1, w1))
           else obind (start_recv_message core call w1) (\<lambda>(r, w2).
             case r of
               Inl e \<Rightarrow> Ret (Ready (Some (Inl e)), self1\<lparr>rs_msg_f := None\<rparr>, w2)
             | Inr msg_f \<Rightarrow>
                 (let self2 = self1\<lparr>rs_msg_f := Some msg_f\<rparr>
                  in case bytes of
                       Some data \<Rightarrow> Ret (Ready (Some (de data)), self2, w2)
                     | None \<Rightarrow> response_loop core de call cx self2 w2)))"
  by pat_completeness auto

termination
  by (relation "measure (\<lambda>(core, de, call, cx, self, w). if rs_msg_f self = None then 1 else 0)")
    (auto intro: response_read_again)

declare response_loop.simps [simp del]

definition response_poll ::
  "'m core \<Rightarrow> ('m \<Rightarrow> 't result) \<Rightarrow> waker \<Rightarrow> response_stream \<Rightarrow> share_call \<Rightarrow> 'm world
     \<Rightarrow> ('t result option poll \<times> response_stream \<times> share_call \<times> 'm world) outcome" where
  "response_poll core de cx self sc w =
     obind (response_finish cx self sc w) (\<lambda>(err, self, sc, w).
       case err of
         Some e \<Rightarrow> Ret (Ready (Some (Inl e)), self, sc, w)
       | None \<Rightarrow> obind (response_loop core de (sc_call sc) cx self w) (\<lambda>(p, self, w). Ret (p, self, sc, w)))"

definition response_on_drop :: "response_stream \<Rightarrow> share_call \<Rightarrow> 'm world \<Rightarrow> 'm world outcome" where
  "response_on_drop self sc w =
     (if \<not> rs_read_done self \<or> \<not> rs_finished self then call_cancel (sc_call sc) w else Ret w)"

section \<open>A stream of responses keeps the contract\<close>

text \<open>
  The state is the stream, the shared call and the world. Between polls the reads complete
  as in \<open>read_env\<close>, and the finish of the call may be resolved but is not taken.
\<close>

definition rs_env ::
  "nat \<Rightarrow> (nat \<Rightarrow> 'm option) \<Rightarrow> response_stream \<times> share_call \<times> 'm world \<Rightarrow> response_stream \<times> share_call \<times> 'm world \<Rightarrow> bool" where
  "rs_env call answer s t = (case (s, t) of ((self, sc, w), (self', sc', w')) \<Rightarrow>
     self' = self \<and> sc' = sc \<and> read_env call answer (rs_msg_f self) w w' \<and> w_next w \<le> w_next w' \<and>
     (cell_abs (w_cells w' (sc_close_f sc)) = Taken \<longrightarrow> cell_abs (w_cells w (sc_close_f sc)) = Taken))"

definition rs_inv ::
  "'m core \<Rightarrow> nat \<Rightarrow> (nat \<Rightarrow> 'm option) \<Rightarrow> nat \<Rightarrow> response_stream \<times> share_call \<times> 'm world \<Rightarrow> bool" where
  "rs_inv core call answer n s = (case s of (self, sc, w) \<Rightarrow>
     core_reads core call answer \<and> sc_call sc = call \<and>
     read_inv call answer n (rs_msg_f self) (rs_read_done self) w \<and>
     sc_close_f sc < w_next w \<and> rs_msg_f self \<noteq> Some (sc_close_f sc) \<and>
     (rs_finished self \<or> cell_abs (w_cells w (sc_close_f sc)) \<noteq> Taken))"

lemma read_inv_other_cell:
  "msg_f \<noteq> Some g \<Longrightarrow> read_inv call answer n msg_f fin (w\<lparr>w_cells := (w_cells w)(g := h)\<rparr>) = read_inv call answer n msg_f fin w"
  by (auto simp: read_inv_def split: option.splits)

lemma response_finish_good:
  assumes "rs_inv core call answer n (self, sc, w)"
  shows "\<exists>e self' sc' w'. response_finish cx self sc w = Ret (e, self', sc', w') \<and> rs_inv core call answer n (self', sc', w')"
proof (cases "rs_finished self")
  case True
  then show ?thesis using assms by (simp add: response_finish_def)
next
  case False
  let ?h = "w_cells w (sc_close_f sc)"
  have other: "read_inv call answer n (rs_msg_f self) (rs_read_done self) (w\<lparr>w_cells := (w_cells w)(sc_close_f sc := h)\<rparr>)" for h
    using assms by (auto simp: rs_inv_def read_inv_other_cell)
  show ?thesis
  proof (cases "cell_abs ?h")
    case (Waiting wk)
    then obtain h where "cq_future_poll cx ?h = Ret (Pending, h)" "cell_abs h = Waiting (Some cx)"
      using cell_pollE [of cx ?h Pending "Waiting (Some cx)"] by auto
    with False assms other show ?thesis
      by (simp add: response_finish_def poll_finish_def future_poll_def rs_inv_def Let_def)
  next
    case (Done r)
    then obtain h where "cq_future_poll cx ?h = Ret (Ready r, h)"
      using cell_pollE [of cx ?h "Ready r" Taken] by auto
    with False assms other show ?thesis
      by (cases r) (auto simp: response_finish_def poll_finish_def future_poll_def rs_inv_def Let_def split: error.splits)
  qed (use assms False in \<open>simp add: rs_inv_def\<close>)
qed

abbreviation response_good ::
  "'m core \<Rightarrow> nat \<Rightarrow> (nat \<Rightarrow> 'm option) \<Rightarrow> ('m \<Rightarrow> 't) \<Rightarrow> share_call \<Rightarrow> nat \<Rightarrow> 't result option poll \<times> response_stream \<times> 'm world \<Rightarrow> bool" where
  "response_good core call answer d sc n r \<equiv> (case r of (p, self, w) \<Rightarrow> (case p of
        Ready (Some (Inr i)) \<Rightarrow> map_option d (answer n) = Some i \<and> rs_inv core call answer (Suc n) (self, sc, w)
      | Ready None \<Rightarrow> map_option d (answer n) = None \<and> rs_inv core call answer n (self, sc, w)
      | _ \<Rightarrow> rs_inv core call answer n (self, sc, w)))"

lemma rs_inv_world:
  assumes "rs_inv core call answer n (self, sc, w)" "same_but f w w'" "f \<noteq> sc_close_f sc"
    and "read_inv call answer m msg_f fin w'" "msg_f \<noteq> Some (sc_close_f sc)"
  shows "rs_inv core call answer m (self\<lparr>rs_msg_f := msg_f, rs_read_done := fin\<rparr>, sc, w')"
  using assms by (auto simp: rs_inv_def same_but_def)

lemma response_loop_outstanding:
  assumes inv: "rs_inv core call answer n (self, sc, w)" and f: "rs_msg_f self = Some f"
  shows "\<exists>r. response_loop core (\<lambda>m. Inr (d m)) call cx self w = Ret r \<and> response_good core call answer d sc n r"
proof (cases "rs_read_done self")
  case True
  with inv show ?thesis
    by (auto simp: response_loop.simps response_read_def rs_inv_def read_inv_def)
next
  case False
  from inv f False have rd: "read_inv call answer n (Some f) False w" and reads: "core_reads core call answer"
    and ne: "f \<noteq> sc_close_f sc" and lt: "sc_close_f sc < w_next w" by (auto simp: rs_inv_def)
  have upd: "self\<lparr>rs_msg_f := Some f, rs_read_done := False\<rparr> = self" using f False by (cases self) simp
  have upd_done: "self\<lparr>rs_msg_f := Some f, rs_read_done := True\<rparr> = self\<lparr>rs_read_done := True\<rparr>" using f by (cases self) simp
  from poll_read [OF rd, of cx] consider
      (wait) w' where "future_poll f cx w = Ret (Pending, w')" "read_inv call answer n (Some f) False w'" "same_but f w w'"
    | (got) w' where "future_poll f cx w = Ret (Ready (Inr (answer n)), w')" "recv_count call w' = Suc n" "same_but f w w'"
    by blast
  then show ?thesis
  proof cases
    case wait
    have "rs_inv core call answer n (self, sc, w')" using rs_inv_world [OF inv wait(3) ne wait(2)] ne upd by simp
    with wait(1) False f show ?thesis by (simp add: response_loop.simps response_read_def)
  next
    case got
    show ?thesis
    proof (cases "answer n")
      case None
      then have "read_inv call answer n (Some f) True w'" by (simp add: read_inv_def)
      from rs_inv_world [OF inv got(3) ne this] ne
      have inv': "rs_inv core call answer n (self\<lparr>rs_read_done := True\<rparr>, sc, w')" unfolding upd_done by simp
      then show ?thesis
        using got(1) False f None by (auto simp: response_loop.simps response_read_def)
    next
      case (Some m)
      have inv': "rs_inv core call answer n (self, sc, w) \<and> sc_close_f sc < w_next w'"
        using inv lt got(3) by (auto simp: same_but_def)
      from start_read [OF reads disjI1 [OF got(2)]] show ?thesis
      proof (elim disjE conjE exE)
        assume q: "start_recv_message core call w' = Ret (Inl QueueShutdown, w')" "w_ref_cnt w' \<le> 0"
        have "rs_inv core call answer n (self\<lparr>rs_msg_f := None, rs_read_done := False\<rparr>, sc, w')"
          by (rule rs_inv_world [OF inv got(3) ne]) (use q(2) in \<open>simp_all add: read_inv_def\<close>)
        moreover have "self\<lparr>rs_msg_f := None, rs_read_done := False\<rparr> = self\<lparr>rs_msg_f := None\<rparr>"
          using False by (cases self) simp
        ultimately show ?thesis
          using got(1) False f Some q by (simp add: response_loop.simps response_read_def)
      next
        fix w2
        assume q: "start_recv_message core call w' = Ret (Inr (w_next w'), w2)"
          "read_inv call answer (Suc n) (Some (w_next w')) False w2" "same_but (w_next w') w' w2"
        have ne': "w_next w' \<noteq> sc_close_f sc" using inv' by simp
        have "rs_inv core call answer n (self, sc, w')
            \<or> cell_abs (w_cells w' (sc_close_f sc)) = cell_abs (w_cells w (sc_close_f sc))"
          using got(3) ne by (auto simp: same_but_def)
        then have close: "rs_finished self \<or> cell_abs (w_cells w2 (sc_close_f sc)) \<noteq> Taken"
          using inv got(3) q(3) ne ne' by (auto simp: rs_inv_def same_but_def)
        have "rs_inv core call answer (Suc n) (self\<lparr>rs_msg_f := Some (w_next w')\<rparr>, sc, w2)"
          using inv inv' q False ne' close by (auto simp: rs_inv_def same_but_def)
        with got(1) False f Some q show ?thesis
          by (simp add: response_loop.simps response_read_def)
      qed
    qed
  qed
qed

lemma response_loop_good:
  assumes inv: "rs_inv core call answer n (self, sc, w)"
  shows "\<exists>r. response_loop core (\<lambda>m. Inr (d m)) call cx self w = Ret r \<and> response_good core call answer d sc n r"
proof (cases "rs_msg_f self")
  case None
  show ?thesis
  proof (cases "rs_read_done self")
    case True
    with inv None show ?thesis
      by (auto simp: response_loop.simps response_read_def rs_inv_def read_inv_def)
  next
    case False
    from inv have reads: "core_reads core call answer" and lt: "sc_close_f sc < w_next w" by (auto simp: rs_inv_def)
    have "recv_count call w = n \<or> w_ref_cnt w \<le> 0" using inv None False by (simp add: rs_inv_def read_inv_def)
    from start_read [OF reads this] show ?thesis
    proof (elim disjE conjE exE)
      assume q: "start_recv_message core call w = Ret (Inl QueueShutdown, w)"
      then show ?thesis using None False inv by (simp add: response_loop.simps response_read_def rs_inv_def)
    next
      fix w2
      assume q: "start_recv_message core call w = Ret (Inr (w_next w), w2)"
        "read_inv call answer n (Some (w_next w)) False w2" "same_but (w_next w) w w2"
      let ?self = "self\<lparr>rs_msg_f := Some (w_next w)\<rparr>"
      have "self\<lparr>rs_msg_f := Some (w_next w), rs_read_done := False\<rparr> = ?self" using False by (cases self) simp
      then have "rs_inv core call answer n (?self, sc, w2)"
        using rs_inv_world [OF inv q(3) _ q(2)] lt by simp
      from response_loop_outstanding [OF this, of "w_next w" d cx] show ?thesis
        using q(1) None False by (simp add: response_loop.simps [of _ _ _ _ self] response_read_def)
    qed
  qed
qed (use response_loop_outstanding [OF inv] in blast)

interpretation rss: message_stream "\<lambda>cx s. response_poll core (\<lambda>m. Inr (d m)) cx (fst s) (fst (snd s)) (snd (snd s))"
  "rs_env call answer" "\<lambda>n. map_option d (answer n)" "rs_inv core call answer" for core call answer d
proof
  fix n s cx
  assume inv: "rs_inv core call answer n s"
  obtain self sc w where s: "s = (self, sc, w)" by (cases s)
  from response_finish_good [OF inv [unfolded s], of cx] obtain e self1 sc1 w1 where
    fin: "response_finish cx self sc w = Ret (e, self1, sc1, w1)" and inv1: "rs_inv core call answer n (self1, sc1, w1)" by blast
  from inv1 have call: "sc_call sc1 = call" by (simp add: rs_inv_def)
  from response_loop_good [OF inv1, of d cx] obtain p self2 w2 where
    "response_loop core (\<lambda>m. Inr (d m)) call cx self1 w1 = Ret (p, self2, w2)"
    "response_good core call answer d sc1 n (p, self2, w2)" by auto
  with fin inv1 call
  have "\<exists>p s'. response_poll core (\<lambda>m. Inr (d m)) cx self sc w = Ret (p, s') \<and> (case p of
        Ready (Some (Inr i)) \<Rightarrow> map_option d (answer n) = Some i \<and> rs_inv core call answer (Suc n) s'
      | Ready None \<Rightarrow> map_option d (answer n) = None \<and> rs_inv core call answer n s'
      | _ \<Rightarrow> rs_inv core call answer n s')"
    by (cases e) (simp_all add: response_poll_def)
  then show "\<exists>p s'. response_poll core (\<lambda>m. Inr (d m)) cx (fst s) (fst (snd s)) (snd (snd s)) = Ret (p, s') \<and> (case p of
        Ready (Some (Inr i)) \<Rightarrow> map_option d (answer n) = Some i \<and> rs_inv core call answer (Suc n) s'
      | Ready None \<Rightarrow> map_option d (answer n) = None \<and> rs_inv core call answer n s'
      | _ \<Rightarrow> rs_inv core call answer n s')"
    by (simp add: s)
next
  fix n s t
  assume "rs_inv core call answer n s" "rs_env call answer s t"
  then show "rs_inv core call answer n t"
    using read_env_keeps by (fastforce simp: rs_inv_def rs_env_def)
qed

section \<open>Properties\<close>

text \<open>
  C3. A stream of responses yields the decoded messages of the call in order, each once,
  whatever the timing of polls, completed reads and the end of the call: it never panics,
  and it ends only after the last message.
\<close>

theorem response_stream_in_order:
  assumes "core_reads core (sc_call sc) answer" "recv_count (sc_call sc) w = 0"
    and "sc_close_f sc < w_next w" "cell_abs (w_cells w (sc_close_f sc)) \<noteq> Taken"
    and "stream_run (\<lambda>cx s. response_poll core (\<lambda>m. Inr (d m)) cx (fst s) (fst (snd s)) (snd (snd s)))
           (rs_env (sc_call sc) answer) (response_stream_new, sc, w) outs t"
  shows "map Some outs = map (\<lambda>n. map_option d (answer n)) [0..<length outs]
    \<and> (\<exists>r. response_poll core (\<lambda>m. Inr (d m)) cx (fst t) (fst (snd t)) (snd (snd t)) = Ret r)
    \<and> (response_poll core (\<lambda>m. Inr (d m)) cx (fst t) (fst (snd t)) (snd (snd t)) = Ret (Ready None, u)
        \<longrightarrow> answer (length outs) = None)"
proof -
  have inv: "rs_inv core (sc_call sc) answer 0 (response_stream_new, sc, w)"
    using assms by (simp add: rs_inv_def response_stream_new_def read_inv_def)
  show ?thesis
    using rss.run_inv [OF assms(5) inv] rss.run_no_panic [OF assms(5) inv] rss.run_end [OF assms(5) inv, of cx u]
    by auto
qed

definition started_world :: "'m world" where
  "started_world = world_new\<lparr>w_next := 1\<rparr>"

lemma sample_response_poll:
  "\<exists>t. response_poll (read_core ''a'') (\<lambda>m. Inr m) 0 response_stream_new (share_call_new 5 0) started_world
     = Ret (Ready (Some (Inr (CHR ''a''))), t)"
  by (simp add: response_poll_def response_finish_def poll_finish_def share_call_new_def response_loop.simps response_read_def
      response_stream_new_def start_recv_message_def start_batch_eq read_core_def list_answer_def recv_count_def started_world_def
      world_new_def before_batch_def after_batch_def future_poll_def cq_future_poll_def notify_new_def)

theorem response_stream_in_order_witness:
  "\<exists>t. stream_run (\<lambda>cx s. response_poll (read_core ''a'') (\<lambda>m. Inr (id m)) cx (fst s) (fst (snd s)) (snd (snd s)))
         (rs_env 5 (list_answer ''a'')) (response_stream_new, share_call_new 5 0, started_world) ''a'' t
    \<and> (\<exists>r. response_poll (read_core ''a'') (\<lambda>m. Inr (id m)) 0 (fst t) (fst (snd t)) (snd (snd t)) = Ret r)"
proof -
  let ?poll = "\<lambda>cx s. response_poll (read_core ''a'') (\<lambda>m. Inr (id m)) cx (fst s) (fst (snd s)) (snd (snd s))"
  let ?s = "(response_stream_new, share_call_new 5 0, started_world :: char world)"
  obtain t where poll: "?poll 0 ?s = Ret (Ready (Some (Inr (CHR ''a''))), t)"
    using sample_response_poll by auto
  have run: "stream_run ?poll (rs_env 5 (list_answer ''a'')) ?s ''a'' t"
    using stream_run.run_poll [of ?poll "rs_env 5 (list_answer ''a'')" ?s "[]" ?s 0, OF stream_run.run_start poll] by simp
  have hyps: "core_reads (read_core ''a'') (sc_call (share_call_new 5 0)) (list_answer ''a'')"
    "recv_count (sc_call (share_call_new 5 0)) (started_world :: char world) = 0"
    "sc_close_f (share_call_new 5 0) < w_next (started_world :: char world)"
    "cell_abs (w_cells (started_world :: char world) (sc_close_f (share_call_new 5 0))) \<noteq> Taken"
    "stream_run ?poll (rs_env (sc_call (share_call_new 5 0)) (list_answer ''a'')) ?s ''a'' t"
    using run by (simp_all add: read_core_reads recv_count_def started_world_def world_new_def share_call_new_def cell_abs_def notify_new_def)
  note ord = response_stream_in_order [OF hyps, of 0]
  show ?thesis by (rule exI [of _ t]) (use ord run in simp)
qed

text \<open>A core that accepts a batch and finishes it later, and one call that a channel creates.\<close>

definition core_later :: "'m core \<Rightarrow> bool" where
  "core_later core \<longleftrightarrow> (\<forall>w call ops. core w call ops = (GRPC_CALL_OK, None))"

lemma create_call_open:
  assumes "0 < w_ref_cnt w" "\<And>w. mk_call w = Some call"
  shows "create_call mk_call w = Ret (Inr call, w)"
  using assms by (cases w) (simp add: create_call_def with_cq_ref_def cq_borrow_eq cq_release_eq)

lemma check_run_later:
  assumes "core_later core"
  shows "\<exists>w' b. check_run core call bt ops w = Ret (w_next w, w') \<and> w_batches w' = w_batches w @ [b]
    \<and> br_call b = call \<and> br_ops b = ops \<and> br_ref_cnt b = w_ref_cnt w \<and> w_cells w' (w_next w) = notify_new"
  using assms by (simp add: check_run_def core_later_def Let_def notify_new_def)

lemma unary_call_flow:
  assumes "slice_core_ok c" "core_later core" "ser_ok ser enc" "0 < w_ref_cnt w" "\<And>w. mk_call w = Some call"
    and "bc_recv_message ctx = Some buf" "open_reader buf = Ret m"
  shows "\<exists>w1 w2 w3 w4 s b. unary_async c mk_call core ser req opt w = Ret (Inr (call, w_next w), w1)
    \<and> w_batches w1 = w_batches w @ [b] \<and> w_batches w4 = w_batches w1 \<and> br_call b = call \<and> as_slice s = enc req
    \<and> br_ops b = call_start_unary s (co_write_flags opt) (co_headers opt) (co_call_flags opt)
    \<and> client_unary_poll de cx (w_next w) w1 = Ret (Pending, w2)
    \<and> complete_batch open_reader CheckRead (w_next w) ctx True w2 = Ret (Some cx, w3)
    \<and> client_unary_poll de cx' (w_next w) w3 =
        Ret (Ready (if code (rpc_status ctx) = OK then de m else Inl (RpcFailure (rpc_status ctx))), w4)"
proof -
  have "slice_wf (slice_default c)" using assms(1) by (simp add: slice_core_ok_def slice_default_def)
  then obtain s where s: "ser req (slice_default c) = Ret s" "as_slice s = enc req"
    using assms(3) unfolding ser_ok_def by meson
  let ?ops = "call_start_unary s (co_write_flags opt) (co_headers opt) (co_call_flags opt)"
  obtain w1 b where w1: "check_run core call CheckRead ?ops w = Ret (w_next w, w1)" "w_batches w1 = w_batches w @ [b]"
      "br_call b = call" "br_ops b = ?ops" "w_cells w1 (w_next w) = notify_new"
    using check_run_later [OF assms(2)] by blast
  let ?f = "w_next w"
  have start: "unary_async c mk_call core ser req opt w = Ret (Inr (call, ?f), w1)"
    using create_call_open [OF assms(4,5)] s(1) w1(1) by (simp add: unary_async_def)
  let ?w2 = "w1\<lparr>w_cells := (w_cells w1)(?f := \<lparr>nh_result = None, nh_waker = Some cx, nh_stale = False\<rparr>)\<rparr>"
  have p1: "client_unary_poll de cx ?f w1 = Ret (Pending, ?w2)"
    using w1(5) by (simp add: client_unary_poll_def future_poll_def cq_future_poll_def notify_new_def)
  have "batch_resolve open_reader \<lparr>bp_ty = CheckRead, bp_ctx = ctx, bp_inner = ?f\<rparr> True h = Ret (set_result
      (if code (rpc_status ctx) = OK then Inr (Some m) else Inl (RpcFailure (rpc_status ctx))) h)" for h
    using batch_resolve_eq [of "\<lparr>bp_ty = CheckRead, bp_ctx = ctx, bp_inner = ?f\<rparr>" open_reader m True h] assms(6,7) by simp
  then obtain w3 where w3: "complete_batch open_reader CheckRead ?f ctx True ?w2 = Ret (Some cx, w3)"
      "w_cells w3 ?f = \<lparr>nh_result = Some (if code (rpc_status ctx) = OK then Inr (Some m) else Inl (RpcFailure (rpc_status ctx))),
         nh_waker = None, nh_stale = False\<rparr>" "w_batches w3 = w_batches w1"
    by (simp add: complete_batch_def set_result_def)
  then have "\<exists>w4. client_unary_poll de cx' ?f w3 =
      Ret (Ready (if code (rpc_status ctx) = OK then de m else Inl (RpcFailure (rpc_status ctx))), w4) \<and> w_batches w4 = w_batches w1"
    using w3(2) by (simp add: client_unary_poll_def future_poll_def cq_future_poll_def)
  with start w1 s p1 w3 show ?thesis by blast
qed



text \<open>
  A server that answers a unary call with an OK status but no message makes the client
  panic: the receiver unwraps the missing message.
\<close>

theorem unary_ok_without_message_panics:
  assumes "bc_recv_message ctx = None" "bc_recv_status ctx = 0" "cell_abs (w_cells w f) = Waiting wk"
  shows "\<exists>w'. complete_batch open_reader CheckRead f ctx True w = Ret (wk, w')
    \<and> client_unary_poll de cx f w' = Panic ''called Option::unwrap() on a None value''"
proof -
  have "code (rpc_status ctx) = OK" using assms(2)
    by (simp add: rpc_status_def status_ok_def status_new_def with_message_def with_details_def)
  with assms show ?thesis
    by (auto simp: complete_batch_def batch_resolve_def handle_unary_response_def recv_message_def take_recv_message_def
        set_result_def client_unary_poll_def future_poll_def cq_future_poll_def cell_abs_def split: if_splits option.splits)
qed

theorem unary_ok_without_message_panics_witness:
  "\<exists>w'. complete_batch (\<lambda>b. Ret (b :: char)) CheckRead 0 batch_context_create True world_new = Ret (None, w')
    \<and> client_unary_poll (\<lambda>m. Inr m) 3 0 w' = Panic ''called Option::unwrap() on a None value''"
  by (rule unary_ok_without_message_panics) (simp_all add: batch_context_create_def world_new_def)

text \<open>
  Closing a sink does not flush it: a message sent under enhanced batching is still in
  the sink's buffer when the close is sent, and is never given to the core.
\<close>

theorem close_drops_buffered_message:
  assumes "slice_core_ok c" "core_writes core" "ser_ok ser enc" "0 < w_ref_cnt w"
    and "share_check_alive sc w = Inr ()" "sc_close_f sc < w_next w"
  shows "\<exists>self1 w1 self2 w2 b.
      ss_start_send c core ser msg flags (enhance_batch (streaming_call_sink_new c) True) sc w = Ret (Inr (), self1, w1)
    \<and> ss_poll_close core cx self1 sc w1 = Ret (Ready (Inr ()), self2, w2)
    \<and> w_batches w2 = w_batches w @ [b] \<and> br_ops b = [OpSendCloseFromClient] \<and> sk_buf_flags (ss_base self2) = Some flags"
proof -
  let ?base = "(sink_base_new c False)\<lparr>sk_enhance_buffer_strategy := True\<rparr>"
  have "slice_wf (slice_default c)" using assms(1) by (simp add: slice_core_ok_def slice_default_def)
  then obtain s where s: "ser msg (slice_default c) = Ret s" using assms(3) unfolding ser_ok_def by meson
  let ?base1 = "?base\<lparr>sk_buffer := s, sk_last_buf_hint := get_buffer_hint flags, sk_buf_flags := Some flags\<rparr>"
  have send: "start_send c core (sc_call sc) ser msg flags ?base w = Ret (Inr (), ?base1, w)"
    using s by (simp add: start_send_def sink_base_new_def Let_def)
  have acc: "core_accepts core" "\<And>w call ops. snd (core w call ops) = Some (Inr None)"
    using assms(2) by (simp_all add: core_writes_def core_accepts_def)
  let ?w1 = "after_batch (sc_call sc) Finish call_send_close_from_client (Some (Inr None)) w"
  have close: "start_send_close_client core (sc_call sc) w = Ret (Inr (w_next w), ?w1)"
    using start_batch_accepted [OF acc(1) assms(4)] acc(2) by (simp add: start_send_close_client_def)
  show ?thesis
    using send close assms(5)
    by (simp add: ss_start_send_def enhance_batch_def streaming_call_sink_new_def ss_poll_close_def ss_poll_ready_def
        sink_poll_ready_def sink_base_new_def ss_await_close_def future_poll_def cq_future_poll_def notify_new_def
        call_send_close_from_client_def)
qed

theorem close_drops_buffered_message_witness:
  "\<exists>self1 w1 self2 w2 b.
      ss_start_send sample_core write_core byte_ser ''m'' 0 (enhance_batch (streaming_call_sink_new sample_core) True)
        (share_call_new 5 0) (started_world :: unit world) = Ret (Inr (), self1, w1)
    \<and> ss_poll_close write_core 3 self1 (share_call_new 5 0) w1 = Ret (Ready (Inr ()), self2, w2)
    \<and> w_batches w2 = [b] \<and> br_ops b = [OpSendCloseFromClient]"
proof -
  have hyps: "0 < w_ref_cnt (started_world :: unit world)" "share_check_alive (share_call_new 5 0) (started_world :: unit world) = Inr ()"
    "sc_close_f (share_call_new 5 0) < w_next (started_world :: unit world)" "w_batches (started_world :: unit world) = []"
    by (simp_all add: started_world_def world_new_def share_check_alive_def share_call_new_def check_alive_def notify_new_def)
  show ?thesis
    using close_drops_buffered_message [OF sample_core_ok write_core_ok hyps(1,2,3), of "''m''" 0 3] hyps(4) by auto
qed

end
