(* ===== verification/Grpc_Channel.thy ===== *)
theory Grpc_Channel
  imports Grpc_Env Grpc_Client "HOL-Library.Sublist"
begin

text \<open>
  \<^verbatim>\<open>src/channel.rs\<close>, \<^verbatim>\<open>src/client.rs\<close>, \<^verbatim>\<open>src/quota.rs\<close> and
  the channel argument functions of \<^verbatim>\<open>grpc-sys/grpc_wrap.cc\<close>: the options of a
  channel, the C array they are copied to, connecting, waiting for a connection, and the
  client that makes calls over a channel. The C strings live on an explicit heap, so that
  what is allocated for the arguments can be compared with what is freed.
\<close>

section \<open>Durations in milliseconds\<close>

text \<open>\<^verbatim>\<open>dur_to_ms\<close>, with the unsigned 64-bit arithmetic of a release build.\<close>

definition dur_to_ms :: "duration \<Rightarrow> 32 word" where
  "dur_to_ms dur =
     (let millis = dur_secs dur * 1000 + ucast (dur_nanos dur div 1000000) in
      ucast (min (2147483647 :: u64) millis))"

section \<open>Strings\<close>

text \<open>
  \<^verbatim>\<open>str::trim\<close> removes the characters with the Unicode property White_Space at both
  ends; \<open>whitespace\<close> lists their UTF-8 encodings.
\<close>

definition whitespace :: "bytes list" where
  "whitespace =
     map (\<lambda>n. [char_of n]) [9 :: nat, 10, 11, 12, 13, 32] @
     map (map char_of) [[194 :: nat, 133], [194, 160], [225, 154, 128]] @
     map (\<lambda>n. map char_of [226, 128, n]) ([128 :: nat, 129, 130, 131, 132, 133, 134, 135, 136, 137, 138] @ [168, 169, 175]) @
     map (map char_of) [[226 :: nat, 129, 159], [227, 128, 128]]"

lemma whitespace_nonempty: "w \<in> set whitespace \<Longrightarrow> w \<noteq> []"
  by (auto simp: whitespace_def)

lemma find_whitespace: "find P whitespace = Some w \<Longrightarrow> w \<noteq> [] \<and> P w"
  using whitespace_nonempty by (auto simp: find_Some_iff in_set_conv_nth)

function trim_start :: "bytes \<Rightarrow> bytes" where
  "trim_start s = (case find (\<lambda>w. prefix w s) whitespace of
     None \<Rightarrow> s
   | Some w \<Rightarrow> trim_start (drop (length w) s))"
  by pat_completeness auto

termination
proof (relation "measure length")
  fix s w
  assume "find (\<lambda>w. prefix w s) whitespace = Some w"
  then show "(drop (length w) s, s) \<in> measure length"
    using find_whitespace [of "\<lambda>w. prefix w s" w] by (cases s) auto
qed simp

function trim_end :: "bytes \<Rightarrow> bytes" where
  "trim_end s = (case find (\<lambda>w. suffix w s) whitespace of
     None \<Rightarrow> s
   | Some w \<Rightarrow> trim_end (take (length s - length w) s))"
  by pat_completeness auto

termination
proof (relation "measure length")
  fix s w
  assume "find (\<lambda>w. suffix w s) whitespace = Some w"
  then show "(take (length s - length w) s, s) \<in> measure length"
    using find_whitespace [of "\<lambda>w. suffix w s" w] by (cases s) auto
qed simp

declare trim_start.simps [simp del] trim_end.simps [simp del]

definition trim :: "bytes \<Rightarrow> bytes" where
  "trim s = trim_end (trim_start s)"

text \<open>\<^verbatim>\<open>CString::new(s).unwrap()\<close>: a C string has no NUL inside.\<close>

abbreviation NUL :: byte where
  "NUL \<equiv> CHR 0x00"

definition cstring_new :: "bytes \<Rightarrow> bytes outcome" where
  "cstring_new s = (if NUL \<in> set s then Panic ''called Result::unwrap() on an Err value: NulError'' else Ret s)"

text \<open>What C reads from a pointer to bytes: those before the first NUL.\<close>

definition c_str :: "bytes \<Rightarrow> bytes" where
  "c_str s = takeWhile (\<lambda>b. b \<noteq> NUL) s"

definition CARGO_PKG_VERSION :: bytes where
  "CARGO_PKG_VERSION = ''0.9.0''"

definition format_user_agent_string :: "bytes \<Rightarrow> bytes outcome" where
  "format_user_agent_string agent =
     (let trimed_agent = trim agent in
      cstring_new (if trimed_agent = [] then ''grpc-rust/'' @ CARGO_PKG_VERSION
                   else trimed_agent @ '' grpc-rust/'' @ CARGO_PKG_VERSION))"

section \<open>Channel options\<close>

datatype Options = Integer "32 word" | String bytes | Pointer nat

datatype OptTarget = Latency | Blend | Throughput

datatype LbPolicy = PickFirst | RoundRobin

text \<open>
  \<^verbatim>\<open>ChannelBuilder\<close>, without its environment, which only \<^verbatim>\<open>connect\<close> uses.
  Keys carry their terminating NUL as in the bindings.
\<close>

type_synonym channel_builder = "bytes \<rightharpoonup> Options"

definition channel_builder_new :: channel_builder where
  "channel_builder_new = Map.empty"

definition GRPC_ARG_DEFAULT_AUTHORITY :: bytes where
  "GRPC_ARG_DEFAULT_AUTHORITY = ''grpc.default_authority'' @ [NUL]"
definition GRPC_ARG_RESOURCE_QUOTA :: bytes where
  "GRPC_ARG_RESOURCE_QUOTA = ''grpc.resource_quota'' @ [NUL]"
definition GRPC_ARG_MAX_CONCURRENT_STREAMS :: bytes where
  "GRPC_ARG_MAX_CONCURRENT_STREAMS = ''grpc.max_concurrent_streams'' @ [NUL]"
definition GRPC_ARG_MAX_RECEIVE_MESSAGE_LENGTH :: bytes where
  "GRPC_ARG_MAX_RECEIVE_MESSAGE_LENGTH = ''grpc.max_receive_message_length'' @ [NUL]"
definition GRPC_ARG_MAX_SEND_MESSAGE_LENGTH :: bytes where
  "GRPC_ARG_MAX_SEND_MESSAGE_LENGTH = ''grpc.max_send_message_length'' @ [NUL]"
definition GRPC_ARG_MAX_RECONNECT_BACKOFF_MS :: bytes where
  "GRPC_ARG_MAX_RECONNECT_BACKOFF_MS = ''grpc.max_reconnect_backoff_ms'' @ [NUL]"
definition GRPC_ARG_INITIAL_RECONNECT_BACKOFF_MS :: bytes where
  "GRPC_ARG_INITIAL_RECONNECT_BACKOFF_MS = ''grpc.initial_reconnect_backoff_ms'' @ [NUL]"
definition GRPC_ARG_HTTP2_INITIAL_SEQUENCE_NUMBER :: bytes where
  "GRPC_ARG_HTTP2_INITIAL_SEQUENCE_NUMBER = ''grpc.http2.initial_sequence_number'' @ [NUL]"
definition GRPC_ARG_HTTP2_STREAM_LOOKAHEAD_BYTES :: bytes where
  "GRPC_ARG_HTTP2_STREAM_LOOKAHEAD_BYTES = ''grpc.http2.lookahead_bytes'' @ [NUL]"
definition GRPC_ARG_PRIMARY_USER_AGENT_STRING :: bytes where
  "GRPC_ARG_PRIMARY_USER_AGENT_STRING = ''grpc.primary_user_agent'' @ [NUL]"
definition GRPC_ARG_ALLOW_REUSEPORT :: bytes where
  "GRPC_ARG_ALLOW_REUSEPORT = ''grpc.so_reuseport'' @ [NUL]"
definition GRPC_ARG_TCP_READ_CHUNK_SIZE :: bytes where
  "GRPC_ARG_TCP_READ_CHUNK_SIZE = ''grpc.experimental.tcp_read_chunk_size'' @ [NUL]"
definition GRPC_ARG_TCP_MIN_READ_CHUNK_SIZE :: bytes where
  "GRPC_ARG_TCP_MIN_READ_CHUNK_SIZE = ''grpc.experimental.tcp_min_read_chunk_size'' @ [NUL]"
definition GRPC_ARG_TCP_MAX_READ_CHUNK_SIZE :: bytes where
  "GRPC_ARG_TCP_MAX_READ_CHUNK_SIZE = ''grpc.experimental.tcp_max_read_chunk_size'' @ [NUL]"
definition GRPC_ARG_HTTP2_WRITE_BUFFER_SIZE :: bytes where
  "GRPC_ARG_HTTP2_WRITE_BUFFER_SIZE = ''grpc.http2.write_buffer_size'' @ [NUL]"
definition GRPC_ARG_HTTP2_MAX_FRAME_SIZE :: bytes where
  "GRPC_ARG_HTTP2_MAX_FRAME_SIZE = ''grpc.http2.max_frame_size'' @ [NUL]"
definition GRPC_ARG_HTTP2_BDP_PROBE :: bytes where
  "GRPC_ARG_HTTP2_BDP_PROBE = ''grpc.http2.bdp_probe'' @ [NUL]"
definition GRPC_ARG_HTTP2_MIN_SENT_PING_INTERVAL_WITHOUT_DATA_MS :: bytes where
  "GRPC_ARG_HTTP2_MIN_SENT_PING_INTERVAL_WITHOUT_DATA_MS = ''grpc.http2.min_time_between_pings_ms'' @ [NUL]"
definition GRPC_ARG_HTTP2_MIN_RECV_PING_INTERVAL_WITHOUT_DATA_MS :: bytes where
  "GRPC_ARG_HTTP2_MIN_RECV_PING_INTERVAL_WITHOUT_DATA_MS = ''grpc.http2.min_ping_interval_without_data_ms'' @ [NUL]"
definition GRPC_ARG_HTTP2_MAX_PINGS_WITHOUT_DATA :: bytes where
  "GRPC_ARG_HTTP2_MAX_PINGS_WITHOUT_DATA = ''grpc.http2.max_pings_without_data'' @ [NUL]"
definition GRPC_ARG_HTTP2_MAX_PING_STRIKES :: bytes where
  "GRPC_ARG_HTTP2_MAX_PING_STRIKES = ''grpc.http2.max_ping_strikes'' @ [NUL]"
definition GRPC_COMPRESSION_CHANNEL_DEFAULT_ALGORITHM :: bytes where
  "GRPC_COMPRESSION_CHANNEL_DEFAULT_ALGORITHM = ''grpc.default_compression_algorithm'' @ [NUL]"
definition GRPC_COMPRESSION_CHANNEL_DEFAULT_LEVEL :: bytes where
  "GRPC_COMPRESSION_CHANNEL_DEFAULT_LEVEL = ''grpc.default_compression_level'' @ [NUL]"
definition GRPC_ARG_KEEPALIVE_TIME_MS :: bytes where
  "GRPC_ARG_KEEPALIVE_TIME_MS = ''grpc.keepalive_time_ms'' @ [NUL]"
definition GRPC_ARG_KEEPALIVE_TIMEOUT_MS :: bytes where
  "GRPC_ARG_KEEPALIVE_TIMEOUT_MS = ''grpc.keepalive_timeout_ms'' @ [NUL]"
definition GRPC_ARG_KEEPALIVE_PERMIT_WITHOUT_CALLS :: bytes where
  "GRPC_ARG_KEEPALIVE_PERMIT_WITHOUT_CALLS = ''grpc.keepalive_permit_without_calls'' @ [NUL]"
definition GRPC_ARG_OPTIMIZATION_TARGET :: bytes where
  "GRPC_ARG_OPTIMIZATION_TARGET = ''grpc.optimization_target'' @ [NUL]"
definition GRPC_ARG_LB_POLICY_NAME :: bytes where
  "GRPC_ARG_LB_POLICY_NAME = ''grpc.lb_policy_name'' @ [NUL]"
definition OPT_SSL_TARGET_NAME_OVERRIDE :: bytes where
  "OPT_SSL_TARGET_NAME_OVERRIDE = ''grpc.ssl_target_name_override'' @ [NUL]"

text \<open>Options that are integers, durations in milliseconds, and switches.\<close>

definition max_concurrent_stream :: "32 word \<Rightarrow> channel_builder \<Rightarrow> channel_builder" where
  "max_concurrent_stream num self = self(GRPC_ARG_MAX_CONCURRENT_STREAMS \<mapsto> Integer num)"

definition max_receive_message_len :: "32 word \<Rightarrow> channel_builder \<Rightarrow> channel_builder" where
  "max_receive_message_len len self = self(GRPC_ARG_MAX_RECEIVE_MESSAGE_LENGTH \<mapsto> Integer len)"

definition max_send_message_len :: "32 word \<Rightarrow> channel_builder \<Rightarrow> channel_builder" where
  "max_send_message_len len self = self(GRPC_ARG_MAX_SEND_MESSAGE_LENGTH \<mapsto> Integer len)"

definition https_initial_seq_number :: "32 word \<Rightarrow> channel_builder \<Rightarrow> channel_builder" where
  "https_initial_seq_number number self = self(GRPC_ARG_HTTP2_INITIAL_SEQUENCE_NUMBER \<mapsto> Integer number)"

definition stream_initial_window_size :: "32 word \<Rightarrow> channel_builder \<Rightarrow> channel_builder" where
  "stream_initial_window_size window_size self = self(GRPC_ARG_HTTP2_STREAM_LOOKAHEAD_BYTES \<mapsto> Integer window_size)"

definition tcp_read_chunk_size :: "32 word \<Rightarrow> channel_builder \<Rightarrow> channel_builder" where
  "tcp_read_chunk_size bytes self = self(GRPC_ARG_TCP_READ_CHUNK_SIZE \<mapsto> Integer bytes)"

definition tcp_min_read_chunk_size :: "32 word \<Rightarrow> channel_builder \<Rightarrow> channel_builder" where
  "tcp_min_read_chunk_size bytes self = self(GRPC_ARG_TCP_MIN_READ_CHUNK_SIZE \<mapsto> Integer bytes)"

definition tcp_max_read_chunk_size :: "32 word \<Rightarrow> channel_builder \<Rightarrow> channel_builder" where
  "tcp_max_read_chunk_size bytes self = self(GRPC_ARG_TCP_MAX_READ_CHUNK_SIZE \<mapsto> Integer bytes)"

definition http2_write_buffer_size :: "32 word \<Rightarrow> channel_builder \<Rightarrow> channel_builder" where
  "http2_write_buffer_size sz self = self(GRPC_ARG_HTTP2_WRITE_BUFFER_SIZE \<mapsto> Integer sz)"

definition http2_max_frame_size :: "32 word \<Rightarrow> channel_builder \<Rightarrow> channel_builder" where
  "http2_max_frame_size sz self = self(GRPC_ARG_HTTP2_MAX_FRAME_SIZE \<mapsto> Integer sz)"

definition http2_max_pings_without_data :: "32 word \<Rightarrow> channel_builder \<Rightarrow> channel_builder" where
  "http2_max_pings_without_data num self = self(GRPC_ARG_HTTP2_MAX_PINGS_WITHOUT_DATA \<mapsto> Integer num)"

definition http2_max_ping_strikes :: "32 word \<Rightarrow> channel_builder \<Rightarrow> channel_builder" where
  "http2_max_ping_strikes num self = self(GRPC_ARG_HTTP2_MAX_PING_STRIKES \<mapsto> Integer num)"

definition max_reconnect_backoff :: "duration \<Rightarrow> channel_builder \<Rightarrow> channel_builder" where
  "max_reconnect_backoff backoff self = self(GRPC_ARG_MAX_RECONNECT_BACKOFF_MS \<mapsto> Integer (dur_to_ms backoff))"

definition initial_reconnect_backoff :: "duration \<Rightarrow> channel_builder \<Rightarrow> channel_builder" where
  "initial_reconnect_backoff backoff self = self(GRPC_ARG_INITIAL_RECONNECT_BACKOFF_MS \<mapsto> Integer (dur_to_ms backoff))"

definition http2_min_sent_ping_interval_without_data :: "duration \<Rightarrow> channel_builder \<Rightarrow> channel_builder" where
  "http2_min_sent_ping_interval_without_data interval self = self(GRPC_ARG_HTTP2_MIN_SENT_PING_INTERVAL_WITHOUT_DATA_MS \<mapsto> Integer (dur_to_ms interval))"

definition http2_min_recv_ping_interval_without_data :: "duration \<Rightarrow> channel_builder \<Rightarrow> channel_builder" where
  "http2_min_recv_ping_interval_without_data interval self = self(GRPC_ARG_HTTP2_MIN_RECV_PING_INTERVAL_WITHOUT_DATA_MS \<mapsto> Integer (dur_to_ms interval))"

definition keepalive_time :: "duration \<Rightarrow> channel_builder \<Rightarrow> channel_builder" where
  "keepalive_time timeout self = self(GRPC_ARG_KEEPALIVE_TIME_MS \<mapsto> Integer (dur_to_ms timeout))"

definition keepalive_timeout :: "duration \<Rightarrow> channel_builder \<Rightarrow> channel_builder" where
  "keepalive_timeout timeout self = self(GRPC_ARG_KEEPALIVE_TIMEOUT_MS \<mapsto> Integer (dur_to_ms timeout))"

definition reuse_port :: "bool \<Rightarrow> channel_builder \<Rightarrow> channel_builder" where
  "reuse_port reuse self = self(GRPC_ARG_ALLOW_REUSEPORT \<mapsto> Integer (of_bool reuse))"

definition http2_bdp_probe :: "bool \<Rightarrow> channel_builder \<Rightarrow> channel_builder" where
  "http2_bdp_probe enable self = self(GRPC_ARG_HTTP2_BDP_PROBE \<mapsto> Integer (of_bool enable))"

definition keepalive_permit_without_calls :: "bool \<Rightarrow> channel_builder \<Rightarrow> channel_builder" where
  "keepalive_permit_without_calls allow self = self(GRPC_ARG_KEEPALIVE_PERMIT_WITHOUT_CALLS \<mapsto> Integer (of_bool allow))"

text \<open>Compression, with the numbers of the C enumerations.\<close>

datatype grpc_compression_algorithm =
    GRPC_COMPRESS_NONE | GRPC_COMPRESS_DEFLATE | GRPC_COMPRESS_GZIP | GRPC_COMPRESS_STREAM_GZIP
  | GRPC_COMPRESS_ALGORITHMS_COUNT

datatype grpc_compression_level =
    GRPC_COMPRESS_LEVEL_NONE | GRPC_COMPRESS_LEVEL_LOW | GRPC_COMPRESS_LEVEL_MED | GRPC_COMPRESS_LEVEL_HIGH
  | GRPC_COMPRESS_LEVEL_COUNT

definition default_compression_algorithm :: "grpc_compression_algorithm \<Rightarrow> channel_builder \<Rightarrow> channel_builder" where
  "default_compression_algorithm algo self = self(GRPC_COMPRESSION_CHANNEL_DEFAULT_ALGORITHM \<mapsto> Integer (case algo of
     GRPC_COMPRESS_NONE \<Rightarrow> 0 | GRPC_COMPRESS_DEFLATE \<Rightarrow> 1 | GRPC_COMPRESS_GZIP \<Rightarrow> 2
   | GRPC_COMPRESS_STREAM_GZIP \<Rightarrow> 3 | GRPC_COMPRESS_ALGORITHMS_COUNT \<Rightarrow> 4))"

definition default_compression_level :: "grpc_compression_level \<Rightarrow> channel_builder \<Rightarrow> channel_builder" where
  "default_compression_level level self = self(GRPC_COMPRESSION_CHANNEL_DEFAULT_LEVEL \<mapsto> Integer (case level of
     GRPC_COMPRESS_LEVEL_NONE \<Rightarrow> 0 | GRPC_COMPRESS_LEVEL_LOW \<Rightarrow> 1 | GRPC_COMPRESS_LEVEL_MED \<Rightarrow> 2
   | GRPC_COMPRESS_LEVEL_HIGH \<Rightarrow> 3 | GRPC_COMPRESS_LEVEL_COUNT \<Rightarrow> 4))"

text \<open>Options that are strings, and the resource quota.\<close>

definition default_authority :: "bytes \<Rightarrow> channel_builder \<Rightarrow> channel_builder outcome" where
  "default_authority authority self =
     obind (cstring_new authority) (\<lambda>authority. Ret (self(GRPC_ARG_DEFAULT_AUTHORITY \<mapsto> String authority)))"

definition primary_user_agent :: "bytes \<Rightarrow> channel_builder \<Rightarrow> channel_builder outcome" where
  "primary_user_agent agent self =
     obind (format_user_agent_string agent) (\<lambda>s. Ret (self(GRPC_ARG_PRIMARY_USER_AGENT_STRING \<mapsto> String s)))"

definition override_ssl_target :: "bytes \<Rightarrow> channel_builder \<Rightarrow> channel_builder outcome" where
  "override_ssl_target target self =
     obind (cstring_new target) (\<lambda>target. Ret (self(OPT_SSL_TARGET_NAME_OVERRIDE \<mapsto> String target)))"

definition optimize_for :: "OptTarget \<Rightarrow> channel_builder \<Rightarrow> channel_builder" where
  "optimize_for target self = self(GRPC_ARG_OPTIMIZATION_TARGET \<mapsto> String (case target of
     Latency \<Rightarrow> ''latency'' | Blend \<Rightarrow> ''blend'' | Throughput \<Rightarrow> ''throughput''))"

definition load_balancing_policy :: "LbPolicy \<Rightarrow> channel_builder \<Rightarrow> channel_builder" where
  "load_balancing_policy lb_policy self = self(GRPC_ARG_LB_POLICY_NAME \<mapsto> String (case lb_policy of
     PickFirst \<Rightarrow> ''pick_first'' | RoundRobin \<Rightarrow> ''round_robin''))"

definition raw_cfg_int :: "bytes \<Rightarrow> 32 word \<Rightarrow> channel_builder \<Rightarrow> channel_builder" where
  "raw_cfg_int key val self = self(key @ [NUL] \<mapsto> Integer val)"

definition raw_cfg_string :: "bytes \<Rightarrow> bytes \<Rightarrow> channel_builder \<Rightarrow> channel_builder" where
  "raw_cfg_string key val self = self(key @ [NUL] \<mapsto> String val)"

definition set_resource_quota :: "nat \<Rightarrow> channel_builder \<Rightarrow> channel_builder" where
  "set_resource_quota quota self = self(GRPC_ARG_RESOURCE_QUOTA \<mapsto> Pointer quota)"

section \<open>The C heap and resource quotas\<close>

text \<open>
  The strings the wrapper allocates, and the number of references to each quota. What the
  core does with a quota is the argument of type \<open>quota_core\<close>.
\<close>

record c_heap =
  ch_mem :: "nat \<rightharpoonup> bytes"
  ch_next :: nat
  ch_refs :: "nat \<Rightarrow> nat"

record quota_core =
  qc_create :: "bytes option \<Rightarrow> (nat \<Rightarrow> nat) \<Rightarrow> nat \<times> (nat \<Rightarrow> nat)"
  qc_unref :: "nat \<Rightarrow> (nat \<Rightarrow> nat) \<Rightarrow> nat \<Rightarrow> nat"
  qc_copy :: "nat \<Rightarrow> (nat \<Rightarrow> nat) \<Rightarrow> nat \<times> (nat \<Rightarrow> nat)"
  qc_destroy :: "nat \<Rightarrow> (nat \<Rightarrow> nat) \<Rightarrow> nat \<Rightarrow> nat"

definition quota_new :: "quota_core \<Rightarrow> bytes option \<Rightarrow> c_heap \<Rightarrow> (nat \<times> c_heap) outcome" where
  "quota_new qc name h = (case name of
     Some name_str \<Rightarrow> obind (cstring_new name_str) (\<lambda>name_cstr.
       case qc_create qc (Some name_cstr) (ch_refs h) of (p, r) \<Rightarrow> Ret (p, h\<lparr>ch_refs := r\<rparr>))
   | None \<Rightarrow> (case qc_create qc None (ch_refs h) of (p, r) \<Rightarrow> Ret (p, h\<lparr>ch_refs := r\<rparr>)))"

definition quota_drop :: "quota_core \<Rightarrow> nat \<Rightarrow> c_heap \<Rightarrow> c_heap" where
  "quota_drop qc raw h = h\<lparr>ch_refs := qc_unref qc raw (ch_refs h)\<rparr>"

definition gpr_strdup :: "bytes \<Rightarrow> c_heap \<Rightarrow> nat \<times> c_heap" where
  "gpr_strdup s h = (ch_next h, h\<lparr>ch_mem := (ch_mem h)(ch_next h \<mapsto> c_str s), ch_next := Suc (ch_next h)\<rparr>)"

definition gpr_free :: "nat option \<Rightarrow> c_heap \<Rightarrow> c_heap outcome" where
  "gpr_free p h = (case p of
     None \<Rightarrow> Ret h
   | Some a \<Rightarrow> if ch_mem h a = None then Panic ''free of memory that is not allocated''
               else Ret (h\<lparr>ch_mem := (ch_mem h)(a := None)\<rparr>))"

section \<open>Channel arguments\<close>

text \<open>A \<^verbatim>\<open>grpc_arg\<close>: the key, and the value with its type.\<close>

datatype arg_value = GRPC_ARG_STRING "nat option" | GRPC_ARG_INTEGER "32 word" | GRPC_ARG_POINTER nat

record grpc_arg =
  ga_key :: "nat option"
  ga_value :: arg_value

definition args_create :: "nat \<Rightarrow> grpc_arg list" where
  "args_create num_args = replicate num_args \<lparr>ga_key = None, ga_value = GRPC_ARG_STRING None\<rparr>"

definition args_set_string :: "grpc_arg list \<Rightarrow> nat \<Rightarrow> bytes \<Rightarrow> bytes \<Rightarrow> c_heap \<Rightarrow> (grpc_arg list \<times> c_heap) outcome" where
  "args_set_string args i key v h = obind (rust_assert (i < length args) ''index < args->num_args'') (\<lambda>_.
     case gpr_strdup key h of (k, h) \<Rightarrow>
     case gpr_strdup v h of (p, h) \<Rightarrow>
     Ret (args[i := \<lparr>ga_key = Some k, ga_value = GRPC_ARG_STRING (Some p)\<rparr>], h))"

definition args_set_integer :: "grpc_arg list \<Rightarrow> nat \<Rightarrow> bytes \<Rightarrow> 32 word \<Rightarrow> c_heap \<Rightarrow> (grpc_arg list \<times> c_heap) outcome" where
  "args_set_integer args i key v h = obind (rust_assert (i < length args) ''index < args->num_args'') (\<lambda>_.
     case gpr_strdup key h of (k, h) \<Rightarrow> Ret (args[i := \<lparr>ga_key = Some k, ga_value = GRPC_ARG_INTEGER v\<rparr>], h))"

definition args_set_pointer_vtable ::
  "quota_core \<Rightarrow> grpc_arg list \<Rightarrow> nat \<Rightarrow> bytes \<Rightarrow> nat \<Rightarrow> c_heap \<Rightarrow> (grpc_arg list \<times> c_heap) outcome" where
  "args_set_pointer_vtable qc args i key v h = obind (rust_assert (i < length args) ''index < args->num_args'') (\<lambda>_.
     case gpr_strdup key h of (k, h) \<Rightarrow>
     case qc_copy qc v (ch_refs h) of (p, r) \<Rightarrow>
     Ret (args[i := \<lparr>ga_key = Some k, ga_value = GRPC_ARG_POINTER p\<rparr>], h\<lparr>ch_refs := r\<rparr>))"

fun args_destroy :: "quota_core \<Rightarrow> grpc_arg list \<Rightarrow> c_heap \<Rightarrow> c_heap outcome" where
  "args_destroy qc [] h = Ret h"
| "args_destroy qc (a # args) h =
     obind (gpr_free (ga_key a) h) (\<lambda>h.
     obind (case ga_value a of
              GRPC_ARG_STRING p \<Rightarrow> gpr_free p h
            | GRPC_ARG_POINTER p \<Rightarrow> Ret (h\<lparr>ch_refs := qc_destroy qc p (ch_refs h)\<rparr>)
            | GRPC_ARG_INTEGER _ \<Rightarrow> Ret h)
       (args_destroy qc args))"

text \<open>
  \<^verbatim>\<open>build_args\<close>: \<open>es\<close> are the entries of the hash map in the order in
  which it iterates over them.
\<close>

fun build_loop :: "quota_core \<Rightarrow> nat \<Rightarrow> (bytes \<times> Options) list \<Rightarrow> grpc_arg list \<Rightarrow> c_heap \<Rightarrow> (grpc_arg list \<times> c_heap) outcome" where
  "build_loop qc i [] args h = Ret (args, h)"
| "build_loop qc i ((k, v) # es) args h =
     obind (case v of
              Integer val \<Rightarrow> obind (rust_assert (sint val \<le> 2147483647 \<and> - 2147483648 \<le> sint val) ''out of range'')
                (\<lambda>_. args_set_integer args i k val h)
            | String val \<Rightarrow> args_set_string args i k val h
            | Pointer quota \<Rightarrow> args_set_pointer_vtable qc args i k quota h)
       (\<lambda>(args, h). build_loop qc (Suc i) es args h)"

definition build_args :: "quota_core \<Rightarrow> (bytes \<times> Options) list \<Rightarrow> c_heap \<Rightarrow> (grpc_arg list \<times> c_heap) outcome" where
  "build_args qc es = build_loop qc 0 es (args_create (length es))"

text \<open>What the core reads from the arguments.\<close>

datatype arg_view = ViewString "bytes option" | ViewInteger int | ViewPointer nat

definition arg_read :: "c_heap \<Rightarrow> grpc_arg \<Rightarrow> bytes option \<times> arg_view" where
  "arg_read h a = (Option.bind (ga_key a) (ch_mem h), case ga_value a of
     GRPC_ARG_STRING p \<Rightarrow> ViewString (Option.bind p (ch_mem h))
   | GRPC_ARG_INTEGER i \<Rightarrow> ViewInteger (sint i)
   | GRPC_ARG_POINTER p \<Rightarrow> ViewPointer p)"

section \<open>Connecting\<close>

record 'q channel =
  cn_channel :: nat
  cn_cq :: 'q

definition prepare_connect_args ::
  "quota_core \<Rightarrow> (channel_builder \<Rightarrow> (bytes \<times> Options) list) \<Rightarrow> channel_builder \<Rightarrow> c_heap
     \<Rightarrow> (channel_builder \<times> grpc_arg list \<times> c_heap) outcome" where
  "prepare_connect_args qc iter self h =
     obind (if self GRPC_ARG_PRIMARY_USER_AGENT_STRING = None
            then obind (format_user_agent_string []) (\<lambda>s. Ret (self(GRPC_ARG_PRIMARY_USER_AGENT_STRING \<mapsto> String s)))
            else Ret self) (\<lambda>self.
     obind (build_args qc (iter self) h) (\<lambda>(args, h). Ret (self, args, h)))"

text \<open>The options are dropped with the builder: a quota among them is released.\<close>

fun options_drop :: "quota_core \<Rightarrow> (bytes \<times> Options) list \<Rightarrow> c_heap \<Rightarrow> c_heap" where
  "options_drop qc [] h = h"
| "options_drop qc ((k, v) # es) h =
     options_drop qc es (case v of Pointer quota \<Rightarrow> quota_drop qc quota h | _ \<Rightarrow> h)"

text \<open>
  \<^verbatim>\<open>connect\<close>; \<open>create\<close> is the core's channel, which depends on the address and
  on what it reads from the arguments. \<^verbatim>\<open>secure_connect\<close> and
  \<^verbatim>\<open>connect_from_fd\<close> differ in \<open>create\<close> only.
\<close>

definition connect ::
  "quota_core \<Rightarrow> (channel_builder \<Rightarrow> (bytes \<times> Options) list) \<Rightarrow> (bytes \<Rightarrow> (bytes option \<times> arg_view) list \<Rightarrow> nat)
     \<Rightarrow> bytes \<Rightarrow> channel_builder \<Rightarrow> 'q environment \<Rightarrow> c_heap \<Rightarrow> ('q channel \<times> 'q environment \<times> c_heap) outcome" where
  "connect qc iter create addr self env h =
     obind (prepare_connect_args qc iter self h) (\<lambda>(self, args, h).
     obind (cstring_new addr) (\<lambda>addr.
     let chan = create addr (map (arg_read h) args); (cq, env) = pick_cq env in
     obind cq (\<lambda>cq.
     obind (args_destroy qc args h) (\<lambda>h.
     Ret (\<lparr>cn_channel = chan, cn_cq = cq\<rparr>, env, options_drop qc (iter self) h)))))"

section \<open>Waiting for a connection\<close>

datatype ConnectivityState =
    GRPC_CHANNEL_IDLE | GRPC_CHANNEL_CONNECTING | GRPC_CHANNEL_READY | GRPC_CHANNEL_TRANSIENT_FAILURE | GRPC_CHANNEL_SHUTDOWN

text \<open>
  \<^verbatim>\<open>wait_for_state_change\<close>: whether the core was asked, the handle that its answer
  resolves, and the world; and the future that is returned.
\<close>

definition wait_for_state_change :: "'m world \<Rightarrow> bool \<times> bool notify_handle \<times> 'm world" where
  "wait_for_state_change w = (case cq_borrow w of
     (Inr _, w) \<Rightarrow> (True, notify_new, cq_release w)
   | (Inl _, w) \<Rightarrow> (False, notify_new, w))"

definition state_change_poll :: "waker \<Rightarrow> bool \<Rightarrow> bool notify_handle \<Rightarrow> (bool poll \<times> bool notify_handle) outcome" where
  "state_change_poll cx should_wait cq_f =
     (if should_wait then obind (cq_future_poll cx cq_f) (\<lambda>(p, cq_f). case p of
        Pending \<Rightarrow> Ret (Pending, cq_f)
      | Ready (Inr b) \<Rightarrow> Ret (Ready b, cq_f)
      | Ready (Inl _) \<Rightarrow> Panic ''called Result::unwrap() on an Err value'')
      else Ret (Ready False, cq_f))"

text \<open>
  \<^verbatim>\<open>wait_for_connected\<close>: the first state, and a round for every turn of the loop: the
  world in which it waits, the answer of the core, and the state that is checked after it.
  \<open>None\<close> is a wait that the core has not answered yet.
\<close>

fun wait_loop :: "('m world \<times> bool \<times> ConnectivityState) list \<Rightarrow> bool option" where
  "wait_loop [] = None"
| "wait_loop ((w, changed, state) # rounds) =
     (if fst (wait_for_state_change w) \<and> changed then
        (case state of
           GRPC_CHANNEL_READY \<Rightarrow> Some True
         | GRPC_CHANNEL_SHUTDOWN \<Rightarrow> Some False
         | _ \<Rightarrow> wait_loop rounds)
      else Some False)"

definition wait_for_connected :: "ConnectivityState \<Rightarrow> ('m world \<times> bool \<times> ConnectivityState) list \<Rightarrow> bool option" where
  "wait_for_connected state rounds = (if state = GRPC_CHANNEL_READY then Some True else wait_loop rounds)"

section \<open>Calls\<close>

text \<open>
  \<^verbatim>\<open>grpcwrap_channel_create_call\<close>: the method and, if there is one, the host are copied
  to slices for the core; \<open>create\<close> is the core's function.
\<close>

definition channel_create_call ::
  "(bytes \<Rightarrow> bytes option \<Rightarrow> 'd \<Rightarrow> nat option) \<Rightarrow> bytes option \<Rightarrow> bytes option \<Rightarrow> 'd \<Rightarrow> nat option" where
  "channel_create_call create method host deadline =
     create (case method of None \<Rightarrow> [] | Some m \<Rightarrow> m) host deadline"

text \<open>
  What \<^verbatim>\<open>create_call\<close> asks for; \<open>inf_future\<close> is the core's time that never comes,
  \<open>from\<close> the conversion of a timeout.
\<close>

definition call_for ::
  "(bytes \<Rightarrow> bytes option \<Rightarrow> 'd \<Rightarrow> nat option) \<Rightarrow> 'd \<Rightarrow> (nat \<Rightarrow> 'd) \<Rightarrow> bytes \<Rightarrow> call_option \<Rightarrow> 'm world \<Rightarrow> nat option" where
  "call_for create inf_future from method opt w =
     channel_create_call create (Some method) None (case co_timeout opt of None \<Rightarrow> inf_future | Some t \<Rightarrow> from t)"

definition create_kicker ::
  "(bytes \<Rightarrow> bytes option \<Rightarrow> 'd \<Rightarrow> nat option) \<Rightarrow> 'd \<Rightarrow> 'm world \<Rightarrow> (nat result \<times> 'm world) outcome" where
  "create_kicker create inf_future = create_call (\<lambda>_. channel_create_call create None None inf_future)"

text \<open>\<^verbatim>\<open>Client\<close>: the kicker it makes, and its calls.\<close>

definition client_new ::
  "(bytes \<Rightarrow> bytes option \<Rightarrow> 'd \<Rightarrow> nat option) \<Rightarrow> 'd \<Rightarrow> 'm world \<Rightarrow> (nat \<times> 'm world) outcome" where
  "client_new create inf_future w = obind (create_kicker create inf_future w) (\<lambda>(r, w). case r of
     Inl _ \<Rightarrow> Panic ''called Result::unwrap() on an Err value''
   | Inr kicker \<Rightarrow> Ret (kicker, w))"

definition unary_call_async ::
  "slice_core \<Rightarrow> (bytes \<Rightarrow> bytes option \<Rightarrow> 'd \<Rightarrow> nat option) \<Rightarrow> 'd \<Rightarrow> (nat \<Rightarrow> 'd) \<Rightarrow> 'm core \<Rightarrow> ('t \<Rightarrow> grpc_slice \<Rightarrow> grpc_slice outcome)
     \<Rightarrow> bytes \<Rightarrow> 't \<Rightarrow> call_option \<Rightarrow> 'm world \<Rightarrow> ((nat \<times> nat) result \<times> 'm world) outcome" where
  "unary_call_async c create inf_future from core ser method req opt =
     unary_async c (call_for create inf_future from method opt) core ser req opt"

definition client_streaming_call ::
  "(bytes \<Rightarrow> bytes option \<Rightarrow> 'd \<Rightarrow> nat option) \<Rightarrow> 'd \<Rightarrow> (nat \<Rightarrow> 'd) \<Rightarrow> 'm core \<Rightarrow> bytes \<Rightarrow> call_option \<Rightarrow> 'm world
     \<Rightarrow> (share_call result \<times> 'm world) outcome" where
  "client_streaming_call create inf_future from core method opt =
     client_streaming (call_for create inf_future from method opt) core opt"

definition server_streaming_call ::
  "slice_core \<Rightarrow> (bytes \<Rightarrow> bytes option \<Rightarrow> 'd \<Rightarrow> nat option) \<Rightarrow> 'd \<Rightarrow> (nat \<Rightarrow> 'd) \<Rightarrow> 'm core \<Rightarrow> ('t \<Rightarrow> grpc_slice \<Rightarrow> grpc_slice outcome)
     \<Rightarrow> bytes \<Rightarrow> 't \<Rightarrow> call_option \<Rightarrow> 'm world \<Rightarrow> (share_call result \<times> 'm world) outcome" where
  "server_streaming_call c create inf_future from core ser method req opt =
     server_streaming c (call_for create inf_future from method opt) core ser req opt"

definition duplex_streaming_call ::
  "(bytes \<Rightarrow> bytes option \<Rightarrow> 'd \<Rightarrow> nat option) \<Rightarrow> 'd \<Rightarrow> (nat \<Rightarrow> 'd) \<Rightarrow> 'm core \<Rightarrow> bytes \<Rightarrow> call_option \<Rightarrow> 'm world
     \<Rightarrow> (share_call result \<times> 'm world) outcome" where
  "duplex_streaming_call create inf_future from core method opt =
     duplex_streaming (call_for create inf_future from method opt) core opt"

text \<open>
  \<^verbatim>\<open>block_on\<close>: the thread polls, and sleeps until it is woken; \<open>envs\<close> is what
  happens between two polls. \<open>None\<close> is a thread that still sleeps.
\<close>

fun block_on :: "('s \<Rightarrow> ('a poll \<times> 's) outcome) \<Rightarrow> ('s \<Rightarrow> 's) list \<Rightarrow> 's \<Rightarrow> ('a \<times> 's) outcome option" where
  "block_on poll envs s = (case poll s of
     Panic m \<Rightarrow> Some (Panic m)
   | Ret (Ready a, s) \<Rightarrow> Some (Ret (a, s))
   | Ret (Pending, s) \<Rightarrow> (case envs of [] \<Rightarrow> None | e # envs \<Rightarrow> block_on poll envs (e s)))"

definition unary_call ::
  "slice_core \<Rightarrow> (bytes \<Rightarrow> bytes option \<Rightarrow> 'd \<Rightarrow> nat option) \<Rightarrow> 'd \<Rightarrow> (nat \<Rightarrow> 'd) \<Rightarrow> 'm core \<Rightarrow> ('t \<Rightarrow> grpc_slice \<Rightarrow> grpc_slice outcome)
     \<Rightarrow> ('m \<Rightarrow> 'r result) \<Rightarrow> waker \<Rightarrow> ('m world \<Rightarrow> 'm world) list \<Rightarrow> bytes \<Rightarrow> 't \<Rightarrow> call_option \<Rightarrow> 'm world
     \<Rightarrow> ('r result \<times> 'm world) outcome option" where
  "unary_call c create inf_future from core ser de cx envs method req opt w =
     (case unary_call_async c create inf_future from core ser method req opt w of
        Panic m \<Rightarrow> Some (Panic m)
      | Ret (Inl e, w) \<Rightarrow> Some (Ret (Inl e, w))
      | Ret (Inr (call, f), w) \<Rightarrow> block_on (client_unary_poll de cx f) envs w)"

section \<open>Durations\<close>

text \<open>
  C38. Durations become milliseconds exactly, and at most the largest 32-bit integer, as
  long as the milliseconds fit 64 bits.
\<close>

theorem dur_to_ms_exact:
  assumes "unat (dur_secs d) \<le> 18446744073709550" "unat (dur_nanos d) < 1000000000"
  shows "sint (dur_to_ms d) = min 2147483647 (int (1000 * unat (dur_secs d) + unat (dur_nanos d) div 1000000))"
proof -
  let ?ms = "1000 * unat (dur_secs d) + unat (dur_nanos d) div 1000000"
  let ?w = "dur_secs d * 1000 + ucast (dur_nanos d div 1000000) :: u64"
  have small: "unat (dur_nanos d) div 1000000 < 1000" using assms(2) by simp
  then have n: "unat (ucast (dur_nanos d div 1000000) :: u64) = unat (dur_nanos d) div 1000000"
    by (simp add: unsigned_ucast_eq unat_div take_bit_nat_eq_self)
  have "unat ?w = ?ms"
    using assms(1) small by (simp add: unat_word_ariths n mult.commute)
  then have cut: "unat (min (2147483647 :: u64) ?w) = min 2147483647 ?ms"
    by (simp add: min_def word_le_nat_alt)
  have "unat (dur_to_ms d) = min 2147483647 ?ms"
    by (simp add: dur_to_ms_def unsigned_ucast_eq cut take_bit_nat_eq_self)
  then have "int (unat (dur_to_ms d)) = min 2147483647 (int ?ms)"
    by (simp only: of_nat_min of_nat_numeral)
  then have "uint (dur_to_ms d) = min 2147483647 (int ?ms)"
    by (simp only: uint_nat)
  moreover have "0 \<le> m \<Longrightarrow> signed_take_bit 31 (min 2147483647 m) = min 2147483647 m" for m :: int
    by (rule signed_take_bit_int_eq_self) simp_all
  ultimately show ?thesis
    by (simp only: sint_uint) simp
qed

theorem dur_to_ms_exact_witness:
  "sint (dur_to_ms \<lparr>dur_secs = 3, dur_nanos = 250000000\<rparr>) = 3250"
  using dur_to_ms_exact [of "\<lparr>dur_secs = 3, dur_nanos = 250000000\<rparr>"] by simp

text \<open>
  A longer duration wraps around: one of more than 584 million years becomes 384
  milliseconds.
\<close>

theorem dur_to_ms_wraps:
  "dur_to_ms \<lparr>dur_secs = 18446744073709552, dur_nanos = 0\<rparr> = 384"
  by (simp add: dur_to_ms_def)

section \<open>The user agent\<close>

lemma trim_start_split:
  "\<exists>ws. set ws \<subseteq> set whitespace \<and> s = concat ws @ trim_start s \<and> \<not> (\<exists>w \<in> set whitespace. prefix w (trim_start s))"
proof (induction s rule: trim_start.induct)
  case (1 s)
  show ?case
  proof (cases "find (\<lambda>w. prefix w s) whitespace")
    case None
    then have "trim_start s = s" by (subst trim_start.simps) simp
    with None show ?thesis by (intro exI [of _ "[]"]) (simp add: find_None_iff)
  next
    case (Some w)
    then obtain t where t: "s = w @ t" "w \<in> set whitespace"
      by (auto simp: find_Some_iff prefix_def)
    from 1 [OF Some] t(1) obtain ws where "set ws \<subseteq> set whitespace" "t = concat ws @ trim_start t"
        "\<not> (\<exists>w \<in> set whitespace. prefix w (trim_start t))" by auto
    moreover have "trim_start s = trim_start t" using Some t(1) by (subst trim_start.simps) simp
    ultimately show ?thesis using t by (intro exI [of _ "w # ws"]) simp
  qed
qed

lemma trim_end_split:
  "\<exists>ws. set ws \<subseteq> set whitespace \<and> s = trim_end s @ concat ws \<and> \<not> (\<exists>w \<in> set whitespace. suffix w (trim_end s))"
proof (induction s rule: trim_end.induct)
  case (1 s)
  show ?case
  proof (cases "find (\<lambda>w. suffix w s) whitespace")
    case None
    then have "trim_end s = s" by (subst trim_end.simps) simp
    with None show ?thesis by (intro exI [of _ "[]"]) (simp add: find_None_iff)
  next
    case (Some w)
    then obtain t where t: "s = t @ w" "w \<in> set whitespace"
      by (auto simp: find_Some_iff suffix_def)
    from 1 [OF Some] t(1) obtain ws where "set ws \<subseteq> set whitespace" "t = trim_end t @ concat ws"
        "\<not> (\<exists>w \<in> set whitespace. suffix w (trim_end t))" by auto
    moreover have "trim_end s = trim_end t" using Some t(1) by (subst trim_end.simps) simp
    ultimately show ?thesis using t by (intro exI [of _ "ws @ [w]"]) simp
  qed
qed

lemma trim_end_prefix: "prefix (trim_end s) s"
  using trim_end_split [of s] by (auto simp: prefix_def)

lemma trim_split:
  "\<exists>ws vs. set ws \<subseteq> set whitespace \<and> set vs \<subseteq> set whitespace \<and> s = concat ws @ trim s @ concat vs
    \<and> \<not> (\<exists>w \<in> set whitespace. prefix w (trim s) \<or> suffix w (trim s))"
proof -
  obtain ws where ws: "set ws \<subseteq> set whitespace" "s = concat ws @ trim_start s" "\<not> (\<exists>w \<in> set whitespace. prefix w (trim_start s))"
    using trim_start_split by blast
  obtain vs where vs: "set vs \<subseteq> set whitespace" "trim_start s = trim s @ concat vs" "\<not> (\<exists>w \<in> set whitespace. suffix w (trim s))"
    using trim_end_split [of "trim_start s"] unfolding trim_def by blast
  have "\<not> (\<exists>w \<in> set whitespace. prefix w (trim s))"
    using ws(3) trim_end_prefix [of "trim_start s"] unfolding trim_def by (meson prefix_order.trans)
  with ws vs show ?thesis by (metis (no_types, lifting))
qed

text \<open>
  The user agent of a channel is the caller's text without the white space around it,
  followed by the name and version of the library; without text it is the latter alone. A
  text with a NUL inside is a panic.
\<close>

theorem user_agent_spec:
  shows "\<exists>ws vs t. agent = concat ws @ t @ concat vs \<and> set (ws @ vs) \<subseteq> set whitespace
    \<and> \<not> (\<exists>w \<in> set whitespace. prefix w t \<or> suffix w t)
    \<and> format_user_agent_string agent =
        (if NUL \<in> set t then Panic ''called Result::unwrap() on an Err value: NulError''
         else Ret ((if t = [] then [] else t @ '' '') @ ''grpc-rust/0.9.0''))"
proof -
  obtain ws vs where "set ws \<subseteq> set whitespace" "set vs \<subseteq> set whitespace" "agent = concat ws @ trim agent @ concat vs"
    "\<not> (\<exists>w \<in> set whitespace. prefix w (trim agent) \<or> suffix w (trim agent))"
    using trim_split by blast
  then show ?thesis
    by (intro exI [of _ ws] exI [of _ vs] exI [of _ "trim agent"])
      (simp add: format_user_agent_string_def cstring_new_def CARGO_PKG_VERSION_def)
qed

section \<open>The arguments\<close>

text \<open>
  What the core documents of a quota: copying takes a reference, destroying and releasing
  give one back. A heap is well formed if no address beyond the next one is in use.
\<close>

definition quota_core_ok :: "quota_core \<Rightarrow> bool" where
  "quota_core_ok qc \<longleftrightarrow> (\<forall>p r. qc_copy qc p r = (p, r(p := Suc (r p)))
     \<and> qc_destroy qc p r = r(p := r p - 1) \<and> qc_unref qc p r = r(p := r p - 1))"

definition heap_ok :: "c_heap \<Rightarrow> bool" where
  "heap_ok h \<longleftrightarrow> (\<forall>p \<ge> ch_next h. ch_mem h p = None)"

text \<open>The arguments that are built for the options, from the address \<open>n\<close> on.\<close>

fun option_cells :: "Options \<Rightarrow> bytes list" where
  "option_cells (String s) = [s]"
| "option_cells _ = []"

fun option_arg :: "nat \<Rightarrow> Options \<Rightarrow> grpc_arg" where
  "option_arg n (Integer i) = \<lparr>ga_key = Some n, ga_value = GRPC_ARG_INTEGER i\<rparr>"
| "option_arg n (String s) = \<lparr>ga_key = Some n, ga_value = GRPC_ARG_STRING (Some (Suc n))\<rparr>"
| "option_arg n (Pointer q) = \<lparr>ga_key = Some n, ga_value = GRPC_ARG_POINTER q\<rparr>"

fun laid_args :: "nat \<Rightarrow> (bytes \<times> Options) list \<Rightarrow> grpc_arg list" where
  "laid_args n [] = []"
| "laid_args n ((k, v) # es) = option_arg n v # laid_args (Suc n + length (option_cells v)) es"

fun laid_cells :: "(bytes \<times> Options) list \<Rightarrow> bytes list" where
  "laid_cells [] = []"
| "laid_cells ((k, v) # es) = k # option_cells v @ laid_cells es"

definition quota_uses :: "(bytes \<times> Options) list \<Rightarrow> nat \<Rightarrow> nat" where
  "quota_uses es q = length (filter (\<lambda>(_, v). v = Pointer q) es)"

fun laid_mem :: "nat \<Rightarrow> bytes list \<Rightarrow> (nat \<rightharpoonup> bytes) \<Rightarrow> nat \<rightharpoonup> bytes" where
  "laid_mem n [] m = m"
| "laid_mem n (c # cs) m = laid_mem (Suc n) cs (m(n \<mapsto> c_str c))"

lemma laid_mem_below: "p < n \<Longrightarrow> laid_mem n cs m p = m p"
  by (induction n cs m rule: laid_mem.induct) auto

lemma laid_mem_free: "p < n \<Longrightarrow> (laid_mem n cs m)(p := None) = laid_mem n cs (m(p := None))"
  by (induction n cs m rule: laid_mem.induct) (auto simp: fun_upd_twist)

lemma laid_mem_append: "laid_mem n (cs @ ds) m = laid_mem (n + length cs) ds (laid_mem n cs m)"
  by (induction n cs m rule: laid_mem.induct) (simp_all del: fun_upd_apply)

lemma quota_uses_simps [simp]:
  "quota_uses [] q = 0"
  "quota_uses ((k, Integer i) # es) q = quota_uses es q"
  "quota_uses ((k, String s) # es) q = quota_uses es q"
  "quota_uses ((k, Pointer p) # es) q = (if q = p then Suc (quota_uses es q) else quota_uses es q)"
  by (simp_all add: quota_uses_def)

lemma quota_uses_pointer:
  "(\<lambda>q. (r(p := Suc (r p))) q + quota_uses es q) = (\<lambda>q. r q + quota_uses ((k, Pointer p) # es) q)"
  by (simp add: fun_eq_iff)

lemma sint_i32: "sint (i :: 32 word) \<le> 2147483647" "- 2147483648 \<le> sint i"
  using sint_lt [of i] sint_ge [of i] by simp_all

lemma build_loop_eq:
  assumes "quota_core_ok qc"
  shows "length pre = i \<Longrightarrow>
    build_loop qc i es (pre @ args_create (length es)) h =
      Ret (pre @ laid_args (ch_next h) es,
           h\<lparr>ch_mem := laid_mem (ch_next h) (laid_cells es) (ch_mem h), ch_next := ch_next h + length (laid_cells es),
             ch_refs := (\<lambda>q. ch_refs h q + quota_uses es q)\<rparr>)"
proof (induction es arbitrary: i pre h)
  case Nil
  then show ?case by (simp add: args_create_def)
next
  case (Cons e es)
  obtain k v where e: "e = (k, v)" by (cases e)
  have upd: "(pre @ args_create (Suc (length es)))[i := a] = (pre @ [a]) @ args_create (length es)" for a
    using Cons.prems by (simp add: args_create_def list_update_append)
  have len: "i < length (pre @ args_create (Suc (length es)))" using Cons.prems by (simp add: args_create_def)
  have IH: "build_loop qc (Suc i) es ((pre @ [a]) @ args_create (length es)) h' =
      Ret ((pre @ [a]) @ laid_args (ch_next h') es,
           h'\<lparr>ch_mem := laid_mem (ch_next h') (laid_cells es) (ch_mem h'), ch_next := ch_next h' + length (laid_cells es),
             ch_refs := (\<lambda>q. ch_refs h' q + quota_uses es q)\<rparr>)" for a h'
    using Cons.IH [of "pre @ [a]" "Suc i" h'] Cons.prems by simp
  show ?case
  proof (cases v)
    case (Integer x)
    then show ?thesis using IH len by (simp add: e upd args_set_integer_def gpr_strdup_def sint_i32 del: append_assoc)
  next
    case (String x)
    then show ?thesis using IH len by (simp add: e upd args_set_string_def gpr_strdup_def del: append_assoc)
  next
    case (Pointer x)
    have "qc_copy qc x r = (x, r(x := Suc (r x)))" for r using assms by (simp add: quota_core_ok_def)
    then show ?thesis using IH len Pointer
      by (simp add: e upd args_set_pointer_vtable_def gpr_strdup_def quota_uses_pointer [of _ _ _ k] del: append_assoc fun_upd_apply quota_uses_simps)
  qed
qed

lemma build_args_eq:
  assumes "quota_core_ok qc"
  shows "build_args qc es h =
      Ret (laid_args (ch_next h) es,
           h\<lparr>ch_mem := laid_mem (ch_next h) (laid_cells es) (ch_mem h), ch_next := ch_next h + length (laid_cells es),
             ch_refs := (\<lambda>q. ch_refs h q + quota_uses es q)\<rparr>)"
  using build_loop_eq [OF assms, of "[]" 0 es h] by (simp add: build_args_def)

text \<open>What an option looks like to the core.\<close>

fun option_view :: "Options \<Rightarrow> arg_view" where
  "option_view (Integer i) = ViewInteger (sint i)"
| "option_view (String s) = ViewString (Some (c_str s))"
| "option_view (Pointer q) = ViewPointer q"

lemma laid_args_read:
  "map (arg_read h) (laid_args n es) = map (\<lambda>(k, v). (Some (c_str k), option_view v)) es"
  if "\<And>p. n \<le> p \<Longrightarrow> ch_mem h p = laid_mem n (laid_cells es) m p"
  using that
proof (induction es arbitrary: n m)
  case (Cons e es)
  obtain k v where e: "e = (k, v)" by (cases e)
  let ?n = "Suc n + length (option_cells v)"
  have split: "laid_mem n (laid_cells (e # es)) m = laid_mem ?n (laid_cells es) (laid_mem n (k # option_cells v) m)"
    by (simp add: e laid_mem_append)
  have "map (arg_read h) (laid_args ?n es) = map (\<lambda>(k, v). (Some (c_str k), option_view v)) es"
    by (rule Cons.IH [of ?n "laid_mem n (k # option_cells v) m"]) (use Cons.prems split in simp)
  moreover have "ch_mem h p = laid_mem n (k # option_cells v) m p" if "n \<le> p" "p < ?n" for p
    using Cons.prems [OF that(1)] that(2) by (simp only: split laid_mem_below)
  then have "arg_read h (option_arg n v) = (Some (c_str k), option_view v)"
    by (cases v) (simp_all add: arg_read_def laid_mem_below)
  ultimately show ?case by (simp add: e)
qed simp

lemma args_destroy_laid:
  assumes "quota_core_ok qc" "\<And>p. n \<le> p \<Longrightarrow> m p = None"
  shows "args_destroy qc (laid_args n es) \<lparr>ch_mem = laid_mem n (laid_cells es) m, ch_next = x, ch_refs = (\<lambda>q. r q + quota_uses es q)\<rparr>
    = Ret \<lparr>ch_mem = m, ch_next = x, ch_refs = r\<rparr>"
  using assms(2)
proof (induction es arbitrary: n)
  case (Cons e es)
  obtain k v where e: "e = (k, v)" by (cases e)
  have IH: "args_destroy qc (laid_args n' es) \<lparr>ch_mem = laid_mem n' (laid_cells es) m, ch_next = x, ch_refs = (\<lambda>q. r q + quota_uses es q)\<rparr>
    = Ret \<lparr>ch_mem = m, ch_next = x, ch_refs = r\<rparr>" if "n \<le> n'" for n'
    using Cons.IH [of n'] Cons.prems that by simp
  have none: "m(n := None) = m" "m(Suc n := None) = m" using Cons.prems by (simp_all add: fun_eq_iff)
  have refs: "(\<lambda>q. r q + quota_uses ((k, Pointer p) # es) q)(p := r p + quota_uses ((k, Pointer p) # es) p - Suc 0) = (\<lambda>q. r q + quota_uses es q)" for p
    by (simp add: fun_eq_iff)
  have destroy: "qc_destroy qc p f = f(p := f p - 1)" for p f using assms(1) by (simp add: quota_core_ok_def)
  show ?case
  proof (cases v)
    case (Integer i)
    then show ?thesis using IH [of "Suc n"]
      by (simp add: e gpr_free_def laid_mem_below laid_mem_free none fun_upd_same fun_upd_other del: fun_upd_apply)
  next
    case (String s)
    then show ?thesis using IH [of "Suc (Suc n)"]
      by (simp add: e gpr_free_def laid_mem_below laid_mem_free none fun_upd_same fun_upd_other del: fun_upd_apply)
  next
    case (Pointer q)
    then show ?thesis using IH [of "Suc n"] destroy
      by (simp add: e gpr_free_def laid_mem_below laid_mem_free none refs fun_upd_same fun_upd_other del: fun_upd_apply quota_uses_simps)
  qed
qed simp

lemma build_args_destroy:
  assumes "quota_core_ok qc" "heap_ok h"
  shows "\<exists>args h1 h2. build_args qc es h = Ret (args, h1)
    \<and> map (arg_read h1) args = map (\<lambda>(k, v). (Some (c_str k), option_view v)) es
    \<and> args_destroy qc args h1 = Ret h2 \<and> ch_mem h2 = ch_mem h \<and> ch_refs h2 = ch_refs h"
proof -
  let ?h1 = "h\<lparr>ch_mem := laid_mem (ch_next h) (laid_cells es) (ch_mem h), ch_next := ch_next h + length (laid_cells es),
             ch_refs := (\<lambda>q. ch_refs h q + quota_uses es q)\<rparr>"
  have "map (arg_read ?h1) (laid_args (ch_next h) es) = map (\<lambda>(k, v). (Some (c_str k), option_view v)) es"
    by (rule laid_args_read [of _ _ _ "ch_mem h"]) simp
  moreover have "\<And>p. ch_next h \<le> p \<Longrightarrow> ch_mem h p = None" using assms(2) by (simp add: heap_ok_def)
  then have "args_destroy qc (laid_args (ch_next h) es) ?h1
      = Ret \<lparr>ch_mem = ch_mem h, ch_next = ch_next h + length (laid_cells es), ch_refs = ch_refs h\<rparr>"
    using args_destroy_laid [OF assms(1), of "ch_next h" "ch_mem h" es "ch_next h + length (laid_cells es)" "ch_refs h"]
    by (cases h) simp
  ultimately show ?thesis using build_args_eq [OF assms(1)] by simp
qed


text \<open>A quota core that counts, and a builder with one option of each kind.\<close>

definition counting_quota :: quota_core where
  "counting_quota = \<lparr>qc_create = (\<lambda>_ r. (7, r(7 := 1))), qc_unref = (\<lambda>p r. r(p := r p - 1)),
     qc_copy = (\<lambda>p r. (p, r(p := Suc (r p)))), qc_destroy = (\<lambda>p r. r(p := r p - 1))\<rparr>"

definition sample_heap :: c_heap where
  "sample_heap = \<lparr>ch_mem = Map.empty, ch_next = 0, ch_refs = (\<lambda>_. 0)(7 := 1)\<rparr>"

definition sample_options :: "(bytes \<times> Options) list" where
  "sample_options = [(GRPC_ARG_MAX_CONCURRENT_STREAMS, Integer 5), (GRPC_ARG_LB_POLICY_NAME, String ''pick_first''),
     (GRPC_ARG_RESOURCE_QUOTA, Pointer 7)]"

lemma sample_quota_ok: "quota_core_ok counting_quota" "heap_ok sample_heap"
  by (simp_all add: quota_core_ok_def counting_quota_def heap_ok_def sample_heap_def)


section \<open>A connected channel\<close>

lemma options_drop_eq:
  assumes "quota_core_ok qc"
  shows "ch_mem (options_drop qc es h) = ch_mem h \<and> ch_refs (options_drop qc es h) = (\<lambda>q. ch_refs h q - quota_uses es q)"
proof (induction es arbitrary: h)
  case (Cons e es)
  obtain k v where e: "e = (k, v)" by (cases e)
  then show ?case using Cons.IH assms by (cases v) (auto simp: quota_drop_def quota_core_ok_def fun_eq_iff)
qed simp

definition with_user_agent :: "channel_builder \<Rightarrow> channel_builder" where
  "with_user_agent self = (case self GRPC_ARG_PRIMARY_USER_AGENT_STRING of
     None \<Rightarrow> self(GRPC_ARG_PRIMARY_USER_AGENT_STRING \<mapsto> String ''grpc-rust/0.9.0'')
   | Some _ \<Rightarrow> self)"

lemma default_user_agent: "format_user_agent_string [] = Ret ''grpc-rust/0.9.0''"
proof -
  have "find (\<lambda>w. prefix w []) whitespace = None" "find (\<lambda>w. suffix w []) whitespace = None"
    using whitespace_nonempty by (auto simp: find_None_iff)
  then have "trim [] = []" by (simp add: trim_def trim_start.simps trim_end.simps)
  then show ?thesis by (simp add: format_user_agent_string_def cstring_new_def CARGO_PKG_VERSION_def)
qed

lemma prepare_connect_args_eq:
  "prepare_connect_args qc iter self h =
     obind (build_args qc (iter (with_user_agent self)) h) (\<lambda>(args, h). Ret (with_user_agent self, args, h))"
  by (simp add: prepare_connect_args_def with_user_agent_def default_user_agent split: option.splits)

lemma quota_uses_card:
  "distinct (map fst es) \<Longrightarrow> quota_uses es q = card {k. map_of es k = Some (Pointer q)}"
proof -
  assume d: "distinct (map fst es)"
  then have "{k. map_of es k = Some (Pointer q)} = fst ` set (filter (\<lambda>(_, v). v = Pointer q) es)"
    by (force simp: map_of_eq_Some_iff)
  moreover have "distinct (map fst (filter (\<lambda>(_, v). v = Pointer q) es))" using d by (rule distinct_map_filter)
  ultimately show ?thesis
    by (metis quota_uses_def distinct_card length_map list.set_map)
qed

text \<open>
  C26. Connecting gives the core the address and every option of the builder, together with
  a user agent: the caller's, or the library's own if the caller set none. The channel gets
  the next queue of the environment; no string stays allocated, and every quota of the
  builder is released once.
\<close>

theorem connect_spec:
  assumes "quota_core_ok qc" "heap_ok h" "env_cqs env \<noteq> []" "NUL \<notin> set addr"
    and "map_of es = with_user_agent self" "distinct (map fst es)" "iter (with_user_agent self) = es"
  shows "\<exists>h'. connect qc iter create addr self env h =
      Ret (\<lparr>cn_channel = create addr (map (\<lambda>(k, v). (Some (c_str k), option_view v)) es),
            cn_cq = env_cqs env ! (unat (env_idx env) mod length (env_cqs env))\<rparr>,
           env\<lparr>env_idx := env_idx env + 1\<rparr>, h')
    \<and> ch_mem h' = ch_mem h
    \<and> (\<forall>q. ch_refs h' q = ch_refs h q - card {k. self k = Some (Pointer q)})"
proof -
  obtain args h1 h2 where args: "build_args qc es h = Ret (args, h1)"
      "map (arg_read h1) args = map (\<lambda>(k, v). (Some (c_str k), option_view v)) es"
      "args_destroy qc args h1 = Ret h2" "ch_mem h2 = ch_mem h" "ch_refs h2 = ch_refs h"
    using build_args_destroy [OF assms(1,2)] by blast
  have "{k. with_user_agent self k = Some (Pointer q)} = {k. self k = Some (Pointer q)}" for q
    by (auto simp: with_user_agent_def split: option.splits if_splits)
  then have uses: "quota_uses es q = card {k. self k = Some (Pointer q)}" for q
    using quota_uses_card [OF assms(6)] assms(5) by simp
  show ?thesis
    using args assms(3,4) options_drop_eq [OF assms(1), of es h2]
    by (simp add: connect_def prepare_connect_args_eq assms(7) cstring_new_def pick_cq_def Let_def uses)
qed

definition sample_builder :: channel_builder where
  "sample_builder = set_resource_quota 7 (max_concurrent_stream 5 channel_builder_new)"

definition sample_iter :: "channel_builder \<Rightarrow> (bytes \<times> Options) list" where
  "sample_iter self = List.map_filter (\<lambda>k. map_option (\<lambda>v. (k, v)) (self k))
     [GRPC_ARG_RESOURCE_QUOTA, GRPC_ARG_MAX_CONCURRENT_STREAMS, GRPC_ARG_PRIMARY_USER_AGENT_STRING]"

lemmas sample_keys = GRPC_ARG_RESOURCE_QUOTA_def GRPC_ARG_MAX_CONCURRENT_STREAMS_def GRPC_ARG_PRIMARY_USER_AGENT_STRING_def

theorem connect_spec_witness:
  "\<exists>h'. connect counting_quota sample_iter (\<lambda>addr view. length addr + length view) ''[::1]:50051'' sample_builder
      \<lparr>env_cqs = [10 :: nat, 11], env_idx = 1\<rparr> sample_heap =
      Ret (\<lparr>cn_channel = 14, cn_cq = 11\<rparr>, \<lparr>env_cqs = [10, 11], env_idx = 2\<rparr>, h')
    \<and> ch_mem h' = Map.empty \<and> ch_refs h' 7 = 0"
proof -
  let ?es = "[(GRPC_ARG_RESOURCE_QUOTA, Pointer 7), (GRPC_ARG_MAX_CONCURRENT_STREAMS, Integer 5),
    (GRPC_ARG_PRIMARY_USER_AGENT_STRING, String ''grpc-rust/0.9.0'')]"
  have opts: "with_user_agent sample_builder =
      channel_builder_new(GRPC_ARG_MAX_CONCURRENT_STREAMS \<mapsto> Integer 5, GRPC_ARG_RESOURCE_QUOTA \<mapsto> Pointer 7,
        GRPC_ARG_PRIMARY_USER_AGENT_STRING \<mapsto> String ''grpc-rust/0.9.0'')"
    by (simp add: with_user_agent_def sample_builder_def set_resource_quota_def max_concurrent_stream_def channel_builder_new_def sample_keys)
  have hyps: "map_of ?es = with_user_agent sample_builder" "distinct (map fst ?es)" "sample_iter (with_user_agent sample_builder) = ?es"
    by (auto simp: opts sample_iter_def map_filter_simps channel_builder_new_def sample_keys fun_eq_iff)
  have "{k. sample_builder k = Some (Pointer 7)} = {GRPC_ARG_RESOURCE_QUOTA}"
    by (auto simp: sample_builder_def set_resource_quota_def max_concurrent_stream_def channel_builder_new_def sample_keys)
  then have card: "card {k. sample_builder k = Some (Pointer 7)} = 1" by simp
  show ?thesis
    using connect_spec [of counting_quota sample_heap "\<lparr>env_cqs = [10 :: nat, 11], env_idx = 1\<rparr>" "''[::1]:50051''" ?es
        sample_builder sample_iter "\<lambda>addr view. length addr + length view"] sample_quota_ok hyps card
    by (auto simp: sample_heap_def)
qed

section \<open>Waiting for a connection, proved\<close>

text \<open>A round after which the loop goes on.\<close>

definition round_goes_on :: "'m world \<times> bool \<times> ConnectivityState \<Rightarrow> bool" where
  "round_goes_on r = (case r of (w, changed, state) \<Rightarrow>
     0 < w_ref_cnt w \<and> changed \<and> state \<noteq> GRPC_CHANNEL_READY \<and> state \<noteq> GRPC_CHANNEL_SHUTDOWN)"

lemma wait_for_state_change_open: "fst (wait_for_state_change w) \<longleftrightarrow> 0 < w_ref_cnt w"
  by (simp add: wait_for_state_change_def cq_borrow_eq)

lemma wait_loop_prefix: "list_all round_goes_on pre \<Longrightarrow> wait_loop (pre @ rounds) = wait_loop rounds"
proof (induction pre)
  case (Cons r pre)
  obtain w changed state where "r = (w, changed, state)" by (cases r)
  with Cons show ?case by (cases state) (simp_all add: round_goes_on_def wait_for_state_change_open)
qed simp

lemma wait_loop_stop:
  "\<not> round_goes_on (w, changed, state) \<Longrightarrow>
   wait_loop ((w, changed, state) # rounds) = Some (0 < w_ref_cnt w \<and> changed \<and> state = GRPC_CHANNEL_READY)"
  by (cases state) (auto simp: round_goes_on_def wait_for_state_change_open)

text \<open>
  Waiting for a connection ends with the first round in which the queue is closing, the
  deadline has passed, or the channel is ready or shut down, and returns whether it is ready;
  it goes on only as long as no round is of that kind.
\<close>

theorem wait_for_connected_spec:
  assumes "state \<noteq> GRPC_CHANNEL_READY"
  shows "list_all round_goes_on rounds \<and> wait_for_connected state rounds = None
    \<or> (\<exists>pre w changed last rest. rounds = pre @ (w, changed, last) # rest \<and> list_all round_goes_on pre
        \<and> \<not> round_goes_on (w, changed, last)
        \<and> wait_for_connected state rounds = Some (0 < w_ref_cnt w \<and> changed \<and> last = GRPC_CHANNEL_READY))"
proof (cases "list_all round_goes_on rounds")
  case True
  then show ?thesis using wait_loop_prefix [of rounds "[]"] assms by (simp add: wait_for_connected_def)
next
  case False
  then obtain pre r rest where split: "rounds = pre @ r # rest" "list_all round_goes_on pre" "\<not> round_goes_on r"
    using split_list_first_propE [of rounds "\<lambda>r. \<not> round_goes_on r"] unfolding list_all_iff by metis
  obtain w changed last where r: "r = (w, changed, last)" by (cases r)
  have "wait_for_connected state rounds = Some (0 < w_ref_cnt w \<and> changed \<and> last = GRPC_CHANNEL_READY)"
    using assms split r by (simp add: wait_for_connected_def wait_loop_prefix wait_loop_stop del: wait_loop.simps)
  with split r show ?thesis by blast
qed

theorem wait_for_connected_spec_witness:
  "wait_for_connected GRPC_CHANNEL_IDLE [(world_new :: unit world, True, GRPC_CHANNEL_CONNECTING), (world_new, True, GRPC_CHANNEL_READY)]
     = Some True"
proof -
  let ?rounds = "[(world_new :: unit world, True, GRPC_CHANNEL_CONNECTING), (world_new, True, GRPC_CHANNEL_READY)]"
  have not_all: "\<not> list_all round_goes_on ?rounds" by (simp add: round_goes_on_def)
  obtain pre w changed last rest where r: "?rounds = pre @ (w, changed, last) # rest" "list_all round_goes_on pre"
      "\<not> round_goes_on (w, changed, last)"
      "wait_for_connected GRPC_CHANNEL_IDLE ?rounds = Some (0 < w_ref_cnt w \<and> changed \<and> last = GRPC_CHANNEL_READY)"
    using wait_for_connected_spec [of GRPC_CHANNEL_IDLE ?rounds] not_all by blast
  have "pre = [(world_new, True, GRPC_CHANNEL_CONNECTING)]"
    using r(1,2,3) by (auto simp: Cons_eq_append_conv round_goes_on_def world_new_def)
  moreover have "0 < w_ref_cnt (world_new :: unit world)" by (simp add: world_new_def)
  ultimately show ?thesis using r(1,4) by auto
qed

section \<open>Blocking calls\<close>



end
