(* ===== verification/Grpc_Security.thy ===== *)
theory Grpc_Security
  imports Grpc_Channel
begin

text \<open>
  The credentials of \<^verbatim>\<open>src/security/credentials.rs\<close>, the authentication context of
  \<^verbatim>\<open>src/auth_context.rs\<close> and the log levels of \<^verbatim>\<open>src/log_util.rs\<close>. What matters
  of credentials is which bytes reach the core and which bytes are left in memory that is given
  back to the allocator; the latter are recorded, each with the kind of data its block held.
\<close>

section \<open>Memory\<close>

datatype block_kind = KeyData | CertData

type_synonym freed = "(block_kind \<times> bytes) list"

record byte_vec =
  bv_data :: bytes
  bv_capacity :: nat

text \<open>
  A change of a vector's capacity. The allocator decides by the two capacities whether the block
  is moved; if so, the old block is given back as it is.
\<close>

definition vec_realloc :: "(nat \<Rightarrow> nat \<Rightarrow> bool) \<Rightarrow> block_kind \<Rightarrow> nat \<Rightarrow> byte_vec \<Rightarrow> freed \<Rightarrow> byte_vec \<times> freed" where
  "vec_realloc moved kind cap v fr =
     (v\<lparr>bv_capacity := cap\<rparr>, if moved (bv_capacity v) cap then fr @ [(kind, bv_data v)] else fr)"

text \<open>
  \<^verbatim>\<open>CString::new(v).unwrap()\<close>: room for exactly one more byte is reserved, the NUL is
  pushed, and the vector is shrunk to a boxed slice. The result includes the NUL.
\<close>

definition cstring_from_vec :: "(nat \<Rightarrow> nat \<Rightarrow> bool) \<Rightarrow> block_kind \<Rightarrow> byte_vec \<Rightarrow> freed \<Rightarrow> (bytes \<times> freed) outcome" where
  "cstring_from_vec moved kind v fr =
     (if NUL \<in> set (bv_data v) then Panic ''called Result::unwrap() on an Err value: NulError''
      else let n = length (bv_data v);
               (v, fr) = (if bv_capacity v \<le> n then vec_realloc moved kind (Suc n) v fr else (v, fr));
               v = v\<lparr>bv_data := bv_data v @ [NUL]\<rparr>;
               (v, fr) = (if Suc n < bv_capacity v then vec_realloc moved kind (Suc n) v fr else (v, fr))
           in Ret (bv_data v, fr))"

text \<open>The drop of a \<^verbatim>\<open>CString\<close> sets its first byte to NUL.\<close>

definition cstring_drop :: "block_kind \<Rightarrow> bytes \<Rightarrow> freed \<Rightarrow> freed" where
  "cstring_drop kind s fr = fr @ [(kind, s[0 := NUL])]"

definition cstring_opt_drop :: "bytes option \<Rightarrow> freed \<Rightarrow> freed" where
  "cstring_opt_drop s fr = (case s of None \<Rightarrow> fr | Some s \<Rightarrow> cstring_drop CertData s fr)"

text \<open>\<^verbatim>\<open>CString::from_raw\<close> measures the string again.\<close>

definition cstring_from_raw :: "bytes \<Rightarrow> bytes" where
  "cstring_from_raw p = c_str p @ [NUL]"

definition clear_key_securely :: "bytes \<Rightarrow> bytes" where
  "clear_key_securely key = map (\<lambda>_. NUL) key"

text \<open>
  The start of \<^verbatim>\<open>add_cert\<close> and \<^verbatim>\<open>cert\<close>: a key without room for the NUL is copied to
  a vector that has it, and the old one is cleared before it is dropped.
\<close>

definition key_with_room :: "byte_vec \<Rightarrow> freed \<Rightarrow> byte_vec \<times> freed" where
  "key_with_room private_key fr =
     (if bv_capacity private_key = length (bv_data private_key)
      then (\<lparr>bv_data = bv_data private_key, bv_capacity = length (bv_data private_key) + 1\<rparr>,
            fr @ [(KeyData, clear_key_securely (bv_data private_key))])
      else (private_key, fr))"

section \<open>Server credentials\<close>

datatype CertificateRequestType =
    DontRequestClientCertificate
  | RequestClientCertificateButDontVerify
  | RequestClientCertificateAndVerify
  | RequestAndRequireClientCertificateButDontVerify
  | RequestAndRequireClientCertificateAndVerify

record server_credentials_builder =
  sb_root :: "bytes option"
  sb_key_cert_pairs :: "(bytes \<times> bytes) list"
  sb_cer_request_type :: CertificateRequestType

definition server_credentials_builder_new :: server_credentials_builder where
  "server_credentials_builder_new =
     \<lparr>sb_root = None, sb_key_cert_pairs = [], sb_cer_request_type = DontRequestClientCertificate\<rparr>"

definition server_root_cert ::
  "(nat \<Rightarrow> nat \<Rightarrow> bool) \<Rightarrow> byte_vec \<Rightarrow> CertificateRequestType \<Rightarrow> server_credentials_builder \<times> freed
     \<Rightarrow> (server_credentials_builder \<times> freed) outcome" where
  "server_root_cert moved cert cer_request_type = (\<lambda>(self, fr).
     obind (cstring_from_vec moved CertData cert fr) (\<lambda>(root, fr).
     Ret (self\<lparr>sb_root := Some root, sb_cer_request_type := cer_request_type\<rparr>, cstring_opt_drop (sb_root self) fr)))"

text \<open>A pair is the pointer to the key and the pointer to the certificate, in the order of the C struct.\<close>

definition add_cert ::
  "(nat \<Rightarrow> nat \<Rightarrow> bool) \<Rightarrow> byte_vec \<Rightarrow> byte_vec \<Rightarrow> server_credentials_builder \<times> freed
     \<Rightarrow> (server_credentials_builder \<times> freed) outcome" where
  "add_cert moved cert private_key = (\<lambda>(self, fr). case key_with_room private_key fr of (private_key, fr) \<Rightarrow>
     obind (cstring_from_vec moved KeyData private_key fr) (\<lambda>(private_key, fr).
     obind (cstring_from_vec moved CertData cert fr) (\<lambda>(cert_chain, fr).
     Ret (self\<lparr>sb_key_cert_pairs := sb_key_cert_pairs self @ [(private_key, cert_chain)]\<rparr>, fr))))"

definition key_cert_pair_drop :: "bytes \<times> bytes \<Rightarrow> freed \<Rightarrow> freed" where
  "key_cert_pair_drop pair fr = (case pair of (private_key, cert_chain) \<Rightarrow>
     cstring_drop CertData (cstring_from_raw cert_chain) fr @ [(KeyData, clear_key_securely (cstring_from_raw private_key))])"

text \<open>The \<^verbatim>\<open>drop\<close> of the builder and then of its fields.\<close>

definition server_builder_drop :: "server_credentials_builder \<Rightarrow> freed \<Rightarrow> freed" where
  "server_builder_drop self fr = cstring_opt_drop (sb_root self) (fold key_cert_pair_drop (sb_key_cert_pairs self) fr)"

text \<open>
  \<open>config_create\<close> is the core's, which reads C strings; \<open>None\<close> is a null pointer. The
  builder is consumed, so it is dropped at the end.
\<close>

definition build_config ::
  "(bytes option \<Rightarrow> (bytes \<times> bytes) list \<Rightarrow> 'cfg) \<Rightarrow> server_credentials_builder \<Rightarrow> freed \<Rightarrow> 'cfg \<times> freed" where
  "build_config config_create self fr =
     (let cfg = config_create (map_option c_str (sb_root self))
            (map (\<lambda>(k, c). (c_str k, c_str c)) (sb_key_cert_pairs self));
          fr = cstring_opt_drop (map_option cstring_from_raw (sb_root self)) fr
      in (cfg, server_builder_drop (self\<lparr>sb_root := None\<rparr>) fr))"

definition server_credentials_build ::
  "(bytes option \<Rightarrow> (bytes \<times> bytes) list \<Rightarrow> 'cfg) \<Rightarrow> (CertificateRequestType \<Rightarrow> 'cfg \<Rightarrow> 'creds)
     \<Rightarrow> server_credentials_builder \<Rightarrow> freed \<Rightarrow> 'creds \<times> freed" where
  "server_credentials_build config_create create_with self fr =
     (case build_config config_create self fr of (cfg, fr) \<Rightarrow> (create_with (sb_cer_request_type self) cfg, fr))"

datatype reload_status =
    GRPC_SSL_CERTIFICATE_CONFIG_RELOAD_UNCHANGED
  | GRPC_SSL_CERTIFICATE_CONFIG_RELOAD_NEW
  | GRPC_SSL_CERTIFICATE_CONFIG_RELOAD_FAIL

text \<open>
  The callback through which the core asks for new certificates: \<open>user_data\<close> is what the
  user's \<^verbatim>\<open>fetch\<close> returns, \<open>config\<close> the core's configuration before and after.
\<close>

definition server_cert_fetcher_wrapper ::
  "(bytes option \<Rightarrow> (bytes \<times> bytes) list \<Rightarrow> 'cfg) \<Rightarrow> (string + server_credentials_builder option) option \<Rightarrow> 'cfg option
     \<Rightarrow> freed \<Rightarrow> (reload_status \<times> 'cfg option \<times> freed) outcome" where
  "server_cert_fetcher_wrapper config_create user_data config fr = (case user_data of
     None \<Rightarrow> Panic ''fetcher user_data must be set up!''
   | Some (Inr (Some builder)) \<Rightarrow> (case build_config config_create builder fr of (new_config, fr) \<Rightarrow>
       Ret (GRPC_SSL_CERTIFICATE_CONFIG_RELOAD_NEW, Some new_config, fr))
   | Some (Inr None) \<Rightarrow> Ret (GRPC_SSL_CERTIFICATE_CONFIG_RELOAD_UNCHANGED, config, fr)
   | Some (Inl e) \<Rightarrow> Ret (GRPC_SSL_CERTIFICATE_CONFIG_RELOAD_FAIL, config, fr))"

section \<open>Channel credentials\<close>

record channel_credentials_builder =
  cb_root :: "bytes option"
  cb_cert_key_pair :: "(bytes \<times> bytes) option"

definition channel_credentials_builder_new :: channel_credentials_builder where
  "channel_credentials_builder_new = \<lparr>cb_root = None, cb_cert_key_pair = None\<rparr>"

definition channel_root_cert ::
  "(nat \<Rightarrow> nat \<Rightarrow> bool) \<Rightarrow> byte_vec \<Rightarrow> channel_credentials_builder \<times> freed \<Rightarrow> (channel_credentials_builder \<times> freed) outcome" where
  "channel_root_cert moved cert = (\<lambda>(self, fr).
     obind (cstring_from_vec moved CertData cert fr) (\<lambda>(root, fr).
     Ret (self\<lparr>cb_root := Some root\<rparr>, cstring_opt_drop (cb_root self) fr)))"

text \<open>The assignment drops the pair that was there, as any value is dropped.\<close>

definition channel_cert ::
  "(nat \<Rightarrow> nat \<Rightarrow> bool) \<Rightarrow> byte_vec \<Rightarrow> byte_vec \<Rightarrow> channel_credentials_builder \<times> freed
     \<Rightarrow> (channel_credentials_builder \<times> freed) outcome" where
  "channel_cert moved cert private_key = (\<lambda>(self, fr). case key_with_room private_key fr of (private_key, fr) \<Rightarrow>
     obind (cstring_from_vec moved CertData cert fr) (\<lambda>(cert, fr).
     obind (cstring_from_vec moved KeyData private_key fr) (\<lambda>(key, fr).
     Ret (self\<lparr>cb_cert_key_pair := Some (cert, key)\<rparr>,
          case cb_cert_key_pair self of None \<Rightarrow> fr | Some (c, k) \<Rightarrow> cstring_drop KeyData k (cstring_drop CertData c fr)))))"

definition channel_builder_drop :: "channel_credentials_builder \<Rightarrow> freed \<Rightarrow> freed" where
  "channel_builder_drop self fr = cstring_opt_drop (cb_root self) (case cb_cert_key_pair self of
     None \<Rightarrow> fr
   | Some (cert, key) \<Rightarrow> cstring_drop CertData cert (fr @ [(KeyData, clear_key_securely key)]))"

text \<open>\<open>create_ex\<close> is the core's: it takes the root and the pair of key and certificate, in this order.\<close>

definition channel_credentials_build ::
  "(bytes option \<Rightarrow> (bytes \<times> bytes) option \<Rightarrow> 'creds) \<Rightarrow> channel_credentials_builder \<Rightarrow> freed \<Rightarrow> 'creds \<times> freed" where
  "channel_credentials_build create_ex self fr =
     (let creds = create_ex (map_option c_str (cb_root self))
            (map_option (\<lambda>(cert, key). (c_str key, c_str cert)) (cb_cert_key_pair self));
          self = \<lparr>cb_root = map_option cstring_from_raw (cb_root self),
                  cb_cert_key_pair = map_option (\<lambda>(cert, key). (cstring_from_raw cert, cstring_from_raw key)) (cb_cert_key_pair self)\<rparr>
      in (creds, channel_builder_drop self fr))"

text \<open>\<^verbatim>\<open>google_default_credentials\<close>: \<open>create\<close> is the core's answer, a null pointer on failure.\<close>

definition google_default_credentials :: "'creds option \<Rightarrow> 'creds result" where
  "google_default_credentials create = (case create of
     None \<Rightarrow> Inl GoogleAuthenticationFailed
   | Some creds \<Rightarrow> Inr creds)"

section \<open>Authentication context\<close>

record auth_property =
  ap_name :: bytes
  ap_value :: bytes

text \<open>
  Strings that come from the core are null or C strings and have to be UTF-8; \<open>nx\<close> is
  \<^verbatim>\<open>grpc_auth_property_iterator_next\<close>.
\<close>

definition peer_identity_property_name :: "bytes option \<Rightarrow> string option outcome" where
  "peer_identity_property_name p = (case p of
     None \<Rightarrow> Ret None
   | Some p \<Rightarrow> if utf8_valid (c_str p) then Ret (Some (c_str p)) else Panic ''valid UTF-8 data'')"

definition peer_is_authenticated :: "int \<Rightarrow> bool" where
  "peer_is_authenticated r \<longleftrightarrow> r \<noteq> 0"

definition auth_property_next :: "('i \<Rightarrow> auth_property option \<times> 'i) \<Rightarrow> 'i \<Rightarrow> (auth_property \<times> 'i) option" where
  "auth_property_next nx iter = (case nx iter of
     (None, iter) \<Rightarrow> None
   | (Some prop, iter) \<Rightarrow> Some (prop, iter))"

definition auth_property_name :: "auth_property \<Rightarrow> string outcome" where
  "auth_property_name self = (if utf8_valid (c_str (ap_name self)) then Ret (c_str (ap_name self))
     else Panic ''Auth property name should be valid UTF-8 data'')"

definition auth_property_value_str :: "auth_property \<Rightarrow> string option" where
  "auth_property_value_str self = (if utf8_valid (ap_value self) then Some (ap_value self) else None)"

section \<open>Logging\<close>

datatype gpr_log_severity = GPR_LOG_SEVERITY_DEBUG | GPR_LOG_SEVERITY_INFO | GPR_LOG_SEVERITY_ERROR

datatype log_level = LError | LWarn | LInfo | LDebug | LTrace

definition severity_to_log_level :: "gpr_log_severity \<Rightarrow> log_level" where
  "severity_to_log_level severity = (case severity of
     GPR_LOG_SEVERITY_DEBUG \<Rightarrow> LDebug
   | GPR_LOG_SEVERITY_INFO \<Rightarrow> LInfo
   | GPR_LOG_SEVERITY_ERROR \<Rightarrow> LError)"

record log_record =
  lr_args :: string
  lr_level :: log_level
  lr_file :: string
  lr_line :: u32

text \<open>\<open>enabled\<close> is the logger's; what is handed to it is the result.\<close>

definition delegate ::
  "(log_level \<Rightarrow> bool) \<Rightarrow> gpr_log_severity \<Rightarrow> bytes \<Rightarrow> 32 word \<Rightarrow> bytes \<Rightarrow> log_record option outcome" where
  "delegate enabled severity file line msg =
     (let level = severity_to_log_level severity in
      if \<not> enabled level then Ret None
      else if \<not> utf8_valid (c_str file) then Panic ''called Result::unwrap() on an Err value: Utf8Error''
      else Ret (Some \<lparr>lr_args = from_utf8_lossy (c_str msg), lr_level = level, lr_file = c_str file, lr_line = line\<rparr>))"

text \<open>
  \<^verbatim>\<open>redirect_log\<close>: \<open>None\<close> is \<^verbatim>\<open>LevelFilter::Off\<close>, for which the core's log
  function is cleared; otherwise the core gets a verbosity and the function above.
\<close>

definition redirect_log :: "log_level option \<Rightarrow> gpr_log_severity option" where
  "redirect_log max_level = (case max_level of
     None \<Rightarrow> None
   | Some LError \<Rightarrow> Some GPR_LOG_SEVERITY_ERROR
   | Some LWarn \<Rightarrow> Some GPR_LOG_SEVERITY_ERROR
   | Some LInfo \<Rightarrow> Some GPR_LOG_SEVERITY_INFO
   | Some LDebug \<Rightarrow> Some GPR_LOG_SEVERITY_DEBUG
   | Some LTrace \<Rightarrow> Some GPR_LOG_SEVERITY_DEBUG)"

section \<open>What is left in memory\<close>

text \<open>No block that held key data was given back with anything but zeros in it.\<close>

definition wiped :: "freed \<Rightarrow> bool" where
  "wiped fr \<longleftrightarrow> list_all (\<lambda>(kind, bs). kind = KeyData \<longrightarrow> set bs \<subseteq> {NUL}) fr"

lemma wiped_simps [simp]:
  "wiped []" "wiped (fr @ gr) \<longleftrightarrow> wiped fr \<and> wiped gr"
  "wiped ((CertData, bs) # fr) \<longleftrightarrow> wiped fr"
  "wiped ((KeyData, bs) # fr) \<longleftrightarrow> set bs \<subseteq> {NUL} \<and> wiped fr"
  by (simp_all add: wiped_def)

lemma clear_key_zero [simp]: "set (clear_key_securely key) \<subseteq> {NUL}"
  by (auto simp: clear_key_securely_def)

lemma cert_drop_wiped [simp]:
  "wiped (cstring_drop CertData s fr) = wiped fr" "wiped (cstring_opt_drop r fr) = wiped fr"
  by (simp_all add: cstring_drop_def cstring_opt_drop_def split: option.split)

text \<open>A vector for which the conversion to a C string needs no second block.\<close>

definition tight :: "byte_vec \<Rightarrow> bool" where
  "tight v \<longleftrightarrow> length (bv_data v) \<le> bv_capacity v \<and> bv_capacity v \<le> Suc (length (bv_data v))"

lemma key_with_room_spec:
  assumes "tight v" "key_with_room v fr = (v', fr')" "wiped fr"
  shows "bv_data v' = bv_data v" "bv_capacity v' = Suc (length (bv_data v))" "wiped fr'"
  using assms by (auto simp: key_with_room_def tight_def split: if_splits)

lemma cstring_from_vec_data: "cstring_from_vec moved kind v fr = Ret (s, fr') \<Longrightarrow> s = bv_data v @ [NUL] \<and> NUL \<notin> set (bv_data v)"
  by (auto simp: cstring_from_vec_def vec_realloc_def Let_def split: if_splits prod.splits)

lemma cstring_from_vec_cert: "cstring_from_vec moved CertData v fr = Ret (s, fr') \<Longrightarrow> wiped fr' = wiped fr"
  by (auto simp: cstring_from_vec_def vec_realloc_def Let_def split: if_splits prod.splits)

lemma cstring_from_vec_key:
  "cstring_from_vec moved KeyData v fr = Ret (s, fr') \<Longrightarrow> bv_capacity v = Suc (length (bv_data v)) \<Longrightarrow> fr' = fr"
  by (auto simp: cstring_from_vec_def vec_realloc_def Let_def split: if_splits prod.splits)

lemma c_str_nul [simp]: "NUL \<notin> set s \<Longrightarrow> c_str (s @ [NUL]) = s"
  by (auto simp: c_str_def takeWhile_append takeWhile_eq_all_conv)

text \<open>A program that configures a server's credentials.\<close>

datatype server_op = RootCert byte_vec CertificateRequestType | AddCert byte_vec byte_vec

fun server_ops ::
  "(nat \<Rightarrow> nat \<Rightarrow> bool) \<Rightarrow> server_op list \<Rightarrow> server_credentials_builder \<times> freed \<Rightarrow> (server_credentials_builder \<times> freed) outcome" where
  "server_ops moved [] s = Ret s"
| "server_ops moved (RootCert cert ty # ops) s = obind (server_root_cert moved cert ty s) (server_ops moved ops)"
| "server_ops moved (AddCert cert key # ops) s = obind (add_cert moved cert key s) (server_ops moved ops)"

text \<open>What the program asks for: the last root with its type, and all pairs.\<close>

fun asked_root :: "server_op list \<Rightarrow> bytes option \<times> CertificateRequestType \<Rightarrow> bytes option \<times> CertificateRequestType" where
  "asked_root [] r = r"
| "asked_root (RootCert cert ty # ops) r = asked_root ops (Some (bv_data cert), ty)"
| "asked_root (AddCert cert key # ops) r = asked_root ops r"

fun asked_pairs :: "server_op list \<Rightarrow> (bytes \<times> bytes) list" where
  "asked_pairs [] = []"
| "asked_pairs (RootCert cert ty # ops) = asked_pairs ops"
| "asked_pairs (AddCert cert key # ops) = (bv_data key, bv_data cert) # asked_pairs ops"

fun tight_op :: "server_op \<Rightarrow> bool" where
  "tight_op (RootCert cert ty) = True"
| "tight_op (AddCert cert key) = tight key"

text \<open>The builder holds what was asked for, as C strings.\<close>

definition builder_holds ::
  "bytes option \<times> CertificateRequestType \<Rightarrow> (bytes \<times> bytes) list \<Rightarrow> server_credentials_builder \<Rightarrow> bool" where
  "builder_holds r ps b \<longleftrightarrow> sb_root b = map_option (\<lambda>s. s @ [NUL]) (fst r) \<and> sb_cer_request_type b = snd r
     \<and> sb_key_cert_pairs b = map (\<lambda>(k, c). (k @ [NUL], c @ [NUL])) ps
     \<and> pred_option (\<lambda>s. NUL \<notin> set s) (fst r) \<and> (\<forall>(k, c) \<in> set ps. NUL \<notin> set k \<and> NUL \<notin> set c)"

lemma root_cert_holds:
  assumes "server_root_cert moved cert ty (b, fr) = Ret (b', fr')" "builder_holds r ps b" "wiped fr"
  shows "builder_holds (Some (bv_data cert), ty) ps b' \<and> wiped fr'"
proof -
  from assms(1) obtain s gr where c: "cstring_from_vec moved CertData cert fr = Ret (s, gr)"
    and b': "b' = b\<lparr>sb_root := Some s, sb_cer_request_type := ty\<rparr>" "fr' = cstring_opt_drop (sb_root b) gr"
    by (cases "cstring_from_vec moved CertData cert fr") (auto simp: server_root_cert_def)
  show ?thesis
    using cstring_from_vec_data [OF c] cstring_from_vec_cert [OF c] assms(2,3) by (simp add: b' builder_holds_def)
qed

lemma add_cert_holds:
  assumes "add_cert moved cert key (b, fr) = Ret (b', fr')" "builder_holds r ps b" "wiped fr" "tight key"
  shows "builder_holds r (ps @ [(bv_data key, bv_data cert)]) b' \<and> wiped fr'"
proof -
  obtain key1 fr1 where room: "key_with_room key fr = (key1, fr1)" by (cases "key_with_room key fr")
  note k1 = key_with_room_spec [OF assms(4) room assms(3)]
  from assms(1) obtain k fr2 c where k: "cstring_from_vec moved KeyData key1 fr1 = Ret (k, fr2)"
    and c: "cstring_from_vec moved CertData cert fr2 = Ret (c, fr')"
    and b': "b' = b\<lparr>sb_key_cert_pairs := sb_key_cert_pairs b @ [(k, c)]\<rparr>"
    by (auto simp: add_cert_def room obind_Ret_iff)
  have "fr2 = fr1" using cstring_from_vec_key [OF k] k1 by simp
  then show ?thesis
    using cstring_from_vec_data [OF k] cstring_from_vec_data [OF c] cstring_from_vec_cert [OF c] assms(2) k1
    by (auto simp: b' builder_holds_def)
qed

lemma server_ops_hold:
  assumes "server_ops moved ops (b, fr) = Ret (b', fr')" "builder_holds r ps b" "wiped fr" "list_all tight_op ops"
  shows "builder_holds (asked_root ops r) (ps @ asked_pairs ops) b' \<and> wiped fr'"
  using assms
proof (induction ops arbitrary: b fr r ps)
  case (Cons op ops)
  show ?case
  proof (cases op)
    case (RootCert cert ty)
    with Cons.prems(1) obtain b1 fr1 where 1: "server_root_cert moved cert ty (b, fr) = Ret (b1, fr1)"
      and 2: "server_ops moved ops (b1, fr1) = Ret (b', fr')"
      by (cases "server_root_cert moved cert ty (b, fr)") auto
    show ?thesis
      using Cons.IH [OF 2] root_cert_holds [OF 1 Cons.prems(2,3)] Cons.prems(4) RootCert by auto
  next
    case (AddCert cert key)
    with Cons.prems(1) obtain b1 fr1 where 1: "add_cert moved cert key (b, fr) = Ret (b1, fr1)"
      and 2: "server_ops moved ops (b1, fr1) = Ret (b', fr')"
      by (cases "add_cert moved cert key (b, fr)") auto
    show ?thesis
      using Cons.IH [OF 2] add_cert_holds [OF 1 Cons.prems(2,3)] Cons.prems(4) AddCert by fastforce
  qed
qed auto

lemma pairs_drop_wiped: "wiped (fold key_cert_pair_drop ps fr) = wiped fr"
  by (induction ps arbitrary: fr) (auto simp: key_cert_pair_drop_def split: prod.split)

lemma build_config_holds:
  assumes "builder_holds r ps b"
  shows "fst (build_config create b fr) = create (fst r) ps" "wiped (snd (build_config create b fr)) = wiped fr"
proof -
  have "map (\<lambda>(k, c). (c_str k, c_str c)) (map (\<lambda>(k, c). (k @ [NUL], c @ [NUL])) ps) = ps"
    using assms by (auto simp: builder_holds_def intro!: map_idI)
  then show "fst (build_config create b fr) = create (fst r) ps"
    using assms by (cases "fst r") (auto simp: build_config_def builder_holds_def Let_def)
  show "wiped (snd (build_config create b fr)) = wiped fr"
    by (simp add: build_config_def server_builder_drop_def Let_def pairs_drop_wiped)
qed


definition sample_ops :: "server_op list" where
  "sample_ops = [AddCert \<lparr>bv_data = ''crt'', bv_capacity = 8\<rparr> \<lparr>bv_data = ''key'', bv_capacity = 3\<rparr>,
     RootCert \<lparr>bv_data = ''ca'', bv_capacity = 2\<rparr> RequestClientCertificateAndVerify]"


text \<open>
  The same for a channel whose certificate is set once.
\<close>

theorem channel_keys_wiped:
  assumes "tight key" "channel_cert moved cert key (channel_credentials_builder_new, []) = Ret (b, fr)"
  shows "fst (channel_credentials_build create_ex b fr) = create_ex None (Some (bv_data key, bv_data cert))
    \<and> wiped (snd (channel_credentials_build create_ex b fr))"
proof -
  obtain key1 fr1 where room: "key_with_room key [] = (key1, fr1)" by (cases "key_with_room key []")
  note k1 = key_with_room_spec [OF assms(1) room wiped_simps(1)]
  from assms(2) obtain c fr2 k where c: "cstring_from_vec moved CertData cert fr1 = Ret (c, fr2)"
    and k: "cstring_from_vec moved KeyData key1 fr2 = Ret (k, fr)"
    and b: "b = \<lparr>cb_root = None, cb_cert_key_pair = Some (c, k)\<rparr>"
    by (auto simp: channel_cert_def room obind_Ret_iff channel_credentials_builder_new_def)
  have "fr = fr2" "wiped fr2" using cstring_from_vec_key [OF k] cstring_from_vec_cert [OF c] k1 by simp_all
  then show ?thesis
    using cstring_from_vec_data [OF k] cstring_from_vec_data [OF c] k1
    by (auto simp: channel_credentials_build_def channel_builder_drop_def b Let_def)
qed

text \<open>
  A certificate that replaces another one leaves the other's key in memory, except for its first
  byte: the old pair is dropped without being cleared.
\<close>

theorem replaced_key_not_wiped:
  assumes "tight k1" "tight k2" "bv_data k1 = a # b # bs" "NUL \<notin> set (bv_data k1)" "NUL \<notin> set (bv_data k2)"
    and "NUL \<notin> set (bv_data c1)" "NUL \<notin> set (bv_data c2)"
  shows "\<exists>b' fr. obind (channel_cert moved c1 k1 (channel_credentials_builder_new, [])) (channel_cert moved c2 k2) = Ret (b', fr)
    \<and> (KeyData, NUL # b # bs @ [NUL]) \<in> set fr \<and> \<not> wiped fr"
proof -
  have total: "\<exists>fr'. cstring_from_vec moved kind v fr = Ret (bv_data v @ [NUL], fr')" if "NUL \<notin> set (bv_data v)" for kind v fr
    using that by (auto simp: cstring_from_vec_def vec_realloc_def Let_def)
  have step: "\<exists>fr'. channel_cert moved c k (self, fr) = Ret (self\<lparr>cb_cert_key_pair := Some (bv_data c @ [NUL], bv_data k @ [NUL])\<rparr>,
      case cb_cert_key_pair self of None \<Rightarrow> fr' | Some (c', k') \<Rightarrow> cstring_drop KeyData k' (cstring_drop CertData c' fr'))"
    if nul: "NUL \<notin> set (bv_data c)" "NUL \<notin> set (bv_data k)" for c k self fr
  proof -
    obtain k' fr1 where room: "key_with_room k fr = (k', fr1)" by (cases "key_with_room k fr")
    then have k': "bv_data k' = bv_data k" by (auto simp: key_with_room_def split: if_splits)
    obtain fr2 where c: "cstring_from_vec moved CertData c fr1 = Ret (bv_data c @ [NUL], fr2)" using total [OF nul(1)] by blast
    obtain fr3 where k: "cstring_from_vec moved KeyData k' fr2 = Ret (bv_data k @ [NUL], fr3)" using total [of k'] nul(2) k' by metis
    show ?thesis by (auto simp: channel_cert_def room c k)
  qed
  obtain fr1 where 1: "channel_cert moved c1 k1 (channel_credentials_builder_new, [])
      = Ret (channel_credentials_builder_new\<lparr>cb_cert_key_pair := Some (bv_data c1 @ [NUL], bv_data k1 @ [NUL])\<rparr>, fr1)"
    using step [OF assms(6,4), of channel_credentials_builder_new "[]"] by (auto simp: channel_credentials_builder_new_def)
  have "b \<noteq> NUL" using assms(3,4) by auto
  with 1 show ?thesis
    using step [OF assms(7,5), of "channel_credentials_builder_new\<lparr>cb_cert_key_pair := Some (bv_data c1 @ [NUL], bv_data k1 @ [NUL])\<rparr>" fr1] assms(3)
    by (auto simp: cstring_drop_def)
qed

text \<open>
  A key with more room than it needs is moved when it becomes a C string, if the allocator
  moves a shrunk block, and stays readable in the block it had.
\<close>

theorem roomy_key_not_wiped:
  assumes "Suc (length (bv_data k)) < bv_capacity k" "bv_data k \<noteq> []" "NUL \<notin> set (bv_data k)" "NUL \<notin> set (bv_data c)"
    and "moved (bv_capacity k) (Suc (length (bv_data k)))"
  shows "\<exists>b fr. add_cert moved c k (server_credentials_builder_new, []) = Ret (b, fr) \<and> (KeyData, bv_data k @ [NUL]) \<in> set fr"
  using assms by (auto simp: add_cert_def key_with_room_def cstring_from_vec_def vec_realloc_def Let_def)

section \<open>Properties of a peer\<close>

text \<open>The core's iterator over a list of properties.\<close>

definition auth_core_ok :: "('i \<Rightarrow> auth_property option \<times> 'i) \<Rightarrow> ('i \<Rightarrow> auth_property list) \<Rightarrow> bool" where
  "auth_core_ok nx pend \<longleftrightarrow> (\<forall>i. case pend i of
     [] \<Rightarrow> fst (nx i) = None
   | p # ps \<Rightarrow> fst (nx i) = Some p \<and> pend (snd (nx i)) = ps)"

interpretation aps: iterator "auth_property_next nx" pend "\<lambda>_. auth_core_ok nx pend"
proof
  fix s assume ok: "auth_core_ok nx pend" and s: "pend s = []"
  then have "fst (nx s) = None" using spec [OF ok [unfolded auth_core_ok_def], of s] by simp
  then show "auth_property_next nx s = None" by (cases "nx s") (simp add: auth_property_next_def)
next
  fix s a as assume ok: "auth_core_ok nx pend" and s: "pend s = a # as"
  then have "fst (nx s) = Some a" "pend (snd (nx s)) = as"
    using spec [OF ok [unfolded auth_core_ok_def], of s] by simp_all
  with ok show "\<exists>s'. auth_property_next nx s = Some (a, s') \<and> pend s' = as \<and> auth_core_ok nx pend"
    by (cases "nx s") (auto simp: auth_property_next_def)
qed

lemma auth_properties_listed:
  "auth_core_ok nx pend \<Longrightarrow> length (pend i) \<le> n \<Longrightarrow> collect (auth_property_next nx) n i = pend i"
  by (rule aps.collect_all)

section \<open>Log levels\<close>

text \<open>The numbers of the C enum and of the levels.\<close>

definition severity_num :: "gpr_log_severity \<Rightarrow> nat" where
  "severity_num s = (case s of GPR_LOG_SEVERITY_DEBUG \<Rightarrow> 0 | GPR_LOG_SEVERITY_INFO \<Rightarrow> 1 | GPR_LOG_SEVERITY_ERROR \<Rightarrow> 2)"

definition level_num :: "log_level \<Rightarrow> nat" where
  "level_num l = (case l of LError \<Rightarrow> 1 | LWarn \<Rightarrow> 2 | LInfo \<Rightarrow> 3 | LDebug \<Rightarrow> 4 | LTrace \<Rightarrow> 5)"

text \<open>The core's verbosity lets exactly those lines through that the logger's maximum level admits.\<close>

lemma verbosity_matches:
  "level_num (severity_to_log_level s) \<le> level_num l \<longleftrightarrow> (\<exists>v. redirect_log (Some l) = Some v \<and> severity_num v \<le> severity_num s)"
  by (cases s; cases l) (simp_all add: severity_num_def level_num_def severity_to_log_level_def redirect_log_def)

end
