(* ===== verification/Grpc_Health.thy ===== *)
theory Grpc_Health
  imports Grpc_Task "HOL-Library.AList" "HOL-Library.Sublist"
begin

text \<open>
  The health service of \<^verbatim>\<open>health/src/service.rs\<close>: the status of every named
  service, and the watchers that are told when it changes. A status and its version share one
  atomic word; a watcher compares the word with the last one it saw. The loads of that word
  outside the lock are separate steps, so the interleavings of watchers and updates are
  those of the code.
\<close>

unbundle bit_operations_syntax

section \<open>The state word\<close>

datatype ServingStatus = Unknown | Serving | NotServing | ServiceUnknown

definition status_num :: "ServingStatus \<Rightarrow> u64" where
  "status_num s = (case s of Unknown \<Rightarrow> 0 | Serving \<Rightarrow> 1 | NotServing \<Rightarrow> 2 | ServiceUnknown \<Rightarrow> 3)"

definition status_from_i32 :: "int \<Rightarrow> ServingStatus option" where
  "status_from_i32 n = (if n = 0 then Some Unknown else if n = 1 then Some Serving else if n = 2 then Some NotServing
     else if n = 3 then Some ServiceUnknown else None)"

definition VERSION_STEP :: u64 where "VERSION_STEP = 8"
definition STATUS_MASK :: u64 where "STATUS_MASK = 7"

definition state_to_status :: "u64 \<Rightarrow> ServingStatus outcome" where
  "state_to_status state = unwrap (status_from_i32 (uint (state AND STATUS_MASK)))"

section \<open>Casts and subscribers\<close>

text \<open>The wakers of the subscribers that wait, by subscriber number.\<close>

record status_cast =
  ca_state :: u64
  ca_subs :: "(u64 \<times> waker) list"

definition cast_new :: "ServingStatus \<Rightarrow> status_cast" where
  "cast_new status = \<lparr>ca_state = VERSION_STEP OR status_num status, ca_subs = []\<rparr>"

definition next_state :: "u64 \<Rightarrow> ServingStatus \<Rightarrow> u64" where
  "next_state state status = ((state + VERSION_STEP) AND NOT STATUS_MASK) OR status_num status"

text \<open>The two halves of \<^verbatim>\<open>broadcast\<close>, both under the lock: the store, and the wake-ups.\<close>

definition broadcast_store :: "ServingStatus \<Rightarrow> status_cast \<Rightarrow> status_cast" where
  "broadcast_store status self = self\<lparr>ca_state := next_state (ca_state self) status\<rparr>"

definition broadcast_wake :: "status_cast \<Rightarrow> (u64 \<times> waker) list \<times> status_cast" where
  "broadcast_wake self = (ca_subs self, self\<lparr>ca_subs := []\<rparr>)"

definition broadcast :: "ServingStatus \<Rightarrow> status_cast \<Rightarrow> (u64 \<times> waker) list \<times> status_cast" where
  "broadcast status self = broadcast_wake (broadcast_store status self)"

record subscriber =
  su_last_state :: u64
  su_id :: u64

definition subscriber_new :: "u64 \<Rightarrow> subscriber" where
  "subscriber_new i = \<lparr>su_last_state = 0, su_id = i\<rparr>"

text \<open>
  \<^verbatim>\<open>poll_next\<close> loads the state before it takes the lock, and once more under it.
  \<open>poll_load\<close> is what both do with the loaded word.
\<close>

definition poll_load :: "u64 \<Rightarrow> subscriber \<Rightarrow> (ServingStatus option \<times> subscriber) outcome" where
  "poll_load cur_state self =
     (if cur_state \<noteq> su_last_state self
      then obind (state_to_status cur_state) (\<lambda>status. Ret (Some status, self\<lparr>su_last_state := cur_state\<rparr>))
      else Ret (None, self))"

definition register_waker :: "u64 \<Rightarrow> waker \<Rightarrow> status_cast \<Rightarrow> status_cast" where
  "register_waker i cx self = (case map_of (ca_subs self) i of
     Some wk \<Rightarrow> if wk \<noteq> cx then self\<lparr>ca_subs := AList.update i cx (ca_subs self)\<rparr> else self
   | None \<Rightarrow> self\<lparr>ca_subs := AList.update i cx (ca_subs self)\<rparr>)"

definition poll_locked :: "waker \<Rightarrow> subscriber \<Rightarrow> status_cast \<Rightarrow> (ServingStatus option poll \<times> subscriber \<times> status_cast) outcome" where
  "poll_locked cx self cast = obind (poll_load (ca_state cast) self) (\<lambda>(r, self).
     case r of
       Some status \<Rightarrow> Ret (Ready (Some status), self, cast)
     | None \<Rightarrow> Ret (Pending, self, register_waker (su_id self) cx cast))"

definition subscriber_drop :: "subscriber \<Rightarrow> status_cast \<Rightarrow> status_cast" where
  "subscriber_drop self cast = cast\<lparr>ca_subs := AList.delete (su_id self) (ca_subs cast)\<rparr>"

section \<open>The word keeps the status\<close>

lemma status_num_mask: "status_num s AND 7 = status_num s"
  by (cases s) (simp_all add: status_num_def)

lemma next_state_mask: "next_state w s AND STATUS_MASK = status_num s"
proof -
  have "next_state w s AND 7 = ((w + 8) AND NOT 7 AND 7) OR (status_num s AND 7)"
    by (simp only: next_state_def VERSION_STEP_def STATUS_MASK_def bit.conj_disj_distrib2 and.assoc)
  also have "(w + 8) AND NOT 7 AND 7 = 0"
    by (simp only: bit.conj_cancel_left bit.conj_zero_right)
  finally show ?thesis by (simp only: STATUS_MASK_def status_num_mask or.left_neutral)
qed

lemma new_state_mask: "(VERSION_STEP OR status_num s) AND STATUS_MASK = status_num s"
  by (cases s) (simp_all add: VERSION_STEP_def STATUS_MASK_def status_num_def)

lemma status_back: "status_from_i32 (uint (status_num s)) = Some s"
  by (cases s) (simp_all add: status_num_def status_from_i32_def)

lemma state_to_status_next [simp]: "state_to_status (next_state w s) = Ret s"
  by (simp add: state_to_status_def next_state_mask status_back)

lemma state_to_status_new [simp]: "state_to_status (VERSION_STEP OR status_num s) = Ret s"
  by (simp add: state_to_status_def new_state_mask status_back)

text \<open>The version, the upper 61 bits, is counted up by every update until it wraps around.\<close>

definition version :: "u64 \<Rightarrow> nat" where
  "version w = unat w div 8"

lemma drop_bit_next: "drop_bit 3 (next_state w s) = drop_bit 3 (w + 8)"
proof (rule bit_word_eqI)
  fix n :: nat
  assume "n < LENGTH(64)"
  have seven: "STATUS_MASK = mask 3" by (simp add: STATUS_MASK_def mask_eq_exp_minus_1)
  have low: "\<not> bit STATUS_MASK (3 + n)" unfolding seven bit_mask_iff by simp
  have num: "\<not> bit (status_num s) (3 + n)"
    using low by (metis STATUS_MASK_def bit_and_iff status_num_mask)
  show "bit (drop_bit 3 (next_state w s)) n = bit (drop_bit 3 (w + 8)) n"
    using num low
    by (auto simp: next_state_def VERSION_STEP_def bit_drop_bit_eq bit_or_iff bit_and_iff bit_not_iff
        dest: bit_imp_le_length)
qed

lemma version_next:
  assumes "Suc (version w) < 2 ^ 61"
  shows "version (next_state w s) = Suc (version w)"
proof -
  have ver: "version v = unat (drop_bit 3 v)" for v :: u64
    by (simp add: version_def drop_bit_eq_div unat_div)
  have "unat (w + 8) = unat w + 8"
    using assms by (subst unat_word_ariths) (simp add: version_def)
  then show ?thesis unfolding ver [of "next_state w s"] drop_bit_next ver [symmetric] by (simp add: version_def)
qed

section \<open>Watchers and updates interleaved\<close>

text \<open>
  A watcher runs, is between its first load and the lock with the waker of its task, or is
  parked. \<open>ws_locked\<close> is set between the two halves of a broadcast. The history of
  the state word, what every watcher has yielded, and the wake-ups delivered are recorded.
\<close>

datatype sub_pc = SubRun | SubLocking waker | SubParked waker

record watch_sys =
  ws_cast :: status_cast
  ws_locked :: bool
  ws_subs :: "(subscriber \<times> sub_pc) list"
  ws_seen :: "ServingStatus list list"
  ws_states :: "u64 list"
  ws_woken :: "(u64 \<times> waker) list"

definition watch_new :: "ServingStatus \<Rightarrow> u64 list \<Rightarrow> watch_sys" where
  "watch_new status ids =
     \<lparr>ws_cast = cast_new status, ws_locked = False, ws_subs = map (\<lambda>i. (subscriber_new i, SubRun)) ids,
      ws_seen = replicate (length ids) [], ws_states = [ca_state (cast_new status)], ws_woken = []\<rparr>"

datatype watch_act = StoreStatus ServingStatus | WakeAll | PollFirst nat waker | PollSecond nat

definition watch_put :: "nat \<Rightarrow> subscriber \<Rightarrow> sub_pc \<Rightarrow> ServingStatus option \<Rightarrow> watch_sys \<Rightarrow> watch_sys" where
  "watch_put j sub pc out s = s\<lparr>ws_subs := (ws_subs s)[j := (sub, pc)],
     ws_seen := (ws_seen s)[j := ws_seen s ! j @ (case out of None \<Rightarrow> [] | Some st \<Rightarrow> [st])]\<rparr>"

definition watch_exec :: "watch_act \<Rightarrow> watch_sys \<Rightarrow> watch_sys option" where
  "watch_exec a s = (case a of
     StoreStatus st \<Rightarrow> if ws_locked s then None
       else (let cast = broadcast_store st (ws_cast s) in
             Some (s\<lparr>ws_cast := cast, ws_locked := True, ws_states := ws_states s @ [ca_state cast]\<rparr>))
   | WakeAll \<Rightarrow> if \<not> ws_locked s then None
       else (case broadcast_wake (ws_cast s) of (wks, cast) \<Rightarrow>
             Some (s\<lparr>ws_cast := cast, ws_locked := False, ws_woken := ws_woken s @ wks\<rparr>))
   | PollFirst j cx \<Rightarrow> if j < length (ws_subs s) \<and> (\<forall>wk. snd (ws_subs s ! j) \<noteq> SubLocking wk)
       then (case poll_load (ca_state (ws_cast s)) (fst (ws_subs s ! j)) of
               Panic _ \<Rightarrow> None
             | Ret (out, sub) \<Rightarrow> Some (watch_put j sub (if out = None then SubLocking cx else SubRun) out
                   (s\<lparr>ws_woken := filter (\<lambda>(i, _). i \<noteq> su_id sub) (ws_woken s)\<rparr>)))
       else None
   | PollSecond j \<Rightarrow> if j < length (ws_subs s) \<and> \<not> ws_locked s
       then (case snd (ws_subs s ! j) of
               SubLocking cx \<Rightarrow> (case poll_locked cx (fst (ws_subs s ! j)) (ws_cast s) of
                   Ret (Ready (Some st), sub, cast) \<Rightarrow> Some (watch_put j sub SubRun (Some st) (s\<lparr>ws_cast := cast\<rparr>))
                 | Ret (Pending, sub, cast) \<Rightarrow> Some (watch_put j sub (SubParked cx) None (s\<lparr>ws_cast := cast\<rparr>))
                 | _ \<Rightarrow> None)
             | _ \<Rightarrow> None)
       else None)"

definition watch_init :: "watch_sys \<Rightarrow> bool" where
  "watch_init s \<longleftrightarrow> (\<exists>status ids. distinct ids \<and> s = watch_new status ids)"

abbreviation watch_step :: "watch_sys \<Rightarrow> watch_sys \<Rightarrow> bool" where
  "watch_step \<equiv> exec_step watch_exec"

definition status_of :: "u64 \<Rightarrow> ServingStatus" where
  "status_of w = (case state_to_status w of Ret s \<Rightarrow> s | Panic _ \<Rightarrow> Unknown)"

definition history :: "watch_sys \<Rightarrow> ServingStatus list" where
  "history s = map status_of (ws_states s)"

text \<open>What a watcher has yielded is part of the history up to the state it saw last.\<close>

definition seen_ok :: "u64 list \<Rightarrow> u64 \<Rightarrow> ServingStatus list \<Rightarrow> bool" where
  "seen_ok states last_state seen \<longleftrightarrow> seen = [] \<and> last_state = 0 \<or>
     (\<exists>k < length states. last_state = states ! k \<and> subseq seen (map status_of (take (Suc k) states)) \<and>
        seen \<noteq> [] \<and> last seen = status_of last_state)"

definition parked_ok :: "watch_sys \<Rightarrow> subscriber \<Rightarrow> sub_pc \<Rightarrow> bool" where
  "parked_ok s sub pc \<longleftrightarrow> (\<forall>wk. pc = SubParked wk \<longrightarrow>
     map_of (ca_subs (ws_cast s)) (su_id sub) = Some wk \<and> (ws_locked s \<or> su_last_state sub = ca_state (ws_cast s))
     \<or> (su_id sub, wk) \<in> set (ws_woken s))"

definition watch_inv :: "watch_sys \<Rightarrow> bool" where
  "watch_inv s \<longleftrightarrow>
     ws_states s \<noteq> [] \<and> last (ws_states s) = ca_state (ws_cast s) \<and>
     (\<forall>w \<in> set (ws_states s). \<exists>st. state_to_status w = Ret st) \<and>
     (length (ws_states s) < 2 ^ 61 \<longrightarrow> version (ca_state (ws_cast s)) = length (ws_states s)) \<and>
     distinct (map (su_id \<circ> fst) (ws_subs s)) \<and> length (ws_seen s) = length (ws_subs s) \<and>
     (\<forall>j < length (ws_subs s). seen_ok (ws_states s) (su_last_state (fst (ws_subs s ! j))) (ws_seen s ! j)
        \<and> parked_ok s (fst (ws_subs s ! j)) (snd (ws_subs s ! j)))"

lemma seen_ok_extend: "seen_ok states l seen \<Longrightarrow> seen_ok (states @ [w]) l seen"
  by (fastforce simp: seen_ok_def nth_append)

lemma seen_ok_yield:
  assumes "seen_ok states l seen" "states \<noteq> []" "last states \<noteq> l"
  shows "seen_ok states (last states) (seen @ [status_of (last states)])"
proof -
  let ?n = "length states - 1"
  have n: "?n < length states" "last states = states ! ?n" "take (Suc ?n) states = states"
    using assms(2) by (simp_all add: last_conv_nth)
  have whole: "map status_of states = map status_of (butlast states) @ [status_of (last states)]"
    using assms(2) by (metis append_butlast_last_id list.simps(8,9) map_append)
  have "subseq seen (map status_of (butlast states))"
  proof (cases "seen = []")
    case False
    with assms(1) obtain k where k: "k < length states" "l = states ! k" "subseq seen (map status_of (take (Suc k) states))"
      by (auto simp: seen_ok_def)
    with assms(3) n have "k < ?n" by (metis Suc_pred' bot_nat_0.not_eq_extremum less_SucE length_greater_0_conv assms(2))
    then have "take (Suc k) (butlast states) = take (Suc k) states" by (simp add: take_butlast)
    then have "map status_of (butlast states) = map status_of (take (Suc k) states) @ map status_of (drop (Suc k) (butlast states))"
      by (metis append_take_drop_id map_append)
    with k(3) show ?thesis by (metis subseq_rev_drop_many)
  qed simp
  then have "subseq (seen @ [status_of (last states)]) (map status_of states)"
    unfolding whole by (rule list_emb_append_mono) simp
  with n show ?thesis unfolding seen_ok_def by (intro disjI2 exI [of _ ?n]) simp
qed

lemma poll_load_ok:
  assumes "watch_inv s"
  shows "\<exists>out sub'. poll_load (ca_state (ws_cast s)) sub = Ret (out, sub') \<and> su_id sub' = su_id sub
    \<and> (case out of None \<Rightarrow> sub' = sub \<and> su_last_state sub = ca_state (ws_cast s)
        | Some st \<Rightarrow> su_last_state sub' = ca_state (ws_cast s) \<and> su_last_state sub \<noteq> ca_state (ws_cast s)
            \<and> st = status_of (ca_state (ws_cast s)))"
proof -
  have "ca_state (ws_cast s) \<in> set (ws_states s)" using assms by (metis last_in_set watch_inv_def)
  then obtain st where "state_to_status (ca_state (ws_cast s)) = Ret st" using assms by (auto simp: watch_inv_def)
  then show ?thesis by (auto simp: poll_load_def status_of_def)
qed

lemma watch_invD:
  assumes "watch_inv s" "j < length (ws_subs s)"
  shows "seen_ok (ws_states s) (su_last_state (fst (ws_subs s ! j))) (ws_seen s ! j)"
    "parked_ok s (fst (ws_subs s ! j)) (snd (ws_subs s ! j))"
  using assms by (auto simp: watch_inv_def)

text \<open>A watcher that polls: its own entry changes, nobody else's obligations do.\<close>

lemma watch_put_inv:
  assumes inv: "watch_inv s" and j: "j < length (ws_subs s)" and sid: "su_id sub = su_id (fst (ws_subs s ! j))"
    and out: "case out of None \<Rightarrow> su_last_state sub = su_last_state (fst (ws_subs s ! j))
        | Some st \<Rightarrow> su_last_state sub = ca_state (ws_cast s) \<and> su_last_state (fst (ws_subs s ! j)) \<noteq> ca_state (ws_cast s)
            \<and> st = status_of (ca_state (ws_cast s))"
    and t: "ws_states t = ws_states s" "ws_subs t = ws_subs s" "ws_seen t = ws_seen s" "ca_state (ws_cast t) = ca_state (ws_cast s)"
    and own: "parked_ok (watch_put j sub pc out t) sub pc"
    and others: "\<And>i. i < length (ws_subs s) \<Longrightarrow> i \<noteq> j \<Longrightarrow>
      parked_ok (watch_put j sub pc out t) (fst (ws_subs s ! i)) (snd (ws_subs s ! i))"
  shows "watch_inv (watch_put j sub pc out t)"
proof -
  let ?t = "watch_put j sub pc out t"
  have len: "length (ws_seen s) = length (ws_subs s)" using inv by (simp add: watch_inv_def)
  have ids: "map (su_id \<circ> fst) ((ws_subs s)[j := (sub, pc)]) = map (su_id \<circ> fst) (ws_subs s)"
    using j sid by (simp add: map_update list_update_same_conv)
  have st: "ws_states s \<noteq> []" "last (ws_states s) = ca_state (ws_cast s)" using inv by (simp_all add: watch_inv_def)
  have seen: "seen_ok (ws_states s) (su_last_state sub) (ws_seen s ! j @ (case out of None \<Rightarrow> [] | Some st \<Rightarrow> [st]))"
    using seen_ok_yield [OF watch_invD(1) [OF inv j] st(1)] st(2) watch_invD(1) [OF inv j] out
    by (cases out) auto
  have "seen_ok (ws_states ?t) (su_last_state (fst (ws_subs ?t ! i))) (ws_seen ?t ! i) \<and> parked_ok ?t (fst (ws_subs ?t ! i)) (snd (ws_subs ?t ! i))"
    if "i < length (ws_subs s)" for i
    using that seen own others [of i] watch_invD(1) [OF inv that] j len t
    by (cases "i = j") (simp_all add: watch_put_def)
  then show ?thesis using inv ids t by (simp add: watch_inv_def watch_put_def)
qed

lemma watch_store_inv:
  assumes inv: "watch_inv s" and step: "watch_exec (StoreStatus st) s = Some t"
  shows "watch_inv t"
proof -
  let ?w = "next_state (ca_state (ws_cast s)) st"
  have t: "t = s\<lparr>ws_cast := (ws_cast s)\<lparr>ca_state := ?w\<rparr>, ws_locked := True, ws_states := ws_states s @ [?w]\<rparr>"
    using step by (auto simp: watch_exec_def broadcast_store_def Let_def split: if_splits)
  have ver: "version ?w = length (ws_states t)" if "length (ws_states t) < 2 ^ 61"
    using that inv t version_next [of "ca_state (ws_cast s)" st] by (simp add: watch_inv_def)
  have "seen_ok (ws_states t) (su_last_state (fst (ws_subs t ! j))) (ws_seen t ! j)
      \<and> parked_ok t (fst (ws_subs t ! j)) (snd (ws_subs t ! j))" if "j < length (ws_subs s)" for j
    using watch_invD [OF inv that] t by (auto simp: parked_ok_def intro: seen_ok_extend)
  then show ?thesis using inv t ver by (auto simp: watch_inv_def)
qed

lemma watch_wake_inv:
  assumes inv: "watch_inv s" and step: "watch_exec WakeAll s = Some t"
  shows "watch_inv t"
proof -
  have t: "t = s\<lparr>ws_cast := (ws_cast s)\<lparr>ca_subs := []\<rparr>, ws_locked := False, ws_woken := ws_woken s @ ca_subs (ws_cast s)\<rparr>"
    using step by (auto simp: watch_exec_def broadcast_wake_def split: if_splits)
  have "parked_ok t (fst (ws_subs t ! j)) (snd (ws_subs t ! j))" if "j < length (ws_subs s)" for j
    using watch_invD(2) [OF inv that] t by (auto simp: parked_ok_def dest: map_of_SomeD)
  then show ?thesis using inv t by (simp add: watch_inv_def)
qed

lemma other_id:
  assumes "watch_inv s" "i < length (ws_subs s)" "j < length (ws_subs s)" "i \<noteq> j"
  shows "su_id (fst (ws_subs s ! i)) \<noteq> su_id (fst (ws_subs s ! j))"
proof -
  have "distinct (map (su_id \<circ> fst) (ws_subs s))" using assms(1) by (simp add: watch_inv_def)
  from nth_eq_iff_index_eq [OF this, of i j] assms(2-4) show ?thesis by simp
qed

lemma watch_first_inv:
  assumes inv: "watch_inv s" and step: "watch_exec (PollFirst j cx) s = Some t"
  shows "watch_inv t"
proof -
  let ?sub = "fst (ws_subs s ! j)"
  obtain out sub where load: "poll_load (ca_state (ws_cast s)) ?sub = Ret (out, sub)" "su_id sub = su_id ?sub"
    and out: "case out of None \<Rightarrow> sub = ?sub \<and> su_last_state ?sub = ca_state (ws_cast s)
        | Some st \<Rightarrow> su_last_state sub = ca_state (ws_cast s) \<and> su_last_state ?sub \<noteq> ca_state (ws_cast s)
            \<and> st = status_of (ca_state (ws_cast s))"
    using poll_load_ok [OF inv, of ?sub] by blast
  let ?s = "s\<lparr>ws_woken := filter (\<lambda>(i, _). i \<noteq> su_id sub) (ws_woken s)\<rparr>"
  let ?pc = "if out = None then SubLocking cx else SubRun"
  from step load(1) have j: "j < length (ws_subs s)" and t: "t = watch_put j sub ?pc out ?s"
    by (auto simp: watch_exec_def split: if_splits)
  show ?thesis unfolding t
  proof (rule watch_put_inv [OF inv j load(2)])
    show "parked_ok (watch_put j sub ?pc out ?s) (fst (ws_subs s ! i)) (snd (ws_subs s ! i))" if "i < length (ws_subs s)" "i \<noteq> j" for i
      using watch_invD(2) [OF inv that(1)] other_id [OF inv that(1) j that(2)] load(2)
      by (auto simp: parked_ok_def watch_put_def)
  qed (use out in \<open>auto simp: parked_ok_def split: option.splits\<close>)
qed

lemma register_waker_map:
  "map_of (ca_subs (register_waker i cx c)) = (map_of (ca_subs c))(i \<mapsto> cx)" "ca_state (register_waker i cx c) = ca_state c"
  by (auto simp: register_waker_def update_conv fun_eq_iff split: option.splits)

lemma watch_second_inv:
  assumes inv: "watch_inv s" and step: "watch_exec (PollSecond j) s = Some t"
  shows "watch_inv t"
proof -
  let ?sub = "fst (ws_subs s ! j)"
  obtain out sub where load: "poll_load (ca_state (ws_cast s)) ?sub = Ret (out, sub)" "su_id sub = su_id ?sub"
    and out: "case out of None \<Rightarrow> sub = ?sub \<and> su_last_state ?sub = ca_state (ws_cast s)
        | Some st \<Rightarrow> su_last_state sub = ca_state (ws_cast s) \<and> su_last_state ?sub \<noteq> ca_state (ws_cast s)
            \<and> st = status_of (ca_state (ws_cast s))"
    using poll_load_ok [OF inv, of ?sub] by blast
  from step obtain cx where j: "j < length (ws_subs s)" "\<not> ws_locked s" and pc: "snd (ws_subs s ! j) = SubLocking cx"
    by (auto simp: watch_exec_def split: if_splits sub_pc.splits)
  show ?thesis
  proof (cases out)
    case None
    with out have sub: "sub = ?sub" "su_last_state ?sub = ca_state (ws_cast s)" by auto
    let ?s = "s\<lparr>ws_cast := register_waker (su_id ?sub) cx (ws_cast s)\<rparr>"
    from step load(1) None j pc sub have t: "t = watch_put j ?sub (SubParked cx) None ?s"
      by (simp add: watch_exec_def poll_locked_def)
    show ?thesis unfolding t
    proof (rule watch_put_inv [OF inv j(1) refl])
      show "parked_ok (watch_put j ?sub (SubParked cx) None ?s) ?sub (SubParked cx)"
        using sub by (simp add: parked_ok_def watch_put_def register_waker_map)
      show "parked_ok (watch_put j ?sub (SubParked cx) None ?s) (fst (ws_subs s ! i)) (snd (ws_subs s ! i))"
        if "i < length (ws_subs s)" "i \<noteq> j" for i
        using watch_invD(2) [OF inv that(1)] other_id [OF inv that(1) j(1) that(2)]
        by (auto simp: parked_ok_def watch_put_def register_waker_map)
    qed (simp_all add: register_waker_map)
  next
    case (Some st)
    from step load(1) Some j pc have t: "t = watch_put j sub SubRun (Some st) (s\<lparr>ws_cast := ws_cast s\<rparr>)"
      by (simp add: watch_exec_def poll_locked_def)
    show ?thesis unfolding t
    proof (rule watch_put_inv [OF inv j(1) load(2)])
      show "parked_ok (watch_put j sub SubRun (Some st) (s\<lparr>ws_cast := ws_cast s\<rparr>)) (fst (ws_subs s ! i)) (snd (ws_subs s ! i))"
        if "i < length (ws_subs s)" "i \<noteq> j" for i
        using watch_invD(2) [OF inv that(1)] by (simp add: parked_ok_def watch_put_def)
    qed (use out Some in \<open>auto simp: parked_ok_def\<close>)
  qed
qed

interpretation wts: invariant_system watch_init watch_step watch_inv
proof unfold_locales
  fix s
  assume "watch_init s"
  then obtain st ids where s: "distinct ids" "s = watch_new st ids" by (auto simp: watch_init_def)
  have "version (VERSION_STEP OR status_num st) = 1"
    by (cases st) (simp_all add: version_def VERSION_STEP_def status_num_def)
  with s show "watch_inv s"
    by (auto simp: watch_inv_def watch_new_def cast_new_def seen_ok_def parked_ok_def subscriber_new_def comp_def)
next
  fix s t
  assume "watch_inv s" "watch_step s t"
  then obtain a where "watch_exec a s = Some t" by (auto simp: exec_step_def)
  with \<open>watch_inv s\<close> show "watch_inv t"
    using watch_store_inv watch_wake_inv watch_first_inv watch_second_inv by (cases a) blast+
qed

section \<open>Properties\<close>

text \<open>
  C8. No update of a service's status is lost on its watchers. In every interleaving, what a
  watcher has yielded is a subsequence of the updates in their order; polling never panics;
  and when no broadcast is under way and a parked watcher has not been woken, the last
  status it yielded is the current one, provided fewer than 2^61 updates were made, after
  which the version would wrap around.
\<close>

theorem watch_no_lost_update:
  assumes "reach watch_init watch_step s" "j < length (ws_subs s)"
  shows "subseq (ws_seen s ! j) (history s)
    \<and> (\<exists>r. poll_load (ca_state (ws_cast s)) (fst (ws_subs s ! j)) = Ret r)
    \<and> (snd (ws_subs s ! j) = SubParked wk \<and> \<not> ws_locked s \<and> (su_id (fst (ws_subs s ! j)), wk) \<notin> set (ws_woken s)
         \<and> length (ws_states s) < 2 ^ 61 \<longrightarrow>
       ws_seen s ! j \<noteq> [] \<and> last (ws_seen s ! j) = last (history s))"
proof -
  have inv: "watch_inv s" using wts.reach_inv [OF assms(1)] .
  note ok = watch_invD [OF inv assms(2)]
  have st: "ws_states s \<noteq> []" "last (ws_states s) = ca_state (ws_cast s)" using inv by (simp_all add: watch_inv_def)
  have "subseq (ws_seen s ! j) (history s)"
  proof (cases "ws_seen s ! j = []")
    case False
    with ok(1) obtain k where "subseq (ws_seen s ! j) (map status_of (take (Suc k) (ws_states s)))"
      by (auto simp: seen_ok_def)
    then show ?thesis unfolding history_def
      by (metis append_take_drop_id map_append subseq_rev_drop_many)
  qed simp
  moreover have "\<exists>r. poll_load (ca_state (ws_cast s)) (fst (ws_subs s ! j)) = Ret r"
    using poll_load_ok [OF inv] by blast
  moreover have "ws_seen s ! j \<noteq> [] \<and> last (ws_seen s ! j) = last (history s)"
    if "snd (ws_subs s ! j) = SubParked wk" "\<not> ws_locked s" "(su_id (fst (ws_subs s ! j)), wk) \<notin> set (ws_woken s)"
      "length (ws_states s) < 2 ^ 61"
  proof -
    have cur: "su_last_state (fst (ws_subs s ! j)) = ca_state (ws_cast s)" using ok(2) that by (auto simp: parked_ok_def)
    have "version (ca_state (ws_cast s)) = length (ws_states s)" using inv that(4) by (simp add: watch_inv_def)
    with st(1) have "ca_state (ws_cast s) \<noteq> 0" by (auto simp: version_def)
    with ok(1) cur st show ?thesis by (auto simp: seen_ok_def history_def last_map)
  qed
  ultimately show ?thesis by blast
qed

definition watch_sample :: "watch_act list" where
  "watch_sample = [PollFirst 0 5, PollFirst 0 5, PollSecond 0, StoreStatus NotServing, WakeAll, PollFirst 0 5, PollFirst 0 5, PollSecond 0]"

lemma watch_sample_run:
  "\<exists>t. run_acts watch_exec watch_sample (watch_new Serving [1]) = Some t \<and> ws_seen t = [[Serving, NotServing]]
    \<and> ws_subs t = [(\<lparr>su_last_state = 18, su_id = 1\<rparr>, SubParked 5)] \<and> \<not> ws_locked t \<and> ws_woken t = [] \<and> length (ws_states t) = 2"
  by (simp add: watch_sample_def watch_new_def watch_exec_def cast_new_def subscriber_new_def poll_load_def state_to_status_def
      status_from_i32_def VERSION_STEP_def STATUS_MASK_def status_num_def watch_put_def poll_locked_def register_waker_def
      broadcast_store_def broadcast_wake_def next_state_def Let_def)

theorem watch_no_lost_update_witness:
  "\<exists>t. run_acts watch_exec watch_sample (watch_new Serving [1]) = Some t
     \<and> subseq (ws_seen t ! 0) (history t) \<and> last (ws_seen t ! 0) = last (history t)"
proof -
  obtain t where t: "run_acts watch_exec watch_sample (watch_new Serving [1]) = Some t"
    "ws_subs t = [(\<lparr>su_last_state = 18, su_id = 1\<rparr>, SubParked 5)]" "\<not> ws_locked t" "ws_woken t = []" "length (ws_states t) = 2"
    using watch_sample_run by blast
  have "watch_init (watch_new Serving [1])"
    unfolding watch_init_def by (intro exI [of _ Serving] exI [of _ "[1]"]) simp
  then have "reach watch_init watch_step (watch_new Serving [1])" by (rule reach.reach_init)
  then have r: "reach watch_init watch_step t" by (rule run_acts_reach [OF t(1)])
  have j: "0 < length (ws_subs t)" using t(2) by simp
  show ?thesis using watch_no_lost_update [OF r j, of 5] t by auto
qed

section \<open>The service\<close>

text \<open>
  \<^verbatim>\<open>Inner\<close>, with the casts it points to, their reference counts and the next free
  address.
\<close>

record health =
  he_id :: u64
  he_shutdown :: bool
  he_status :: "(string \<times> ServingStatus) list"
  he_casts :: "(string \<times> nat) list"
  he_store :: "nat \<Rightarrow> status_cast"
  he_count :: "nat \<Rightarrow> nat"
  he_next :: nat

definition health_new :: health where
  "health_new = \<lparr>he_id = 0, he_shutdown = False, he_status = [], he_casts = [], he_store = (\<lambda>_. cast_new Unknown),
     he_count = (\<lambda>_. 0), he_next = 0\<rparr>"

text \<open>
  \<^verbatim>\<open>set_serving_status\<close> in two parts: under the lock the status is set and the cast
  cloned; the broadcast comes after the lock has been released.
\<close>

definition set_begin :: "string \<Rightarrow> ServingStatus \<Rightarrow> health \<Rightarrow> nat option \<times> health" where
  "set_begin service status h =
     (if he_shutdown h then (None, h)
      else (let h = h\<lparr>he_status := AList.update service status (he_status h)\<rparr> in
            case map_of (he_casts h) service of
              Some p \<Rightarrow> (Some p, h\<lparr>he_count := (he_count h)(p := Suc (he_count h p))\<rparr>)
            | None \<Rightarrow> (None, h)))"

definition cast_broadcast :: "ServingStatus \<Rightarrow> nat \<Rightarrow> health \<Rightarrow> health" where
  "cast_broadcast status p h = h\<lparr>he_store := (he_store h)(p := snd (broadcast status (he_store h p)))\<rparr>"

definition set_finish :: "ServingStatus \<Rightarrow> nat option \<Rightarrow> health \<Rightarrow> health" where
  "set_finish status cast h = (case cast of
     None \<Rightarrow> h
   | Some p \<Rightarrow> (let h = cast_broadcast status p h in h\<lparr>he_count := (he_count h)(p := he_count h p - 1)\<rparr>))"

definition set_serving_status :: "string \<Rightarrow> ServingStatus \<Rightarrow> health \<Rightarrow> health" where
  "set_serving_status service status h = (case set_begin service status h of (cast, h) \<Rightarrow> set_finish status cast h)"

definition health_shutdown :: "health \<Rightarrow> health" where
  "health_shutdown h =
     (let h = h\<lparr>he_shutdown := True, he_status := map (\<lambda>(n, _). (n, NotServing)) (he_status h)\<rparr> in
      fold (\<lambda>(_, p). cast_broadcast NotServing p) (he_casts h) h)"

definition health_check :: "string \<Rightarrow> health \<Rightarrow> RpcStatus + ServingStatus" where
  "health_check service h = (case map_of (he_status h) service of
     Some status \<Rightarrow> Inr status
   | None \<Rightarrow> Inl (with_message NOT_FOUND ''unknown service''))"

text \<open>\<^verbatim>\<open>watch\<close>: the subscriber and its cast; and what runs when the stream has ended.\<close>

definition watch_begin :: "string \<Rightarrow> health \<Rightarrow> (subscriber \<times> nat) \<times> health" where
  "watch_begin name h =
     (let h = h\<lparr>he_id := he_id h + 1\<rparr> in
      case map_of (he_casts h) name of
        Some p \<Rightarrow> ((subscriber_new (he_id h), p), h\<lparr>he_count := (he_count h)(p := Suc (he_count h p))\<rparr>)
      | None \<Rightarrow>
          (let status = (case map_of (he_status h) name of Some s \<Rightarrow> s | None \<Rightarrow> ServiceUnknown); p = he_next h in
           ((subscriber_new (he_id h), p),
            h\<lparr>he_store := (he_store h)(p := cast_new status), he_casts := AList.update name p (he_casts h),
              he_count := (he_count h)(p := 2), he_next := Suc p\<rparr>)))"

definition watch_end :: "string \<Rightarrow> subscriber \<Rightarrow> nat \<Rightarrow> health \<Rightarrow> health" where
  "watch_end name sub p h =
     (let h = h\<lparr>he_store := (he_store h)(p := subscriber_drop sub (he_store h p)),
                he_count := (he_count h)(p := he_count h p - 1)\<rparr> in
      case map_of (he_casts h) name of
        Some c \<Rightarrow> if he_count h c = 1 then h\<lparr>he_casts := AList.delete name (he_casts h)\<rparr> else h
      | None \<Rightarrow> h)"

text \<open>
  What the watchers of a name should see: the status of the service; for a name without one,
  that the service is unknown, or that it is not serving if the service was shut down.
\<close>

definition agrees :: "health \<Rightarrow> string \<Rightarrow> ServingStatus \<Rightarrow> bool" where
  "agrees h n st = (case map_of (he_status h) n of
     Some s \<Rightarrow> st = s
   | None \<Rightarrow> st = ServiceUnknown \<or> he_shutdown h \<and> st = NotServing)"

definition health_inv :: "health \<Rightarrow> bool" where
  "health_inv h \<longleftrightarrow> distinct (map fst (he_casts h)) \<and> distinct (map snd (he_casts h)) \<and>
     (\<forall>n p. (n, p) \<in> set (he_casts h) \<longrightarrow>
        p < he_next h \<and> (\<exists>st. state_to_status (ca_state (he_store h p)) = Ret st \<and> agrees h n st)) \<and>
     (he_shutdown h \<longrightarrow> (\<forall>n st. (n, st) \<in> set (he_status h) \<longrightarrow> st = NotServing))"

datatype health_act =
    HSet string ServingStatus
  | HShutdown
  | HWatch string
  | HEnd string subscriber nat

definition health_exec :: "health_act \<Rightarrow> health \<Rightarrow> health option" where
  "health_exec a h = Some (case a of
     HSet n st \<Rightarrow> set_serving_status n st h
   | HShutdown \<Rightarrow> health_shutdown h
   | HWatch n \<Rightarrow> snd (watch_begin n h)
   | HEnd n sub p \<Rightarrow> watch_end n sub p h)"

lemma broadcast_state: "ca_state (snd (broadcast st c)) = next_state (ca_state c) st"
  by (simp add: broadcast_def broadcast_wake_def broadcast_store_def)

lemma fold_broadcast:
  "distinct (map snd cs) \<Longrightarrow>
   (let h' = fold (\<lambda>(_, p). cast_broadcast st p) cs h in
    (\<forall>q. he_store h' q = (if q \<in> snd ` set cs then snd (broadcast st (he_store h q)) else he_store h q))
    \<and> he_status h' = he_status h \<and> he_casts h' = he_casts h \<and> he_next h' = he_next h \<and> he_shutdown h' = he_shutdown h)"
proof (induction cs arbitrary: h)
  case (Cons c cs)
  obtain n p where c: "c = (n, p)" by fastforce
  from Cons.IH [of "cast_broadcast st p h"] Cons.prems show ?case
    by (auto simp: c Let_def cast_broadcast_def image_iff)
qed simp

lemma cast_of:
  assumes "health_inv h" "(n, p) \<in> set (he_casts h)"
  shows "p < he_next h" "\<exists>st. state_to_status (ca_state (he_store h p)) = Ret st \<and> agrees h n st"
  using assms by (auto simp: health_inv_def)

lemma same_pointer:
  assumes "health_inv h" "(n, p) \<in> set (he_casts h)" "(m, p) \<in> set (he_casts h)"
  shows "n = m"
  using assms unfolding health_inv_def distinct_map inj_on_def by (metis prod.inject snd_conv)

lemma agrees_same:
  "map_of (he_status h') n = map_of (he_status h) n \<Longrightarrow> he_shutdown h' = he_shutdown h \<Longrightarrow> agrees h' n st = agrees h n st"
  by (simp add: agrees_def split: option.splits)

lemma health_inv_mono:
  assumes "health_inv h" "he_status h' = he_status h" "he_shutdown h' = he_shutdown h" "he_next h' = he_next h"
    and "\<And>q. ca_state (he_store h' q) = ca_state (he_store h q)"
    and "set (he_casts h') \<subseteq> set (he_casts h)" "distinct (map fst (he_casts h'))" "distinct (map snd (he_casts h'))"
  shows "health_inv h'"
proof -
  have "agrees h' m v = agrees h m v" for m v using assms(2,3) by (intro agrees_same) simp_all
  with assms show ?thesis unfolding health_inv_def by auto
qed

lemma update_fresh: "n \<notin> fst ` set xs \<Longrightarrow> AList.update n p xs = xs @ [(n, p)]"
  by (induction xs) auto

lemma set_inv:
  assumes inv: "health_inv h"
  shows "health_inv (set_serving_status n st h)"
proof (cases "he_shutdown h")
  case True
  with inv show ?thesis by (simp add: set_serving_status_def set_begin_def set_finish_def)
next
  case False
  let ?h = "set_serving_status n st h"
  have frame: "he_casts ?h = he_casts h" "he_next ?h = he_next h" "he_shutdown ?h = he_shutdown h"
    "he_status ?h = AList.update n st (he_status h)"
    using False by (auto simp: set_serving_status_def set_begin_def set_finish_def cast_broadcast_def Let_def split: option.splits)
  have store: "he_store ?h q = (if map_of (he_casts h) n = Some q then snd (broadcast st (he_store h q)) else he_store h q)" for q
    using False by (auto simp: set_serving_status_def set_begin_def set_finish_def cast_broadcast_def Let_def split: option.splits)
  have "\<exists>v. state_to_status (ca_state (he_store ?h p)) = Ret v \<and> agrees ?h m v" if mp: "(m, p) \<in> set (he_casts h)" for m p
  proof (cases "m = n")
    case True
    with mp inv have "map_of (he_casts h) n = Some p" by (simp add: health_inv_def)
    then show ?thesis using True by (simp add: store broadcast_state agrees_def frame update_conv)
  next
    case other: False
    have "map_of (he_casts h) n \<noteq> Some p" using same_pointer [OF inv mp] other by (auto dest: map_of_SomeD)
    moreover have "agrees ?h m v = agrees h m v" for v
      using other by (intro agrees_same) (simp_all add: frame update_conv)
    ultimately show ?thesis using cast_of(2) [OF inv mp] by (simp add: store)
  qed
  then show ?thesis using inv False by (auto simp: health_inv_def frame)
qed

lemma shutdown_inv:
  assumes inv: "health_inv h"
  shows "health_inv (health_shutdown h)"
proof -
  let ?h0 = "h\<lparr>he_shutdown := True, he_status := map (\<lambda>(n, _). (n, NotServing)) (he_status h)\<rparr>"
  have d: "distinct (map snd (he_casts h))" using inv by (simp add: health_inv_def)
  note fb = fold_broadcast [OF d, of NotServing ?h0, unfolded Let_def]
  have map_status: "map_of (map (\<lambda>(n, _). (n, NotServing)) xs) m = (case map_of xs m of None \<Rightarrow> None | Some _ \<Rightarrow> Some NotServing)" for xs m
    by (induction xs) (auto split: option.splits)
  have "\<exists>v. state_to_status (ca_state (he_store (health_shutdown h) p)) = Ret v \<and> agrees (health_shutdown h) m v"
    if "(m, p) \<in> set (he_casts h)" for m p
  proof -
    have "p \<in> snd ` set (he_casts h)" using that by force
    with fb have "state_to_status (ca_state (he_store (health_shutdown h) p)) = Ret NotServing"
      by (simp add: health_shutdown_def broadcast_state)
    moreover have "agrees (health_shutdown h) m NotServing"
      using fb by (auto simp: health_shutdown_def agrees_def map_status split: option.splits)
    ultimately show ?thesis by blast
  qed
  then show ?thesis using inv fb by (auto simp: health_inv_def health_shutdown_def)
qed

lemma watch_begin_inv:
  assumes inv: "health_inv h"
  shows "health_inv (snd (watch_begin n h))"
proof (cases "map_of (he_casts h) n")
  case (Some p)
  show ?thesis
    by (rule health_inv_mono [OF inv]) (use Some inv in \<open>simp_all add: watch_begin_def Let_def health_inv_def\<close>)
next
  case None
  let ?st = "case map_of (he_status h) n of Some s \<Rightarrow> s | None \<Rightarrow> ServiceUnknown"
  have fresh: "n \<notin> fst ` set (he_casts h)" using None by (simp add: map_of_eq_None_iff)
  let ?h = "snd (watch_begin n h)"
  have h: "he_casts ?h = he_casts h @ [(n, he_next h)]" "he_status ?h = he_status h" "he_shutdown ?h = he_shutdown h"
    "he_store ?h = (he_store h)(he_next h := cast_new ?st)" "he_next ?h = Suc (he_next h)"
    using None update_fresh [OF fresh] by (simp_all add: watch_begin_def Let_def)
  have low: "q < he_next h" if "(m, q) \<in> set (he_casts h)" for m q using cast_of(1) [OF inv that] .
  have ag: "agrees ?h m v = agrees h m v" for m v by (intro agrees_same) (simp_all add: h)
  have "\<exists>v. state_to_status (ca_state (he_store ?h q)) = Ret v \<and> agrees ?h m v" if "(m, q) \<in> set (he_casts ?h)" for m q
  proof (cases "(m, q) \<in> set (he_casts h)")
    case True
    with cast_of(2) [OF inv True] low [OF True] show ?thesis by (simp add: h(4) ag)
  next
    case False
    with that have "m = n" "q = he_next h" by (auto simp: h(1))
    moreover have "agrees h n ?st" by (simp add: agrees_def split: option.splits)
    ultimately show ?thesis by (simp add: h(4) ag cast_new_def)
  qed
  moreover have "distinct (map fst (he_casts ?h))" "distinct (map snd (he_casts ?h))"
    using inv fresh low by (fastforce simp: h(1) health_inv_def)+
  moreover have "q < he_next ?h" if "(m, q) \<in> set (he_casts ?h)" for m q
    using that low by (fastforce simp: h less_Suc_eq)
  ultimately show ?thesis using inv unfolding health_inv_def h(2,3) by blast
qed

lemma watch_end_inv:
  assumes inv: "health_inv h"
  shows "health_inv (watch_end n sub p h)"
proof -
  have keep: "ca_state (subscriber_drop sub c) = ca_state c" for c by (simp add: subscriber_drop_def)
  let ?h = "h\<lparr>he_store := (he_store h)(p := subscriber_drop sub (he_store h p)), he_count := (he_count h)(p := he_count h p - 1)\<rparr>"
  have d: "distinct (map fst (he_casts h))" "distinct (map snd (he_casts h))" using inv by (simp_all add: health_inv_def)
  have "health_inv ?h" by (rule health_inv_mono [OF inv]) (simp_all add: keep d)
  moreover have "health_inv (?h\<lparr>he_casts := AList.delete n (he_casts h)\<rparr>)"
    by (rule health_inv_mono [OF inv]) (use d in \<open>auto simp: keep AList.delete_eq distinct_map_filter\<close>)
  ultimately show ?thesis by (simp add: watch_end_def Let_def split: option.splits)
qed

interpretation hls: invariant_system "\<lambda>h. h = health_new" "exec_step health_exec" health_inv
proof unfold_locales
  show "health_inv h" if "h = health_new" for h using that by (simp add: health_inv_def health_new_def)
  show "health_inv t" if "health_inv h" "exec_step health_exec h t" for h t
  proof -
    from that(2) obtain a where "health_exec a h = Some t" by (auto simp: exec_step_def)
    with that(1) show ?thesis
      by (cases a) (auto simp: health_exec_def intro: set_inv shutdown_inv watch_begin_inv watch_end_inv)
  qed
qed



text \<open>
  Interleaved they need not agree: the broadcast of an update comes after the lock has
  been released, so when a shutdown slips in between, the watchers are told last that the
  service is serving, while every check answers that it is not, for good.
\<close>

theorem late_broadcast_after_shutdown:
  assumes "\<not> he_shutdown h" "map_of (he_casts h) n = Some p" "distinct (map snd (he_casts h))"
  shows "\<exists>h1. set_begin n Serving h = (Some p, h1)
    \<and> (let h2 = set_finish Serving (Some p) (health_shutdown h1) in
       state_to_status (ca_state (he_store h2 p)) = Ret Serving
       \<and> health_check n h2 = Inr NotServing \<and> he_shutdown h2 \<and> map_of (he_casts h2) n = Some p)"
proof -
  let ?h1 = "h\<lparr>he_status := AList.update n Serving (he_status h), he_count := (he_count h)(p := Suc (he_count h p))\<rparr>"
  let ?h2 = "set_finish Serving (Some p) (health_shutdown ?h1)"
  have set: "set_begin n Serving h = (Some p, ?h1)" using assms by (simp add: set_begin_def Let_def)
  let ?h0 = "?h1\<lparr>he_shutdown := True, he_status := map (\<lambda>(n, _). (n, NotServing)) (he_status ?h1)\<rparr>"
  have "distinct (map snd (he_casts h))" using assms(3) .
  note fb = fold_broadcast [OF this, of NotServing ?h0, unfolded Let_def]
  have frame: "he_status ?h2 = map (\<lambda>(n, _). (n, NotServing)) (AList.update n Serving (he_status h))" "he_casts ?h2 = he_casts h" "he_shutdown ?h2"
    using fb by (simp_all add: set_finish_def cast_broadcast_def health_shutdown_def Let_def)
  have "map_of (map (\<lambda>(n, _). (n, NotServing)) xs) m = (case map_of xs m of None \<Rightarrow> None | Some _ \<Rightarrow> Some NotServing)" for xs :: "(string \<times> ServingStatus) list" and m
    by (induction xs) (auto split: option.splits)
  then have "health_check n ?h2 = Inr NotServing" by (simp add: health_check_def frame update_conv)
  moreover have "state_to_status (ca_state (he_store ?h2 p)) = Ret Serving"
    by (simp add: set_finish_def cast_broadcast_def Let_def broadcast_state)
  ultimately show ?thesis using set frame assms(2) by (auto simp: Let_def)
qed

theorem late_broadcast_after_shutdown_witness:
  "\<exists>h1. set_begin ''a'' Serving (snd (watch_begin ''a'' health_new)) = (Some 0, h1)
    \<and> health_check ''a'' (set_finish Serving (Some 0) (health_shutdown h1)) = Inr NotServing"
  using late_broadcast_after_shutdown [of "snd (watch_begin ''a'' health_new)" "''a''" 0]
  by (auto simp: watch_begin_def health_new_def Let_def)

end
