(* ===== verification/Grpc_Names.thy ===== *)
theory Grpc_Names
  imports Grpc_Prelude
begin

text \<open>
  \<^verbatim>\<open>compiler/src/util.rs\<close>: how the code generators turn the names of a proto file
  into Rust names. Identifiers of a proto file are ASCII, so lower and upper case are the
  ASCII ones. The iterator \<^verbatim>\<open>NameSpliter\<close> is the part of the name it has not
  visited yet, the bytes from \<^verbatim>\<open>pos\<close> on.
\<close>

section \<open>Splitting a name into words\<close>

abbreviation underscore :: byte where
  "underscore \<equiv> CHR ''_''"

text \<open>
  The loop of \<^verbatim>\<open>next\<close>: the length of the word that starts here, given the number of
  bytes visited, of capitals among them, and whether another byte was met.
\<close>

fun word_len :: "bytes \<Rightarrow> nat \<Rightarrow> nat \<Rightarrow> bool \<Rightarrow> nat" where
  "word_len [] i upper_len meet_lower = i"
| "word_len (c # cs) i upper_len meet_lower =
     (if is_upper c then (if meet_lower then i else word_len cs (Suc i) (Suc upper_len) meet_lower)
      else if c = underscore then i
      else if 1 < upper_len then i - 1
      else word_len cs (Suc i) upper_len True)"

definition name_next :: "bytes \<Rightarrow> (bytes \<times> bytes) option" where
  "name_next s =
     (if s = [] then None
      else let s = dropWhile (\<lambda>c. c = underscore) s; n = word_len s 0 0 False in Some (take n s, drop n s))"

lemma word_len_ge: "i - 1 \<le> word_len s i u m" "\<not> 1 < u \<Longrightarrow> i \<le> word_len s i u m \<or> 1 < i"
  by (induction s i u m rule: word_len.induct) auto

lemma word_len_progress: "s \<noteq> [] \<Longrightarrow> hd s \<noteq> underscore \<Longrightarrow> 0 < word_len s 0 0 False"
proof (cases s)
  case (Cons c cs)
  moreover assume "hd s \<noteq> underscore"
  moreover have "1 \<le> word_len cs 1 0 True"
    by (cases cs) (use word_len_ge(1) [of "Suc (Suc 0)"] in auto)
  moreover have "1 \<le> word_len cs 1 1 False"
    by (cases cs) (use word_len_ge(1) [of "Suc (Suc 0)"] in auto)
  ultimately show ?thesis by auto
qed simp

lemma name_next_shorter:
  assumes "name_next s = Some (w, r)"
  shows "length r < length s"
proof -
  let ?t = "dropWhile (\<lambda>c. c = underscore) s"
  have s: "s \<noteq> []" "r = drop (word_len ?t 0 0 False) ?t" using assms by (auto simp: name_next_def Let_def split: if_splits)
  have len: "length ?t \<le> length s" by (rule length_dropWhile_le)
  show ?thesis
  proof (cases "?t = []")
    case False
    then have "hd ?t \<noteq> underscore" using hd_dropWhile by blast
    with False word_len_progress [of ?t] have "0 < word_len ?t 0 0 False" by blast
    moreover have "0 < length ?t" using False by (rule length_greater_0_conv [THEN iffD2])
    ultimately show ?thesis using s(2) len unfolding s(2) length_drop by linarith
  next
    case True
    then have "r = []" using s(2) by (simp only: drop_Nil)
    then show ?thesis using s(1) by simp
  qed
qed

function split_name :: "bytes \<Rightarrow> bytes list" where
  "split_name s = (case name_next s of None \<Rightarrow> [] | Some (w, r) \<Rightarrow> w # split_name r)"
  by pat_completeness auto

termination
  by (relation "measure length") (use name_next_shorter in auto)

declare split_name.simps [simp del]

section \<open>Snake case, camel case and paths\<close>

definition to_snake_case :: "bytes \<Rightarrow> bytes" where
  "to_snake_case name = butlast (concat (map (\<lambda>s. map to_lower s @ [underscore]) (split_name name)))"

fun camel_words :: "bytes list \<Rightarrow> bytes outcome" where
  "camel_words [] = Ret []"
| "camel_words (s # ws) =
     obind (unwrap (case s of [] \<Rightarrow> None | c # _ \<Rightarrow> Some c)) (\<lambda>c.
     obind (camel_words ws) (\<lambda>rest. Ret (to_upper c # map to_lower (tl s) @ rest)))"

definition to_camel_case :: "bytes \<Rightarrow> bytes outcome" where
  "to_camel_case name = camel_words (split_name name)"

definition fq_grpc :: "bytes \<Rightarrow> bytes" where
  "fq_grpc item = ''::grpcio::'' @ item"

section \<open>Words\<close>

text \<open>A word: capitals only, or at most one capital and then none.\<close>

definition is_word :: "bytes \<Rightarrow> bool" where
  "is_word w \<longleftrightarrow> underscore \<notin> set w \<and>
     (\<exists>us ls. w = us @ ls \<and> list_all is_upper us \<and> \<not> list_ex is_upper ls \<and> (ls = [] \<or> length us \<le> 1))"

lemma is_upper_underscore [simp]: "\<not> is_upper underscore"
  by (simp add: is_upper_def)

lemma is_word_upper: "list_all is_upper us \<Longrightarrow> is_word us"
  unfolding is_word_def by (rule conjI) (auto simp: list_all_iff intro: exI [of _ us] exI [of _ "[]"])

lemma word_len_word:
  assumes "underscore \<notin> set (us @ ls)" "list_all is_upper us" "\<not> list_ex is_upper ls" "ls \<noteq> [] \<Longrightarrow> length us \<le> 1"
  shows "is_word (take (word_len s (length (us @ ls)) (length us) (ls \<noteq> [])) (us @ ls @ s))"
  using assms
proof (induction s arbitrary: us ls)
  case Nil
  then show ?case by (auto simp: is_word_def)
next
  case (Cons c s)
  have fin: "is_word (us @ ls)" using Cons.prems by (auto simp: is_word_def)
  consider "is_upper c" "ls \<noteq> []" | "is_upper c" "ls = []" | "c = underscore"
    | "\<not> is_upper c" "c \<noteq> underscore" "1 < length us" | "\<not> is_upper c" "c \<noteq> underscore" "length us \<le> 1" by linarith
  then show ?case
  proof cases
    case 2
    then have "c \<noteq> underscore" by auto
    then show ?thesis using 2 Cons.IH [of "us @ [c]" "[]"] Cons.prems by simp
  next
    case 4
    have "is_word (take (length us - 1) us)"
      using Cons.prems(2) by (intro is_word_upper) (auto simp: list_all_iff dest: in_set_takeD)
    moreover have "ls = []" using Cons.prems(4) 4 by auto
    ultimately show ?thesis using 4 by simp
  next
    case 5
    then show ?thesis using Cons.IH [of us "ls @ [c]"] Cons.prems by simp
  qed (use fin in auto)
qed

lemma name_next_word:
  assumes "name_next s = Some (w, r)"
  shows "is_word w" "dropWhile (\<lambda>c. c = underscore) s = w @ r" "w = [] \<longleftrightarrow> dropWhile (\<lambda>c. c = underscore) s = []"
proof -
  let ?t = "dropWhile (\<lambda>c. c = underscore) s"
  have w: "w = take (word_len ?t 0 0 False) ?t" "r = drop (word_len ?t 0 0 False) ?t"
    using assms by (auto simp: name_next_def Let_def split: if_splits)
  show "is_word w" using word_len_word [of "[]" "[]" ?t] w(1) by simp
  show "?t = w @ r" by (simp add: w)
  have "hd ?t \<noteq> underscore" if "?t \<noteq> []" using hd_dropWhile that by blast
  then have "0 < word_len ?t 0 0 False" if "?t \<noteq> []" using word_len_progress that by blast
  then show "w = [] \<longleftrightarrow> ?t = []" unfolding w(1) take_eq_Nil by (metis less_irrefl)
qed

lemma filter_underscore_drop:
  "filter (\<lambda>c. c \<noteq> underscore) (dropWhile (\<lambda>c. c = underscore) s) = filter (\<lambda>c. c \<noteq> underscore) s"
  by (induction s) auto

lemma last_dropWhile: "dropWhile P s \<noteq> [] \<Longrightarrow> last (dropWhile P s) = last s"
  by (metis append_Nil2 last_appendR takeWhile_dropWhile_id)

lemma split_name_Nil [simp]: "split_name [] = []"
  by (simp add: split_name.simps name_next_def)

lemma split_name_empty_iff [simp]: "split_name s = [] \<longleftrightarrow> s = []"
  by (subst split_name.simps) (auto simp: name_next_def Let_def)

text \<open>
  A name is split into words without losing a letter: put together they are the name
  without its underscores; each is capitals only or at most one capital and then none; and
  none is empty but for the last, which is empty exactly if the name ends with an underscore.
\<close>

lemma split_name_words:
  shows "concat (split_name s) = filter (\<lambda>c. c \<noteq> underscore) s \<and> list_all is_word (split_name s)
    \<and> [] \<notin> set (butlast (split_name s)) \<and> (s = [] \<or> (last (split_name s) = [] \<longleftrightarrow> last s = underscore))"
proof (induction s rule: split_name.induct)
  case (1 s)
  show ?case
  proof (cases "name_next s")
    case None
    then show ?thesis by (simp add: name_next_def Let_def split: if_splits)
  next
    case (Some p)
    obtain w r where p: "name_next s = Some (w, r)" using Some by (cases p) auto
    note w = name_next_word [OF p]
    have split: "split_name s = w # split_name r" by (subst split_name.simps) (simp add: p)
    have IH: "concat (split_name r) = filter (\<lambda>c. c \<noteq> underscore) r" "list_all is_word (split_name r)"
        "[] \<notin> set (butlast (split_name r))" "r = [] \<or> (last (split_name r) = [] \<longleftrightarrow> last r = underscore)"
      using 1 [OF p refl] by auto
    have "underscore \<notin> set w" using w(1) by (simp add: is_word_def)
    then have "filter (\<lambda>c. c \<noteq> underscore) w = w" by (auto simp: filter_id_conv)
    then have "concat (split_name s) = filter (\<lambda>c. c \<noteq> underscore) s"
      using filter_underscore_drop [of s] by (simp add: split IH w(2))
    moreover have "[] \<notin> set (butlast (split_name s))"
      using w(2,3) IH(3) by (auto simp: split)
    moreover have "last (split_name s) = [] \<longleftrightarrow> last s = underscore"
    proof (cases "r = []")
      case True
      have "last s \<noteq> underscore" if "w \<noteq> []"
      proof -
        have "w = dropWhile (\<lambda>c. c = underscore) s" using w(2) True by simp
        then have "last s = last w" using last_dropWhile that by metis
        then show ?thesis using \<open>underscore \<notin> set w\<close> that last_in_set by metis
      qed
      moreover have "last s = underscore" if "w = []"
      proof -
        have "s \<noteq> []" using p by (auto simp: name_next_def)
        then show ?thesis using w(3) that by (simp add: dropWhile_eq_Nil_conv)
      qed
      ultimately show ?thesis using True by (auto simp: split)
    next
      case False
      then show ?thesis using IH(4) w(2) last_dropWhile [of "\<lambda>c. c = underscore" s] by (simp add: split)
    qed
    ultimately show ?thesis using w(1) IH(2) by (simp add: split)
  qed
qed

lemma split_name_word: "w \<in> set (split_name s) \<Longrightarrow> underscore \<notin> set w"
  using split_name_words [of s] by (auto simp: list_all_iff is_word_def)

section \<open>Snake case\<close>

text \<open>Words joined by underscores, as the loop of \<^verbatim>\<open>to_snake_case\<close> leaves them.\<close>

definition join_words :: "bytes list \<Rightarrow> bytes" where
  "join_words ws = butlast (concat (map (\<lambda>w. w @ [underscore]) ws))"

lemma join_words_simps [simp]:
  "join_words [] = []"
  "join_words [w] = w"
  "join_words (w # v # ws) = w @ underscore # join_words (v # ws)"
  by (simp_all add: join_words_def butlast_append)

lemma to_snake_case_eq: "to_snake_case s = join_words (map (map to_lower) (split_name s))"
  by (simp add: to_snake_case_def join_words_def comp_def)

definition low_word :: "bytes \<Rightarrow> bool" where
  "low_word w \<longleftrightarrow> list_all (\<lambda>c. \<not> is_upper c \<and> c \<noteq> underscore) w"

lemma word_len_low:
  "low_word w \<Longrightarrow> r = [] \<or> hd r = underscore \<Longrightarrow> u \<le> 1 \<Longrightarrow> word_len (w @ r) i u m = i + length w"
proof (induction w arbitrary: i m)
  case Nil
  then show ?case by (cases r) auto
next
  case (Cons c w)
  then show ?case by (simp add: low_word_def)
qed

lemma dropWhile_low: "low_word w \<Longrightarrow> w \<noteq> [] \<Longrightarrow> dropWhile (\<lambda>c. c = underscore) (w @ r) = w @ r"
  by (cases w) (auto simp: low_word_def)

lemma split_name_low:
  assumes "low_word w" "w \<noteq> []" "r = [] \<or> hd r = underscore"
  shows "split_name (w @ r) = w # split_name r"
  using assms by (subst split_name.simps) (simp add: name_next_def dropWhile_low word_len_low)

lemma split_name_underscore: "split_name (underscore # s) = (if s = [] then [[]] else split_name s)"
proof (cases "s = []")
  case True
  then show ?thesis by (subst split_name.simps) (simp add: name_next_def)
next
  case False
  then have "name_next (underscore # s) = name_next s" by (simp add: name_next_def)
  then show ?thesis using False by (simp add: split_name.simps [of "underscore # s"] split_name.simps [of s])
qed

lemma split_join_words:
  "list_all low_word ws \<Longrightarrow> [] \<notin> set (butlast ws) \<Longrightarrow> ws \<noteq> [[]] \<Longrightarrow> split_name (join_words ws) = ws"
proof (induction ws rule: induct_list012)
  case (2 w)
  then show ?case using split_name_low [of w "[]"] by simp
next
  case (3 w v ws)
  have "v # ws = [[]] \<or> split_name (join_words (v # ws)) = v # ws" using 3 by auto
  then have "split_name (underscore # join_words (v # ws)) = v # ws"
  proof
    assume "split_name (join_words (v # ws)) = v # ws"
    moreover from this have "join_words (v # ws) \<noteq> []" by auto
    ultimately show ?thesis by (simp only: split_name_underscore if_False)
  qed (simp add: split_name_underscore)
  moreover have "split_name (w @ underscore # join_words (v # ws)) = w # split_name (underscore # join_words (v # ws))"
    using 3 by (intro split_name_low) auto
  ultimately show ?case by simp
qed simp

lemma to_lower_underscore [simp]: "to_lower c = underscore \<longleftrightarrow> c = underscore"
proof
  assume l: "to_lower c = underscore"
  have "\<not> is_lower underscore" by (simp add: is_lower_def)
  then have "\<not> is_upper c" using l to_lower_lower [of c] by auto
  then show "c = underscore" using l by (simp add: to_lower_id)
qed (simp add: to_lower_id)

lemma low_word_map_lower: "underscore \<notin> set w \<Longrightarrow> low_word (map to_lower w)"
  by (auto simp: low_word_def list_all_iff)

lemma filter_join_words:
  "list_all (\<lambda>w. underscore \<notin> set w) ws \<Longrightarrow> filter (\<lambda>c. c \<noteq> underscore) (join_words ws) = concat ws"
proof (induction ws rule: induct_list012)
  case (2 w)
  then show ?case by (auto simp: filter_id_conv)
next
  case (3 w v ws)
  then have "filter (\<lambda>c. c \<noteq> underscore) w = w" by (auto simp: filter_id_conv)
  with 3 show ?case by simp
qed simp

lemma join_words_set: "c \<in> set (join_words ws) \<Longrightarrow> c = underscore \<or> (\<exists>w \<in> set ws. c \<in> set w)"
  unfolding join_words_def by (drule in_set_butlastD) (auto split: if_splits)

lemma join_words_lower:
  assumes "list_all low_word ws"
  shows "\<not> list_ex is_upper (join_words ws)"
proof -
  have low: "\<not> is_upper c" if "w \<in> set ws" "c \<in> set w" for c w
    using assms that unfolding list_all_iff low_word_def by blast
  have "\<not> is_upper c" if "c \<in> set (join_words ws)" for c
    using join_words_set [OF that] low is_upper_underscore by metis
  then show ?thesis unfolding list_ex_iff by blast
qed

text \<open>
  The snake case of a name has its letters in order, as small letters, and no capital;
  taking it again changes nothing.
\<close>

theorem snake_case_spec:
  "filter (\<lambda>c. c \<noteq> underscore) (to_snake_case s) = map to_lower (filter (\<lambda>c. c \<noteq> underscore) s)
   \<and> \<not> list_ex is_upper (to_snake_case s) \<and> to_snake_case (to_snake_case s) = to_snake_case s"
proof -
  let ?ws = "map (map to_lower) (split_name s)"
  note words = split_name_words [of s]
  have low: "list_all low_word ?ws"
    using split_name_word low_word_map_lower by (fastforce simp: list_all_iff)
  have plain: "list_all (\<lambda>w. underscore \<notin> set w) ?ws" using low unfolding list_all_iff low_word_def by blast
  have "filter (\<lambda>c. c \<noteq> underscore) (join_words ?ws) = map to_lower (concat (split_name s))"
    using filter_join_words [OF plain] by (simp add: map_concat)
  moreover have "to_snake_case (join_words ?ws) = join_words ?ws"
  proof (cases "?ws = [[]]")
    case False
    have "[] \<notin> set (butlast ?ws)" using words by (auto simp: map_butlast [symmetric])
    then have "split_name (join_words ?ws) = ?ws" using split_join_words [OF low] False by blast
    then show ?thesis by (simp add: to_snake_case_eq comp_def)
  qed (simp add: to_snake_case_eq)
  ultimately show ?thesis
    using join_words_lower [OF low] words by (simp add: to_snake_case_eq)
qed

section \<open>Camel case\<close>

lemma to_lower_to_upper [simp]: "to_lower (to_upper c) = to_lower c"
proof -
  have "(of_char (to_lower (to_upper c)) :: nat) = of_char (to_lower c)"
    by (auto simp: of_char_to_lower of_char_to_upper is_upper_def is_lower_def)
  then show ?thesis by simp
qed

lemma to_upper_underscore [simp]: "to_upper c = underscore \<longleftrightarrow> c = underscore"
  by (metis to_lower_to_upper to_lower_underscore)

fun capitalise :: "bytes \<Rightarrow> bytes" where
  "capitalise [] = []"
| "capitalise (c # cs) = to_upper c # map to_lower cs"

lemma camel_words_eq:
  "camel_words ws = (if [] \<in> set ws then Panic ''called Option::unwrap() on a None value'' else Ret (concat (map capitalise ws)))"
proof (induction ws)
  case (Cons w ws)
  then show ?case by (cases w) auto
qed simp

lemma lower_capitalise: "map to_lower (capitalise w) = map to_lower w"
  by (cases w) simp_all

lemma underscore_lower: "underscore \<in> set (map to_lower w) \<longleftrightarrow> underscore \<in> set w"
proof (induction w)
  case (Cons c w)
  have "underscore = to_lower c \<longleftrightarrow> underscore = c" using to_lower_underscore [of c] by metis
  with Cons.IH show ?case by (simp only: list.map list.set insert_iff)
qed simp

lemma underscore_capitalise: "underscore \<in> set (capitalise w) \<longleftrightarrow> underscore \<in> set w"
  by (metis underscore_lower lower_capitalise)

lemma empty_word_iff: "[] \<in> set (split_name s) \<longleftrightarrow> s \<noteq> [] \<and> last s = underscore"
proof (cases "s = []")
  case False
  then have "split_name s = butlast (split_name s) @ [last (split_name s)]" by simp
  then have "[] \<in> set (split_name s) \<longleftrightarrow> last (split_name s) = []"
    using split_name_words [of s] by (metis (no_types) Un_iff empty_iff insert_iff list.set(1) list.set(2) set_append)
  then show ?thesis using split_name_words [of s] False by blast
qed simp


end
