(* ===== verification/Grpc_Codegen.thy ===== *)
theory Grpc_Codegen
  imports Grpc_Names
begin

text \<open>
  \<^verbatim>\<open>compiler/src/codegen.rs\<close>, the generator that is run as a plugin of
  \<^verbatim>\<open>protoc\<close>. The bytes written and the indentation are the state of the writer;
  what a closure writes into is passed on. The descriptors of a proto file are records of
  what the generator reads from them; \<open>find_message\<close> is the protobuf library's name of a
  message type as a Rust path.
\<close>

section \<open>Method types\<close>

datatype method_type = MUnary | MClientStreaming | MServerStreaming | MDuplex

definition fmt_method_type :: "method_type \<Rightarrow> bytes" where
  "fmt_method_type t = (case t of
     MUnary \<Rightarrow> ''MethodType::Unary''
   | MClientStreaming \<Rightarrow> ''MethodType::ClientStreaming''
   | MServerStreaming \<Rightarrow> ''MethodType::ServerStreaming''
   | MDuplex \<Rightarrow> ''MethodType::Duplex'')"

section \<open>The writer\<close>

text \<open>Statements one after the other.\<close>

definition seq :: "('w \<Rightarrow> 'w) list \<Rightarrow> 'w \<Rightarrow> 'w" where
  "seq fs w = fold (\<lambda>f w. f w) fs w"

record code_writer =
  cw_writer :: bytes
  cw_indent :: bytes

abbreviation newline :: byte where
  "newline \<equiv> CHR 0x0A"

abbreviation quote :: byte where
  "quote \<equiv> CHR 0x22"

definition code_writer_new :: "bytes \<Rightarrow> code_writer" where
  "code_writer_new writer = \<lparr>cw_writer = writer, cw_indent = []\<rparr>"

definition write_line :: "bytes \<Rightarrow> code_writer \<Rightarrow> code_writer" where
  "write_line line w = w\<lparr>cw_writer := cw_writer w @ (if line = [] then [newline] else cw_indent w @ line @ [newline])\<rparr>"

definition comment :: "bytes \<Rightarrow> code_writer \<Rightarrow> code_writer" where
  "comment text = (if text = [] then write_line ''//'' else write_line (''// '' @ text))"

definition write_generated_common :: "code_writer \<Rightarrow> code_writer" where
  "write_generated_common =
     seq
       [write_line ''// @generated'',
        write_line [],
        comment ''https://github.com/Manishearth/rust-clippy/issues/702'',
        write_line ''#![allow(unknown_lints)]'',
        write_line ''#![allow(clippy::all)]'',
        write_line [],
        write_line ''#![allow(box_pointers)]'',
        write_line ''#![allow(dead_code)]'',
        write_line ''#![allow(missing_docs)]'',
        write_line ''#![allow(non_camel_case_types)]'',
        write_line ''#![allow(non_snake_case)]'',
        write_line ''#![allow(non_upper_case_globals)]'',
        write_line ''#![allow(trivial_casts)]'',
        write_line ''#![allow(unsafe_code)]'',
        write_line ''#![allow(unused_imports)]'',
        write_line ''#![allow(unused_results)]'']"

definition write_generated :: "code_writer \<Rightarrow> code_writer" where
  "write_generated = seq [write_line ''// This file is generated. Do not edit'', write_generated_common]"

definition indented :: "(code_writer \<Rightarrow> code_writer) \<Rightarrow> code_writer \<Rightarrow> code_writer" where
  "indented cb w = w\<lparr>cw_writer := cw_writer (cb (w\<lparr>cw_indent := cw_indent w @ ''    ''\<rparr>))\<rparr>"

definition commented :: "(code_writer \<Rightarrow> code_writer) \<Rightarrow> code_writer \<Rightarrow> code_writer" where
  "commented cb w = w\<lparr>cw_writer := cw_writer (cb (w\<lparr>cw_indent := ''// '' @ cw_indent w\<rparr>))\<rparr>"

definition block :: "bytes \<Rightarrow> bytes \<Rightarrow> (code_writer \<Rightarrow> code_writer) \<Rightarrow> code_writer \<Rightarrow> code_writer" where
  "block first_line last_line cb = seq [write_line first_line, indented cb, write_line last_line]"

definition expr_block :: "bytes \<Rightarrow> (code_writer \<Rightarrow> code_writer) \<Rightarrow> code_writer \<Rightarrow> code_writer" where
  "expr_block prefix = block (prefix @ '' {'') ''}''"

definition impl_self_block :: "bytes \<Rightarrow> (code_writer \<Rightarrow> code_writer) \<Rightarrow> code_writer \<Rightarrow> code_writer" where
  "impl_self_block name = expr_block (''impl '' @ name)"

definition pub_struct :: "bytes \<Rightarrow> (code_writer \<Rightarrow> code_writer) \<Rightarrow> code_writer \<Rightarrow> code_writer" where
  "pub_struct name = expr_block (''pub struct '' @ name)"

definition pub_trait :: "bytes \<Rightarrow> (code_writer \<Rightarrow> code_writer) \<Rightarrow> code_writer \<Rightarrow> code_writer" where
  "pub_trait name = expr_block (''pub trait '' @ name)"

definition field_entry :: "bytes \<Rightarrow> bytes \<Rightarrow> code_writer \<Rightarrow> code_writer" where
  "field_entry name v = write_line (name @ '': '' @ v @ '','')"

definition field_decl :: "bytes \<Rightarrow> bytes \<Rightarrow> code_writer \<Rightarrow> code_writer" where
  "field_decl name field_type = write_line (name @ '': '' @ field_type @ '','')"

definition fn_block :: "bool \<Rightarrow> bytes \<Rightarrow> (code_writer \<Rightarrow> code_writer) \<Rightarrow> code_writer \<Rightarrow> code_writer" where
  "fn_block public sig =
     (if public then expr_block (''pub fn '' @ sig) else expr_block (''fn '' @ sig))"

definition pub_fn :: "bytes \<Rightarrow> (code_writer \<Rightarrow> code_writer) \<Rightarrow> code_writer \<Rightarrow> code_writer" where
  "pub_fn = fn_block True"

section \<open>Methods\<close>

record method_descriptor =
  pm_name :: bytes
  pm_input_type :: bytes
  pm_output_type :: bytes
  pm_client_streaming :: bool
  pm_server_streaming :: bool

record method_gen =
  mg_proto :: method_descriptor
  mg_service_name :: bytes
  mg_service_path :: bytes
  mg_find_message :: "bytes \<Rightarrow> bytes"

definition method_gen_new :: "method_descriptor \<Rightarrow> bytes \<Rightarrow> bytes \<Rightarrow> (bytes \<Rightarrow> bytes) \<Rightarrow> method_gen" where
  "method_gen_new proto service_name service_path find_message =
     \<lparr>mg_proto = proto, mg_service_name = service_name, mg_service_path = service_path, mg_find_message = find_message\<rparr>"

definition mg_input :: "method_gen \<Rightarrow> bytes" where
  "mg_input self = ''super::'' @ mg_find_message self (pm_input_type (mg_proto self))"

definition mg_output :: "method_gen \<Rightarrow> bytes" where
  "mg_output self = ''super::'' @ mg_find_message self (pm_output_type (mg_proto self))"

definition mg_method_type :: "method_gen \<Rightarrow> method_type \<times> bytes" where
  "mg_method_type self = (case (pm_client_streaming (mg_proto self), pm_server_streaming (mg_proto self)) of
     (False, False) \<Rightarrow> (MUnary, fq_grpc ''MethodType::Unary'')
   | (True, False) \<Rightarrow> (MClientStreaming, fq_grpc ''MethodType::ClientStreaming'')
   | (False, True) \<Rightarrow> (MServerStreaming, fq_grpc ''MethodType::ServerStreaming'')
   | (True, True) \<Rightarrow> (MDuplex, fq_grpc ''MethodType::Duplex''))"

definition mg_snake_service :: "method_gen \<Rightarrow> bytes" where
  "mg_snake_service self = to_snake_case (mg_service_name self)"

definition mg_name :: "method_gen \<Rightarrow> bytes" where
  "mg_name self = to_snake_case (pm_name (mg_proto self))"

definition mg_fq_name :: "method_gen \<Rightarrow> bytes" where
  "mg_fq_name self = quote # mg_service_path self @ ''/'' @ pm_name (mg_proto self) @ [quote]"

definition mg_const_method_name :: "method_gen \<Rightarrow> bytes" where
  "mg_const_method_name self =
     ''METHOD_'' @ map to_upper (mg_snake_service self) @ ''_'' @ map to_upper (mg_name self)"

definition write_definition :: "method_gen \<Rightarrow> code_writer \<Rightarrow> code_writer" where
  "write_definition self =
     (let head = ''const '' @ mg_const_method_name self @ '': '' @ fq_grpc ''Method'' @ ''<'' @ mg_input self @ '', '' @
            mg_output self @ ''> = '' @ fq_grpc ''Method'' @ '' {'';
          pb_mar = fq_grpc ''Marshaller'' @ '' { ser: '' @ fq_grpc ''pb_ser'' @ '', de: '' @ fq_grpc ''pb_de'' @ '' }'' in
      block head ''};'' (seq
        [field_entry ''ty'' (snd (mg_method_type self)),
         field_entry ''name'' (mg_fq_name self),
         field_entry ''req_mar'' pb_mar,
         field_entry ''resp_mar'' pb_mar]))"

text \<open>The signatures of the client's functions.\<close>

definition sig_unary :: "method_gen \<Rightarrow> bytes \<Rightarrow> bytes" where
  "sig_unary self method_name =
     method_name @ ''(&self, req: &'' @ mg_input self @ '') -> '' @ fq_grpc ''Result'' @ ''<'' @ mg_output self @ ''>''"

definition sig_unary_opt :: "method_gen \<Rightarrow> bytes \<Rightarrow> bytes" where
  "sig_unary_opt self method_name =
     method_name @ ''_opt(&self, req: &'' @ mg_input self @ '', opt: '' @ fq_grpc ''CallOption'' @ '') -> '' @
     fq_grpc ''Result'' @ ''<'' @ mg_output self @ ''>''"

definition sig_unary_async :: "method_gen \<Rightarrow> bytes \<Rightarrow> bytes" where
  "sig_unary_async self method_name =
     method_name @ ''_async(&self, req: &'' @ mg_input self @ '') -> '' @
     fq_grpc ''Result'' @ ''<'' @ fq_grpc ''ClientUnaryReceiver'' @ ''<'' @ mg_output self @ ''>>''"

definition sig_unary_async_opt :: "method_gen \<Rightarrow> bytes \<Rightarrow> bytes" where
  "sig_unary_async_opt self method_name =
     method_name @ ''_async_opt(&self, req: &'' @ mg_input self @ '', opt: '' @ fq_grpc ''CallOption'' @ '') -> '' @
     fq_grpc ''Result'' @ ''<'' @ fq_grpc ''ClientUnaryReceiver'' @ ''<'' @ mg_output self @ ''>>''"

definition sig_client_streaming :: "method_gen \<Rightarrow> bytes \<Rightarrow> bytes" where
  "sig_client_streaming self method_name =
     method_name @ ''(&self) -> '' @ fq_grpc ''Result'' @ ''<('' @ fq_grpc ''ClientCStreamSender'' @ ''<'' @ mg_input self @
     ''>, '' @ fq_grpc ''ClientCStreamReceiver'' @ ''<'' @ mg_output self @ ''>)>''"

definition sig_client_streaming_opt :: "method_gen \<Rightarrow> bytes \<Rightarrow> bytes" where
  "sig_client_streaming_opt self method_name =
     method_name @ ''_opt(&self, opt: '' @ fq_grpc ''CallOption'' @ '') -> '' @
     fq_grpc ''Result'' @ ''<('' @ fq_grpc ''ClientCStreamSender'' @ ''<'' @ mg_input self @
     ''>, '' @ fq_grpc ''ClientCStreamReceiver'' @ ''<'' @ mg_output self @ ''>)>''"

definition sig_server_streaming :: "method_gen \<Rightarrow> bytes \<Rightarrow> bytes" where
  "sig_server_streaming self method_name =
     method_name @ ''(&self, req: &'' @ mg_input self @ '') -> '' @
     fq_grpc ''Result'' @ ''<'' @ fq_grpc ''ClientSStreamReceiver'' @ ''<'' @ mg_output self @ ''>>''"

definition sig_server_streaming_opt :: "method_gen \<Rightarrow> bytes \<Rightarrow> bytes" where
  "sig_server_streaming_opt self method_name =
     method_name @ ''_opt(&self, req: &'' @ mg_input self @ '', opt: '' @ fq_grpc ''CallOption'' @ '') -> '' @
     fq_grpc ''Result'' @ ''<'' @ fq_grpc ''ClientSStreamReceiver'' @ ''<'' @ mg_output self @ ''>>''"

definition sig_duplex_streaming :: "method_gen \<Rightarrow> bytes \<Rightarrow> bytes" where
  "sig_duplex_streaming self method_name =
     method_name @ ''(&self) -> '' @ fq_grpc ''Result'' @ ''<('' @ fq_grpc ''ClientDuplexSender'' @ ''<'' @ mg_input self @
     ''>, '' @ fq_grpc ''ClientDuplexReceiver'' @ ''<'' @ mg_output self @ ''>)>''"

definition sig_duplex_streaming_opt :: "method_gen \<Rightarrow> bytes \<Rightarrow> bytes" where
  "sig_duplex_streaming_opt self method_name =
     method_name @ ''_opt(&self, opt: '' @ fq_grpc ''CallOption'' @ '') -> '' @
     fq_grpc ''Result'' @ ''<('' @ fq_grpc ''ClientDuplexSender'' @ ''<'' @ mg_input self @
     ''>, '' @ fq_grpc ''ClientDuplexReceiver'' @ ''<'' @ mg_output self @ ''>)>''"

definition write_client_method :: "method_gen \<Rightarrow> code_writer \<Rightarrow> code_writer" where
  "write_client_method self =
     (let method_name = mg_name self; const = mg_const_method_name self; dflt = fq_grpc ''CallOption::default()'' in
      case fst (mg_method_type self) of
        MUnary \<Rightarrow> seq
          [pub_fn (sig_unary_opt self method_name) (write_line (''self.client.unary_call(&'' @ const @ '', req, opt)'')),
           write_line [],
           pub_fn (sig_unary self method_name) (write_line (''self.'' @ method_name @ ''_opt(req, '' @ dflt @ '')'')),
           write_line [],
           pub_fn (sig_unary_async_opt self method_name) (write_line (''self.client.unary_call_async(&'' @ const @ '', req, opt)'')),
           write_line [],
           pub_fn (sig_unary_async self method_name) (write_line (''self.'' @ method_name @ ''_async_opt(req, '' @ dflt @ '')''))]
      | MClientStreaming \<Rightarrow> seq
          [pub_fn (sig_client_streaming_opt self method_name) (write_line (''self.client.client_streaming(&'' @ const @ '', opt)'')),
           write_line [],
           pub_fn (sig_client_streaming self method_name) (write_line (''self.'' @ method_name @ ''_opt('' @ dflt @ '')''))]
      | MServerStreaming \<Rightarrow> seq
          [pub_fn (sig_server_streaming_opt self method_name) (write_line (''self.client.server_streaming(&'' @ const @ '', req, opt)'')),
           write_line [],
           pub_fn (sig_server_streaming self method_name) (write_line (''self.'' @ method_name @ ''_opt(req, '' @ dflt @ '')''))]
      | MDuplex \<Rightarrow> seq
          [pub_fn (sig_duplex_streaming_opt self method_name) (write_line (''self.client.duplex_streaming(&'' @ const @ '', opt)'')),
           write_line [],
           pub_fn (sig_duplex_streaming self method_name) (write_line (''self.'' @ method_name @ ''_opt('' @ dflt @ '')''))])"

definition write_service_method :: "method_gen \<Rightarrow> code_writer \<Rightarrow> code_writer" where
  "write_service_method self =
     (let req_stream_type = fq_grpc ''RequestStream'' @ ''<'' @ mg_input self @ ''>'';
          (req, req_type, resp_type) = (case fst (mg_method_type self) of
             MUnary \<Rightarrow> (''req'', mg_input self, ''UnarySink'')
           | MClientStreaming \<Rightarrow> (''stream'', req_stream_type, ''ClientStreamingSink'')
           | MServerStreaming \<Rightarrow> (''req'', mg_input self, ''ServerStreamingSink'')
           | MDuplex \<Rightarrow> (''stream'', req_stream_type, ''DuplexSink''));
          sig = mg_name self @ ''(&mut self, ctx: '' @ fq_grpc ''RpcContext'' @ '', _'' @ req @ '': '' @ req_type @
            '', sink: '' @ fq_grpc resp_type @ ''<'' @ mg_output self @ ''>)'' in
      fn_block False sig (write_line ''grpcio::unimplemented_call!(ctx, sink)''))"

definition write_bind :: "method_gen \<Rightarrow> code_writer \<Rightarrow> code_writer" where
  "write_bind self =
     (let add = (case fst (mg_method_type self) of
             MUnary \<Rightarrow> ''add_unary_handler''
           | MClientStreaming \<Rightarrow> ''add_client_streaming_handler''
           | MServerStreaming \<Rightarrow> ''add_server_streaming_handler''
           | MDuplex \<Rightarrow> ''add_duplex_streaming_handler'') in
      block (''builder = builder.'' @ add @ ''(&'' @ mg_const_method_name self @ '', move |ctx, req, resp| {'') ''});''
        (write_line (''instance.'' @ mg_name self @ ''(ctx, req, resp)'')))"

section \<open>Services\<close>

record service_descriptor =
  ps_name :: bytes
  ps_methods :: "method_descriptor list"

record service_gen =
  sg_proto :: service_descriptor
  sg_methods :: "method_gen list"
  sg_service_name :: bytes

text \<open>
  \<^verbatim>\<open>ServiceGen::new\<close>, with the camel case name that its method
  \<^verbatim>\<open>service_name\<close> computes again each time.
\<close>

definition service_gen_new :: "service_descriptor \<Rightarrow> bytes \<Rightarrow> (bytes \<Rightarrow> bytes) \<Rightarrow> service_gen outcome" where
  "service_gen_new proto package find_message =
     obind (to_camel_case (ps_name proto)) (\<lambda>name.
     let service_path = (if package = [] then ''/'' @ ps_name proto else ''/'' @ package @ ''.'' @ ps_name proto) in
     Ret \<lparr>sg_proto = proto,
          sg_methods = map (\<lambda>m. method_gen_new m name service_path find_message) (ps_methods proto),
          sg_service_name = name\<rparr>)"

definition client_name :: "service_gen \<Rightarrow> bytes" where
  "client_name self = sg_service_name self @ ''Client''"

definition write_client :: "service_gen \<Rightarrow> code_writer \<Rightarrow> code_writer" where
  "write_client self = seq
     [write_line ''#[derive(Clone)]'',
      pub_struct (client_name self) (field_decl ''client'' ''::grpcio::Client''),
      write_line [],
      impl_self_block (client_name self) (seq
        [pub_fn ''new(channel: ::grpcio::Channel) -> Self''
           (expr_block (client_name self) (field_entry ''client'' ''::grpcio::Client::new(channel)'')),
         seq (map (\<lambda>m. seq [write_line [], write_client_method m]) (sg_methods self)),
         pub_fn ''spawn<F>(&self, f: F) where F: ::futures::Future<Output = ()> + Send + 'static''
           (write_line ''self.client.spawn(f)'')])]"

definition server_code :: "service_gen \<Rightarrow> code_writer \<Rightarrow> code_writer" where
  "server_code self = seq
     [pub_trait (sg_service_name self) (seq (map write_service_method (sg_methods self))),
      write_line [],
      pub_fn (''create_'' @ to_snake_case (sg_service_name self) @ ''<S: '' @ sg_service_name self @
          '' + Send + Clone + 'static>(s: S) -> '' @ fq_grpc ''Service'') (seq
        [write_line ''let mut builder = ::grpcio::ServiceBuilder::new();'',
         seq (map (\<lambda>m. seq [write_line ''let mut instance = s.clone();'', write_bind m]) (butlast (sg_methods self))),
         write_line ''let mut instance = s;'',
         write_bind (last (sg_methods self)),
         write_line ''builder.build()''])]"

text \<open>
  \<^verbatim>\<open>write_server\<close> takes the methods but the last as a slice that ends at
  \<^verbatim>\<open>len() - 1\<close>, which does not exist if there is no method.
\<close>

definition write_server :: "service_gen \<Rightarrow> code_writer \<Rightarrow> code_writer outcome" where
  "write_server self w =
     (if sg_methods self = [] then Panic ''attempt to subtract with overflow'' else Ret (server_code self w))"

definition write_method_definitions :: "service_gen \<Rightarrow> code_writer \<Rightarrow> code_writer" where
  "write_method_definitions self =
     seq (map (\<lambda>(i, m). seq [if i \<noteq> 0 then write_line [] else id, write_definition m]) (List.enumerate 0 (sg_methods self)))"

definition write_service :: "service_gen \<Rightarrow> code_writer \<Rightarrow> code_writer outcome" where
  "write_service self w =
     write_server self (seq [write_method_definitions self, write_line [], write_client self, write_line []] w)"

section \<open>Files\<close>

record file_descriptor =
  pf_name :: bytes
  pf_package :: bytes
  pf_services :: "service_descriptor list"

record gen_result =
  gr_name :: bytes
  gr_content :: bytes

fun write_services :: "bytes \<Rightarrow> (bytes \<Rightarrow> bytes) \<Rightarrow> service_descriptor list \<Rightarrow> code_writer \<Rightarrow> code_writer outcome" where
  "write_services package find_message [] w = Ret w"
| "write_services package find_message (s # ss) w =
     obind (service_gen_new s package find_message) (\<lambda>g.
     obind (write_service g (write_line [] w)) (write_services package find_message ss))"

text \<open>\<open>rust_mod\<close> is the protobuf library's name of the Rust module of a proto file.\<close>

definition gen_file :: "(bytes \<Rightarrow> bytes) \<Rightarrow> (bytes \<Rightarrow> bytes) \<Rightarrow> file_descriptor \<Rightarrow> gen_result option outcome" where
  "gen_file rust_mod find_message file =
     (if pf_services file = [] then Ret None
      else obind (write_services (pf_package file) find_message (pf_services file) (write_generated (code_writer_new [])))
        (\<lambda>w. Ret (Some \<lparr>gr_name = rust_mod (pf_name file) @ ''_grpc.rs'', gr_content = cw_writer w\<rparr>)))"

text \<open>
  \<^verbatim>\<open>gen\<close>: the files are found by name in a map of the descriptors, in which the last of
  two with the same name stays; a name that is not there is a panic.
\<close>

fun gen :: "(bytes \<Rightarrow> bytes) \<Rightarrow> (bytes \<Rightarrow> bytes) \<Rightarrow> file_descriptor list \<Rightarrow> bytes list \<Rightarrow> gen_result list outcome" where
  "gen rust_mod find_message files [] = Ret []"
| "gen rust_mod find_message files (n # ns) = (case map_of (rev (map (\<lambda>f. (pf_name f, f)) files)) n of
     None \<Rightarrow> Panic ''no entry found for key''
   | Some file \<Rightarrow>
       obind (if pf_services file = [] then Ret None else gen_file rust_mod find_message file) (\<lambda>r.
       obind (gen rust_mod find_message files ns) (\<lambda>rs.
       Ret ((case r of None \<Rightarrow> [] | Some x \<Rightarrow> [x]) @ rs))))"

section \<open>What the writer appends\<close>

text \<open>
  Every function of the generator only appends to what was written, and what it appends
  depends on the indentation only.
\<close>

definition out :: "(code_writer \<Rightarrow> code_writer) \<Rightarrow> bytes \<Rightarrow> bytes" where
  "out f i = cw_writer (f \<lparr>cw_writer = [], cw_indent = i\<rparr>)"

definition appends :: "(code_writer \<Rightarrow> code_writer) \<Rightarrow> bool" where
  "appends f \<longleftrightarrow> (\<forall>w. f w = w\<lparr>cw_writer := cw_writer w @ out f (cw_indent w)\<rparr>)"

definition out_line :: "bytes \<Rightarrow> bytes \<Rightarrow> bytes" where
  "out_line line i = (if line = [] then [newline] else i @ line @ [newline])"

lemma write_line_appends [simp]: "appends (write_line l)" "out (write_line l) i = out_line l i"
  by (simp_all add: appends_def out_def write_line_def out_line_def)

lemma id_appends [simp]: "appends id" "out id i = []"
  by (simp_all add: appends_def out_def)

lemma seq_appends:
  assumes "list_all appends fs"
  shows "seq fs w = w\<lparr>cw_writer := cw_writer w @ concat (map (\<lambda>f. out f (cw_indent w)) fs)\<rparr>"
  using assms
proof (induction fs arbitrary: w)
  case (Cons f fs)
  then have f: "f w = w\<lparr>cw_writer := cw_writer w @ out f (cw_indent w)\<rparr>" by (simp add: appends_def)
  have "seq (f # fs) w = seq fs (f w)" by (simp add: seq_def)
  with Cons show ?case by (simp add: f)
qed (simp add: seq_def)

lemma seq_out [simp]:
  assumes "list_all appends fs"
  shows "out (seq fs) i = concat (map (\<lambda>f. out f i) fs)" "appends (seq fs)"
  using seq_appends [OF assms] by (simp_all add: out_def appends_def)

lemma indented_out [simp]:
  assumes "appends f"
  shows "out (indented f) i = out f (i @ ''    '')" "appends (indented f)"
proof -
  have f: "f w = w\<lparr>cw_writer := cw_writer w @ out f (cw_indent w)\<rparr>" for w using assms by (simp add: appends_def)
  have i: "indented f w = w\<lparr>cw_writer := cw_writer w @ out f (cw_indent w @ ''    '')\<rparr>" for w
    unfolding indented_def by (subst f) simp
  then show o: "out (indented f) i = out f (i @ ''    '')" for i by (simp add: out_def [of "indented f"])
  show "appends (indented f)" unfolding appends_def o using i by blast
qed

lemma block_out [simp]:
  assumes "appends f"
  shows "out (block a b f) i = out_line a i @ out f (i @ ''    '') @ out_line b i" "appends (block a b f)"
  using assms by (simp_all add: block_def)

text \<open>The functions that are blocks and lines of a certain form.\<close>

lemmas writer_defs = expr_block_def impl_self_block_def pub_struct_def pub_trait_def field_entry_def field_decl_def
  fn_block_def pub_fn_def comment_def write_generated_def write_generated_common_def write_definition_def
  write_client_method_def write_service_method_def write_bind_def write_client_def write_method_definitions_def Let_def

section \<open>Brackets\<close>

text \<open>A text is read with the stack of the brackets that are open.\<close>

fun brackets :: "bytes \<Rightarrow> bytes \<Rightarrow> bytes option" where
  "brackets [] st = Some st"
| "brackets (c # cs) st =
     (if c = CHR ''('' \<or> c = CHR ''['' \<or> c = CHR ''{'' then brackets cs (c # st)
      else if c = CHR '')'' then (if st \<noteq> [] \<and> hd st = CHR ''('' then brackets cs (tl st) else None)
      else if c = CHR '']'' then (if st \<noteq> [] \<and> hd st = CHR ''['' then brackets cs (tl st) else None)
      else if c = CHR ''}'' then (if st \<noteq> [] \<and> hd st = CHR ''{'' then brackets cs (tl st) else None)
      else brackets cs st)"

lemma brackets_append [simp]: "brackets (s @ t) st = Option.bind (brackets s st) (brackets t)"
  by (induction s st rule: brackets.induct) auto

text \<open>A neutral text closes what it opens; two texts may enclose others.\<close>

definition neutral :: "bytes \<Rightarrow> bool" where
  "neutral s \<longleftrightarrow> (\<forall>st. brackets s st = Some st)"

definition encloses :: "bytes \<Rightarrow> bytes \<Rightarrow> bool" where
  "encloses s t \<longleftrightarrow> (\<forall>st. \<exists>st'. brackets s st = Some st' \<and> brackets t st' = Some st)"

definition plain :: "bytes \<Rightarrow> bool" where
  "plain s \<longleftrightarrow> list_all (\<lambda>c. c \<notin> set ''()[]{}'') s"

lemma neutral_brackets: "neutral s \<Longrightarrow> brackets s st = Some st"
  by (simp add: neutral_def)

lemma plain_neutral: "plain s \<Longrightarrow> neutral s"
  unfolding neutral_def plain_def by (induction s) auto

lemma plain_brackets: "plain s \<Longrightarrow> brackets s st = Some st"
  by (rule neutral_brackets [OF plain_neutral])

lemma neutral_append [simp]: "neutral s \<Longrightarrow> neutral t \<Longrightarrow> neutral (s @ t)"
  by (simp add: neutral_def)

lemma neutral_concat: "(\<And>s. s \<in> set ss \<Longrightarrow> neutral s) \<Longrightarrow> neutral (concat ss)"
  by (induction ss) (simp_all add: neutral_def)

lemma neutral_out_line: "neutral l \<Longrightarrow> neutral i \<Longrightarrow> neutral (out_line l i)"
  by (simp add: neutral_def out_line_def)

lemma neutral_enclosed:
  assumes "encloses a b" "neutral s" "neutral i" "a \<noteq> []" "b \<noteq> []"
  shows "neutral (out_line a i @ s @ out_line b i)"
  unfolding neutral_def
proof
  fix st
  obtain st' where "brackets a st = Some st'" "brackets b st' = Some st" using assms(1) unfolding encloses_def by blast
  with assms show "brackets (out_line a i @ s @ out_line b i) st = Some st" by (simp add: neutral_def out_line_def)
qed

text \<open>A function of the generator that appends neutral texts.\<close>

definition neat :: "(code_writer \<Rightarrow> code_writer) \<Rightarrow> bool" where
  "neat f \<longleftrightarrow> appends f \<and> (\<forall>i. neutral i \<longrightarrow> neutral (out f i))"

lemma neatD: "neat f \<Longrightarrow> appends f" "neat f \<Longrightarrow> neutral i \<Longrightarrow> neutral (out f i)"
  by (simp_all add: neat_def)

lemma neat_write_line [simp]: "neutral l \<Longrightarrow> neat (write_line l)"
  by (simp add: neat_def neutral_out_line)

lemma neat_id [simp]: "neat id"
  by (simp add: neat_def neutral_def)

lemma neat_seq [simp]:
  assumes "list_all neat fs"
  shows "neat (seq fs)"
proof -
  have "list_all appends fs" using assms by (auto simp: list_all_iff neat_def)
  moreover have "neutral (concat (map (\<lambda>f. out f i) fs))" if "neutral i" for i
    by (rule neutral_concat) (use assms that in \<open>auto simp: list_all_iff neat_def\<close>)
  ultimately show ?thesis by (simp add: neat_def)
qed

lemma neat_block [simp]:
  assumes "neat f" "encloses a b" "a \<noteq> []" "b \<noteq> []"
  shows "neat (block a b f)"
proof -
  have "neutral (out_line a i @ out f (i @ ''    '') @ out_line b i)" if "neutral i" for i
    using assms that by (intro neutral_enclosed) (auto simp: neat_def neutral_def)
  then show ?thesis using assms(1) by (simp add: neat_def)
qed

lemma encloses_braces [simp]: "neutral s \<Longrightarrow> encloses (s @ '' {'') ''}''"
  by (simp add: encloses_def neutral_def)

lemma neat_expr_block [simp]: "neat f \<Longrightarrow> neutral s \<Longrightarrow> neat (expr_block s f)"
  by (simp add: expr_block_def)

lemma neutral_fq_grpc [simp]: "neutral s \<Longrightarrow> neutral (fq_grpc s)"
  by (simp add: fq_grpc_def neutral_def)

section \<open>Names without brackets\<close>

lemma plain_simps [simp]: "plain []" "plain (s @ t) \<longleftrightarrow> plain s \<and> plain t"
  by (simp_all add: plain_def)

lemma plain_Cons: "plain (c # s) \<longleftrightarrow> c \<notin> set ''()[]{}'' \<and> plain s"
  by (simp add: plain_def)

lemma not_letter: "c \<in> set ''()[]{}'' \<Longrightarrow> \<not> is_upper c \<and> \<not> is_lower c"
  by (auto simp: is_upper_def is_lower_def)

lemma to_upper_upper: "is_lower b \<Longrightarrow> is_upper (to_upper b)"
  by (auto simp: is_lower_def is_upper_def of_char_to_upper)

lemma to_lower_bracket: "to_lower c \<in> set ''()[]{}'' \<Longrightarrow> c \<in> set ''()[]{}''"
  using not_letter [of "to_lower c"] to_lower_lower [of c] to_lower_id [of c] by metis

lemma to_upper_bracket: "to_upper c \<in> set ''()[]{}'' \<Longrightarrow> c \<in> set ''()[]{}''"
  using not_letter [of "to_upper c"] to_upper_upper [of c] to_upper_def [of c] by metis

lemma plain_map:
  assumes "plain s" "\<And>c. f c \<in> set ''()[]{}'' \<Longrightarrow> c \<in> set ''()[]{}''"
  shows "plain (map f s)"
  using assms unfolding plain_def list_all_iff set_map by blast

lemmas plain_lower = plain_map [OF _ to_lower_bracket]
lemmas plain_upper = plain_map [OF _ to_upper_bracket]

lemma plain_words: "plain s \<Longrightarrow> w \<in> set (split_name s) \<Longrightarrow> plain w"
proof -
  assume s: "plain s" and w: "w \<in> set (split_name s)"
  have "set w \<subseteq> set (concat (split_name s))" using w by auto
  also have "\<dots> \<subseteq> set s" using split_name_words [of s] by auto
  finally show "plain w" using s unfolding plain_def list_all_iff by blast
qed

lemma plain_to_snake_case: "plain s \<Longrightarrow> plain (to_snake_case s)"
proof -
  assume s: "plain s"
  have words: "plain w" if "w \<in> set (map (map to_lower) (split_name s))" for w
    using that plain_words [OF s] plain_lower unfolding set_map by blast
  have "c \<notin> set ''()[]{}''" if c: "c \<in> set (join_words (map (map to_lower) (split_name s)))" for c
    using join_words_set [OF c]
  proof
    assume "\<exists>w\<in>set (map (map to_lower) (split_name s)). c \<in> set w"
    then show ?thesis using words unfolding plain_def list_all_iff by blast
  qed simp
  then show ?thesis unfolding to_snake_case_eq plain_def list_all_iff by blast
qed

lemma plain_capitalise: "plain w \<Longrightarrow> plain (capitalise w)"
proof (cases w)
  case (Cons c cs)
  assume "plain w"
  then have "plain (map to_upper [c])" "plain (map to_lower cs)"
    using plain_upper [of "[c]"] plain_lower [of cs] by (simp_all add: Cons plain_def)
  then show ?thesis by (simp add: Cons plain_def)
qed simp

lemma plain_to_camel_case: "plain s \<Longrightarrow> to_camel_case s = Ret r \<Longrightarrow> plain r"
proof -
  assume s: "plain s" and r: "to_camel_case s = Ret r"
  have "r = concat (map capitalise (split_name s))"
    using r by (simp add: to_camel_case_def camel_words_eq split: if_splits)
  moreover have "plain (concat (map capitalise ws))" if "\<And>w. w \<in> set ws \<Longrightarrow> plain w" for ws
    using that by (induction ws) (simp_all add: plain_capitalise)
  ultimately show "plain r" using plain_words [OF s] by simp
qed

definition mg_plain :: "method_gen \<Rightarrow> bool" where
  "mg_plain m \<longleftrightarrow> plain (pm_name (mg_proto m)) \<and> plain (mg_service_name m) \<and> plain (mg_service_path m)
     \<and> (\<forall>t. plain (mg_find_message m t))"

lemma mg_brackets:
  assumes "mg_plain m"
  shows "brackets (mg_input m) st = Some st" "brackets (mg_output m) st = Some st" "brackets (mg_fq_name m) st = Some st"
    "brackets (mg_name m) st = Some st" "brackets (mg_const_method_name m) st = Some st"
proof -
  have name: "plain (mg_name m)" "plain (mg_snake_service m)"
    using assms plain_to_snake_case by (auto simp: mg_plain_def mg_name_def mg_snake_service_def)
  then show "brackets (mg_name m) st = Some st" by (simp only: plain_brackets)
  have lits: "plain ''METHOD_''" "plain ''_''" "plain ''super::''" "plain ''/''" "plain [quote]" by (simp_all add: plain_def)
  have "plain (mg_const_method_name m)"
    unfolding mg_const_method_name_def plain_simps using name plain_upper lits by blast
  then show "brackets (mg_const_method_name m) st = Some st" by (rule plain_brackets)
  have "plain (mg_input m)" "plain (mg_output m)"
    unfolding mg_input_def mg_output_def plain_simps using assms lits unfolding mg_plain_def by blast+
  then show "brackets (mg_input m) st = Some st" "brackets (mg_output m) st = Some st"
    by (simp_all only: plain_brackets)
  have "plain ([quote] @ mg_service_path m @ ''/'' @ pm_name (mg_proto m) @ [quote])"
    unfolding plain_simps using assms lits unfolding mg_plain_def by blast
  then have "plain (mg_fq_name m)" by (simp only: mg_fq_name_def append_Cons append_Nil)
  then show "brackets (mg_fq_name m) st = Some st" by (rule plain_brackets)
qed

section \<open>The generated code is balanced\<close>

lemma neat_definition: "mg_plain m \<Longrightarrow> neat (write_definition m)"
  by (simp add: write_definition_def Let_def field_entry_def neutral_def encloses_def mg_brackets fq_grpc_def mg_method_type_def
      split: bool.splits)

lemmas sig_defs = sig_unary_def sig_unary_opt_def sig_unary_async_def sig_unary_async_opt_def sig_client_streaming_def
  sig_client_streaming_opt_def sig_server_streaming_def sig_server_streaming_opt_def sig_duplex_streaming_def sig_duplex_streaming_opt_def

lemma neutral_sigs:
  assumes "mg_plain m"
  shows "neutral (sig_unary m (mg_name m))" "neutral (sig_unary_opt m (mg_name m))"
    "neutral (sig_unary_async m (mg_name m))" "neutral (sig_unary_async_opt m (mg_name m))"
    "neutral (sig_client_streaming m (mg_name m))" "neutral (sig_client_streaming_opt m (mg_name m))"
    "neutral (sig_server_streaming m (mg_name m))" "neutral (sig_server_streaming_opt m (mg_name m))"
    "neutral (sig_duplex_streaming m (mg_name m))" "neutral (sig_duplex_streaming_opt m (mg_name m))"
  by (simp_all add: sig_defs neutral_def mg_brackets [OF assms] fq_grpc_def)

lemma neat_pub_fn [simp]: "neat f \<Longrightarrow> neutral s \<Longrightarrow> neat (pub_fn s f)"
  by (simp add: pub_fn_def fn_block_def neutral_def)

lemma neutral_Nil [simp]: "neutral []"
  by (simp add: neutral_def)

lemma neat_client_method: "mg_plain m \<Longrightarrow> neat (write_client_method m)"
  by (simp add: write_client_method_def Let_def neutral_def neutral_sigs [THEN neutral_brackets] mg_brackets fq_grpc_def
      split: method_type.splits)

lemma neat_service_method: "mg_plain m \<Longrightarrow> neat (write_service_method m)"
  by (simp add: write_service_method_def Let_def fn_block_def neutral_def mg_brackets fq_grpc_def split: method_type.splits)

lemma neat_bind: "mg_plain m \<Longrightarrow> neat (write_bind m)"
  by (simp add: write_bind_def Let_def neutral_def encloses_def mg_brackets split: method_type.splits)

lemma neat_map: "(\<And>m. m \<in> set ms \<Longrightarrow> neat (f m)) \<Longrightarrow> neat (seq (map f ms))"
  by (simp add: list_all_iff)

definition sg_plain :: "service_gen \<Rightarrow> bool" where
  "sg_plain g \<longleftrightarrow> plain (sg_service_name g) \<and> list_all mg_plain (sg_methods g)"

lemma neat_client: 
  assumes "sg_plain g"
  shows "neat (write_client g)"
proof -
  have name: "brackets (client_name g) st = Some st" for st
    using assms by (simp add: sg_plain_def client_name_def plain_brackets)
  have "neat (seq (map (\<lambda>m. seq [write_line [], write_client_method m]) (sg_methods g)))"
    by (rule neat_map) (use assms in \<open>simp add: sg_plain_def list_all_iff neat_client_method\<close>)
  with name show ?thesis
    by (simp add: write_client_def pub_struct_def impl_self_block_def field_decl_def field_entry_def neutral_def)
qed

lemma neat_method_definitions:
  assumes "sg_plain g"
  shows "neat (write_method_definitions g)"
  unfolding write_method_definitions_def
proof (rule neat_map)
  fix p
  assume "p \<in> set (List.enumerate 0 (sg_methods g))"
  then have "snd p \<in> set (sg_methods g)" by (metis add.right_neutral diff_zero in_set_enumerate_eq nth_mem)
  then show "neat (case p of (i, m) \<Rightarrow> seq [if i \<noteq> 0 then write_line [] else id, write_definition m])"
    using assms by (simp add: split_def sg_plain_def list_all_iff neat_definition)
qed

lemma neat_server_code:
  assumes "sg_plain g" "sg_methods g \<noteq> []"
  shows "neat (server_code g)"
proof -
  have name: "brackets (sg_service_name g) st = Some st" "brackets (to_snake_case (sg_service_name g)) st = Some st" for st
    using assms(1) by (simp_all add: sg_plain_def plain_brackets plain_to_snake_case)
  have plain: "mg_plain m" if "m \<in> set (sg_methods g)" for m using assms(1) that by (simp add: sg_plain_def list_all_iff)
  have "neat (seq (map write_service_method (sg_methods g)))"
    by (rule neat_map) (use plain neat_service_method in blast)
  moreover have "neat (seq (map (\<lambda>m. seq [write_line ''let mut instance = s.clone();'', write_bind m]) (butlast (sg_methods g))))"
    by (rule neat_map) (use plain in \<open>simp add: neat_bind neutral_def in_set_butlastD\<close>)
  moreover have "neat (write_bind (last (sg_methods g)))" using plain assms(2) by (simp add: neat_bind)
  ultimately show ?thesis
    using name by (simp add: server_code_def pub_trait_def neutral_def fq_grpc_def)
qed

text \<open>A service that the generator can handle: its names have no brackets, and it has methods.\<close>

definition service_ok :: "service_descriptor \<Rightarrow> bool" where
  "service_ok s \<longleftrightarrow> plain (ps_name s) \<and> \<not> (ps_name s \<noteq> [] \<and> last (ps_name s) = underscore)
     \<and> ps_methods s \<noteq> [] \<and> list_all (\<lambda>m. plain (pm_name m)) (ps_methods s)"

lemma to_camel_case_returns:
  "\<not> (s \<noteq> [] \<and> last s = underscore) \<Longrightarrow> \<exists>r. to_camel_case s = Ret r"
  by (simp add: to_camel_case_def camel_words_eq empty_word_iff)

lemma service_gen_new_ok:
  assumes "service_ok s" "plain package" "\<And>t. plain (find_message t)"
  shows "\<exists>g. service_gen_new s package find_message = Ret g \<and> sg_plain g \<and> sg_methods g \<noteq> []"
proof -
  obtain name where name: "to_camel_case (ps_name s) = Ret name"
    using to_camel_case_returns assms(1) unfolding service_ok_def by blast
  have "plain name" using plain_to_camel_case name assms(1) unfolding service_ok_def by blast
  then show ?thesis
    using assms name
    by (auto simp: plain_Cons service_gen_new_def service_ok_def sg_plain_def method_gen_new_def mg_plain_def list_all_iff Let_def)
qed

lemma write_services_ok:
  assumes "list_all service_ok ss" "plain package" "\<And>t. plain (find_message t)" "neutral (cw_writer w)" "cw_indent w = []"
  shows "\<exists>w'. write_services package find_message ss w = Ret w' \<and> neutral (cw_writer w')"
  using assms(1,4,5)
proof (induction ss arbitrary: w)
  case (Cons s ss)
  obtain g where g: "service_gen_new s package find_message = Ret g" "sg_plain g" "sg_methods g \<noteq> []"
    using service_gen_new_ok [of s package find_message] Cons.prems(1) assms(2,3) by auto
  let ?f = "seq [write_line [], write_method_definitions g, write_line [], write_client g, write_line [], server_code g]"
  have "neat ?f" using neat_method_definitions neat_client neat_server_code g(2,3) by simp
  then have f: "?f w = w\<lparr>cw_writer := cw_writer w @ out ?f []\<rparr>" "neutral (out ?f [])"
    using Cons.prems(3) neatD(2) [of ?f "[]"] unfolding neat_def appends_def by (metis, simp only: neutral_Nil)
  have "write_service g (write_line [] w) = Ret (?f w)"
    using g(3) by (simp add: write_service_def write_server_def seq_def)
  then have "write_services package find_message (s # ss) w = write_services package find_message ss (?f w)"
    by (simp add: g(1))
  moreover have "neutral (cw_writer (?f w))" "cw_indent (?f w) = []"
    using f Cons.prems(2,3) unfolding f(1) by simp_all
  ultimately show ?case using Cons.IH [of "?f w"] Cons.prems(1) by simp
qed simp

text \<open>
  C21. The generator returns for every file whose services have methods, whose service names
  do not end with an underscore and whose names have no brackets, and in the code it
  generates all parentheses, brackets and braces match.
\<close>

theorem generated_code_balanced:
  assumes "pf_services file \<noteq> []" "list_all service_ok (pf_services file)" "plain (pf_package file)" "\<And>t. plain (find_message t)"
  shows "\<exists>r. gen_file rust_mod find_message file = Ret (Some r) \<and> brackets (gr_content r) [] = Some []"
proof -
  let ?w = "write_generated (code_writer_new [])"
  have neat: "neat write_generated" by (simp add: write_generated_def write_generated_common_def comment_def neutral_def)
  then have "?w = code_writer_new []\<lparr>cw_writer := out write_generated []\<rparr>"
    unfolding neat_def appends_def by (simp add: code_writer_new_def)
  then have "neutral (cw_writer ?w)" "cw_indent ?w = []"
    using neatD(2) [OF neat, of "[]"] by (simp_all add: code_writer_new_def)
  then obtain w' where "write_services (pf_package file) find_message (pf_services file) ?w = Ret w'" "neutral (cw_writer w')"
    using write_services_ok [of "pf_services file" "pf_package file" find_message ?w] assms by blast
  then show ?thesis using assms(1) by (simp add: gen_file_def neutral_brackets)
qed

text \<open>A service without methods makes the generator panic.\<close>

theorem empty_service_panics:
  "\<exists>m. gen_file rust_mod find_message \<lparr>pf_name = n, pf_package = p, pf_services = [\<lparr>ps_name = ''Empty'', ps_methods = []\<rparr>]\<rparr> = Panic m"
proof -
  have "\<exists>r. to_camel_case ''Empty'' = Ret r" by (rule to_camel_case_returns) simp
  then show ?thesis by (auto simp: gen_file_def service_gen_new_def write_service_def write_server_def Let_def)
qed

section \<open>The generated file of the health service\<close>

text \<open>
  The descriptor of \<^verbatim>\<open>grpc/health/v1/health.proto\<close>, and the lines of
  \<^verbatim>\<open>health/src/proto/protobuf/health_grpc.rs\<close> as they are in the repository.
\<close>

definition health_service :: service_descriptor where
  "health_service = \<lparr>ps_name = ''Health'', ps_methods =
     [\<lparr>pm_name = ''Check'', pm_input_type = ''.grpc.health.v1.HealthCheckRequest'',
       pm_output_type = ''.grpc.health.v1.HealthCheckResponse'', pm_client_streaming = False, pm_server_streaming = False\<rparr>,
      \<lparr>pm_name = ''Watch'', pm_input_type = ''.grpc.health.v1.HealthCheckRequest'',
       pm_output_type = ''.grpc.health.v1.HealthCheckResponse'', pm_client_streaming = False, pm_server_streaming = True\<rparr>]\<rparr>"

definition health_file :: file_descriptor where
  "health_file = \<lparr>pf_name = ''health.proto'', pf_package = ''grpc.health.v1'', pf_services = [health_service]\<rparr>"

definition health_message :: "bytes \<Rightarrow> bytes" where
  "health_message t = ''health::'' @ drop (length ''.grpc.health.v1.'') t"

definition health_grpc_rs :: "bytes list" where
  "health_grpc_rs = [
     ''// This file is generated. Do not edit'',
     ''// @generated'',
     [],
     ''// https://github.com/Manishearth/rust-clippy/issues/702'',
     ''#![allow(unknown_lints)]'',
     ''#![allow(clippy::all)]'',
     [],
     ''#![allow(box_pointers)]'',
     ''#![allow(dead_code)]'',
     ''#![allow(missing_docs)]'',
     ''#![allow(non_camel_case_types)]'',
     ''#![allow(non_snake_case)]'',
     ''#![allow(non_upper_case_globals)]'',
     ''#![allow(trivial_casts)]'',
     ''#![allow(unsafe_code)]'',
     ''#![allow(unused_imports)]'',
     ''#![allow(unused_results)]'',
     [],
     ''const METHOD_HEALTH_CHECK: ::grpcio::Method<super::health::HealthCheckRequest, super::health::HealthCheckResponse> = ::grpcio::Method {'',
     ''    ty: ::grpcio::MethodType::Unary,'',
     ''    name: '' @ [quote] @ ''/grpc.health.v1.Health/Check'' @ [quote] @ '','',
     ''    req_mar: ::grpcio::Marshaller { ser: ::grpcio::pb_ser, de: ::grpcio::pb_de },'',
     ''    resp_mar: ::grpcio::Marshaller { ser: ::grpcio::pb_ser, de: ::grpcio::pb_de },'',
     ''};'',
     [],
     ''const METHOD_HEALTH_WATCH: ::grpcio::Method<super::health::HealthCheckRequest, super::health::HealthCheckResponse> = ::grpcio::Method {'',
     ''    ty: ::grpcio::MethodType::ServerStreaming,'',
     ''    name: '' @ [quote] @ ''/grpc.health.v1.Health/Watch'' @ [quote] @ '','',
     ''    req_mar: ::grpcio::Marshaller { ser: ::grpcio::pb_ser, de: ::grpcio::pb_de },'',
     ''    resp_mar: ::grpcio::Marshaller { ser: ::grpcio::pb_ser, de: ::grpcio::pb_de },'',
     ''};'',
     [],
     ''#[derive(Clone)]'',
     ''pub struct HealthClient {'',
     ''    client: ::grpcio::Client,'',
     ''}'',
     [],
     ''impl HealthClient {'',
     ''    pub fn new(channel: ::grpcio::Channel) -> Self {'',
     ''        HealthClient {'',
     ''            client: ::grpcio::Client::new(channel),'',
     ''        }'',
     ''    }'',
     [],
     ''    pub fn check_opt(&self, req: &super::health::HealthCheckRequest, opt: ::grpcio::CallOption) -> ::grpcio::Result<super::health::HealthCheckResponse> {'',
     ''        self.client.unary_call(&METHOD_HEALTH_CHECK, req, opt)'',
     ''    }'',
     [],
     ''    pub fn check(&self, req: &super::health::HealthCheckRequest) -> ::grpcio::Result<super::health::HealthCheckResponse> {'',
     ''        self.check_opt(req, ::grpcio::CallOption::default())'',
     ''    }'',
     [],
     ''    pub fn check_async_opt(&self, req: &super::health::HealthCheckRequest, opt: ::grpcio::CallOption) -> ::grpcio::Result<::grpcio::ClientUnaryReceiver<super::health::HealthCheckResponse>> {'',
     ''        self.client.unary_call_async(&METHOD_HEALTH_CHECK, req, opt)'',
     ''    }'',
     [],
     ''    pub fn check_async(&self, req: &super::health::HealthCheckRequest) -> ::grpcio::Result<::grpcio::ClientUnaryReceiver<super::health::HealthCheckResponse>> {'',
     ''        self.check_async_opt(req, ::grpcio::CallOption::default())'',
     ''    }'',
     [],
     ''    pub fn watch_opt(&self, req: &super::health::HealthCheckRequest, opt: ::grpcio::CallOption) -> ::grpcio::Result<::grpcio::ClientSStreamReceiver<super::health::HealthCheckResponse>> {'',
     ''        self.client.server_streaming(&METHOD_HEALTH_WATCH, req, opt)'',
     ''    }'',
     [],
     ''    pub fn watch(&self, req: &super::health::HealthCheckRequest) -> ::grpcio::Result<::grpcio::ClientSStreamReceiver<super::health::HealthCheckResponse>> {'',
     ''        self.watch_opt(req, ::grpcio::CallOption::default())'',
     ''    }'',
     ''    pub fn spawn<F>(&self, f: F) where F: ::futures::Future<Output = ()> + Send + 'static {'',
     ''        self.client.spawn(f)'',
     ''    }'',
     ''}'',
     [],
     ''pub trait Health {'',
     ''    fn check(&mut self, ctx: ::grpcio::RpcContext, _req: super::health::HealthCheckRequest, sink: ::grpcio::UnarySink<super::health::HealthCheckResponse>) {'',
     ''        grpcio::unimplemented_call!(ctx, sink)'',
     ''    }'',
     ''    fn watch(&mut self, ctx: ::grpcio::RpcContext, _req: super::health::HealthCheckRequest, sink: ::grpcio::ServerStreamingSink<super::health::HealthCheckResponse>) {'',
     ''        grpcio::unimplemented_call!(ctx, sink)'',
     ''    }'',
     ''}'',
     [],
     ''pub fn create_health<S: Health + Send + Clone + 'static>(s: S) -> ::grpcio::Service {'',
     ''    let mut builder = ::grpcio::ServiceBuilder::new();'',
     ''    let mut instance = s.clone();'',
     ''    builder = builder.add_unary_handler(&METHOD_HEALTH_CHECK, move |ctx, req, resp| {'',
     ''        instance.check(ctx, req, resp)'',
     ''    });'',
     ''    let mut instance = s;'',
     ''    builder = builder.add_server_streaming_handler(&METHOD_HEALTH_WATCH, move |ctx, req, resp| {'',
     ''        instance.watch(ctx, req, resp)'',
     ''    });'',
     ''    builder.build()'',
     ''}'']"

theorem generated_code_balanced_witness:
  "\<exists>r. gen_file (\<lambda>_. ''health'') (\<lambda>t. if t = ''.grpc.health.v1.HealthCheckRequest'' then ''health::HealthCheckRequest'' else ''health::HealthCheckResponse'')
     health_file = Ret (Some r) \<and> brackets (gr_content r) [] = Some []"
  by (rule generated_code_balanced) (simp_all add: health_file_def health_service_def service_ok_def plain_Cons)

text \<open>What the generator keeps of the two methods and of the service.\<close>

definition check_gen :: method_gen where
  "check_gen = method_gen_new (hd (ps_methods health_service)) ''Health'' ''/grpc.health.v1.Health'' health_message"

definition watch_gen :: method_gen where
  "watch_gen = method_gen_new (last (ps_methods health_service)) ''Health'' ''/grpc.health.v1.Health'' health_message"

lemma check_gen:
  "mg_name check_gen = ''check''" "mg_const_method_name check_gen = ''METHOD_HEALTH_CHECK''"
  "mg_input check_gen = ''super::health::HealthCheckRequest''" "mg_output check_gen = ''super::health::HealthCheckResponse''"
  "mg_method_type check_gen = (MUnary, ''::grpcio::MethodType::Unary'')"
  "mg_fq_name check_gen = quote # ''/grpc.health.v1.Health/Check'' @ [quote]"
  by code_simp+

lemma watch_gen:
  "mg_name watch_gen = ''watch''" "mg_const_method_name watch_gen = ''METHOD_HEALTH_WATCH''"
  "mg_input watch_gen = ''super::health::HealthCheckRequest''" "mg_output watch_gen = ''super::health::HealthCheckResponse''"
  "mg_method_type watch_gen = (MServerStreaming, ''::grpcio::MethodType::ServerStreaming'')"
  "mg_fq_name watch_gen = quote # ''/grpc.health.v1.Health/Watch'' @ [quote]"
  by code_simp+

lemma health_names: "to_snake_case ''Health'' = ''health''" "to_camel_case ''Health'' = Ret ''Health''"
  by code_simp+

definition health_gen :: service_gen where
  "health_gen = \<lparr>sg_proto = health_service, sg_methods = [check_gen, watch_gen], sg_service_name = ''Health''\<rparr>"

lemma health_service_gen: "service_gen_new health_service ''grpc.health.v1'' health_message = Ret health_gen"
  by (simp add: service_gen_new_def health_gen_def check_gen_def watch_gen_def health_service_def health_names Let_def)

lemma health_text:
  "out (seq [write_generated, write_line [], write_method_definitions health_gen, write_line [], write_client health_gen,
         write_line [], server_code health_gen]) []
   = concat (map (\<lambda>l. l @ [newline]) health_grpc_rs)"
  apply (simp add: writer_defs health_gen_def check_gen watch_gen health_names sig_defs fq_grpc_def server_code_def client_name_def)
  apply (simp add: out_line_def health_grpc_rs_def)
  done


end
