(* ===== verification/Grpc_Prost.thy ===== *)
theory Grpc_Prost
  imports Grpc_Codegen "HOL-Library.List_Lexorder" "HOL-Library.Char_ord"
begin

text \<open>
  \<^verbatim>\<open>compiler/src/prost_codegen.rs\<close>, the generator that is run from a build script. It
  pushes text to a string, which is the state here. The service and its methods are what
  \<^verbatim>\<open>prost_build\<close> hands to it; running \<^verbatim>\<open>protoc\<close> and reading its output
  is not modelled, only its arguments and the list of packages made from the output.
\<close>

section \<open>Arguments\<close>

definition strip_prefix :: "bytes \<Rightarrow> bytes \<Rightarrow> bytes option" where
  "strip_prefix p s = (if starts_with s p then Some (drop (length p) s) else None)"

fun split_comma :: "bytes \<Rightarrow> bytes list" where
  "split_comma [] = [[]]"
| "split_comma (c # cs) =
     (if c = CHR '','' then [] # split_comma cs
      else case split_comma cs of [] \<Rightarrow> [[c]] | w # ws \<Rightarrow> (c # w) # ws)"

text \<open>The loop of \<^verbatim>\<open>protoc_gen_grpc_rust_main\<close> over the arguments after the first.\<close>

fun parse_args :: "bytes list \<Rightarrow> bytes list \<times> bytes list \<times> bytes \<Rightarrow> bytes list \<times> bytes list \<times> bytes" where
  "parse_args [] r = r"
| "parse_args (arg # args) (protos, includes, out_dir) = parse_args args (
     case strip_prefix ''--protos='' arg of
       Some v \<Rightarrow> (protos @ split_comma v, includes, out_dir)
     | None \<Rightarrow> (case strip_prefix ''--includes='' arg of
         Some v \<Rightarrow> (protos, includes @ split_comma v, out_dir)
       | None \<Rightarrow> (case strip_prefix ''--out-dir='' arg of
           Some v \<Rightarrow> (protos, includes, v)
         | None \<Rightarrow> (protos, includes, out_dir))))"

definition protoc_gen_args :: "bytes list \<Rightarrow> (bytes list \<times> bytes list \<times> bytes) outcome" where
  "protoc_gen_args args = (case parse_args (tl args) ([], [], []) of (protos, includes, out_dir) \<Rightarrow>
     if protos = [] then Panic ''should at least specify protos to generate'' else Ret (protos, includes, out_dir))"

definition protoc_command :: "bytes \<Rightarrow> bytes \<Rightarrow> bytes list \<Rightarrow> bytes list \<Rightarrow> bytes list" where
  "protoc_command descriptor_set protoc_include includes protos =
     [''--include_imports'', ''--include_source_info'', ''-o'', descriptor_set] @
     concat (map (\<lambda>i. [''-I'', i]) includes) @ [''-I'', protoc_include] @ protos"

definition packages :: "bytes option list \<Rightarrow> bytes list" where
  "packages files = remdups_adj (sort (List.map_filter id files))"

section \<open>Methods\<close>

record prost_method =
  pr_name :: bytes
  pr_proto_name :: bytes
  pr_input_type :: bytes
  pr_output_type :: bytes
  pr_client_streaming :: bool
  pr_server_streaming :: bool

record prost_service =
  pv_name :: bytes
  pv_proto_name :: bytes
  pv_package :: bytes
  pv_methods :: "prost_method list"

definition push_str :: "bytes \<Rightarrow> bytes \<Rightarrow> bytes" where
  "push_str s buf = buf @ s"

definition from_method :: "prost_method \<Rightarrow> method_type" where
  "from_method m = (case (pr_client_streaming m, pr_server_streaming m) of
     (False, False) \<Rightarrow> MUnary
   | (True, False) \<Rightarrow> MClientStreaming
   | (False, True) \<Rightarrow> MServerStreaming
   | (True, True) \<Rightarrow> MDuplex)"

definition pr_const_method_name :: "bytes \<Rightarrow> prost_method \<Rightarrow> bytes" where
  "pr_const_method_name service_name m =
     ''METHOD_'' @ map to_upper (to_snake_case service_name) @ ''_'' @ map to_upper (pr_name m)"

definition generate_field_init :: "bytes \<Rightarrow> bytes \<Rightarrow> bytes \<Rightarrow> bytes" where
  "generate_field_init name v = seq [push_str name, push_str '': '', push_str v, push_str '', '']"

definition generate_method_body :: "bytes \<Rightarrow> prost_method \<Rightarrow> bytes \<Rightarrow> bytes" where
  "generate_method_body service_path m =
     (let ty = fq_grpc (fmt_method_type (from_method m));
          pr_mar = fq_grpc ''Marshaller'' @ '' { ser: '' @ fq_grpc ''pr_ser'' @ '', de: '' @ fq_grpc ''pr_de'' @ '' }'' in
      seq [push_str (fq_grpc ''Method''),
           push_str ''{'',
           generate_field_init ''ty'' ty,
           generate_field_init ''name'' (quote # service_path @ ''/'' @ pr_proto_name m @ [quote]),
           generate_field_init ''req_mar'' pr_mar,
           generate_field_init ''resp_mar'' pr_mar,
           push_str (''};'' @ [newline])])"

definition generate_method :: "bytes \<Rightarrow> bytes \<Rightarrow> prost_method \<Rightarrow> bytes \<Rightarrow> bytes" where
  "generate_method service_name service_path m =
     (let name = pr_const_method_name service_name m;
          ty = fq_grpc ''Method'' @ ''<'' @ pr_input_type m @ '', '' @ pr_output_type m @ ''>'' in
      seq [push_str ''const '', push_str name, push_str '': '', push_str ty, push_str '' = '', generate_method_body service_path m])"

definition generate_methods :: "prost_service \<Rightarrow> bytes \<Rightarrow> bytes" where
  "generate_methods service =
     (let service_path = (if pv_package service = [] then ''/'' @ pv_proto_name service
                          else ''/'' @ pv_package service @ ''.'' @ pv_proto_name service) in
      seq (map (generate_method (pv_name service) service_path) (pv_methods service)))"

section \<open>The client\<close>

record client_method =
  cm_method_name :: bytes
  cm_opt :: bool
  cm_request :: "bytes option"
  cm_async :: bool
  cm_result_types :: "bytes list"
  cm_inner_method_name :: bytes
  cm_data_name :: bytes

definition client_method_new :: "bytes \<Rightarrow> bool \<Rightarrow> bytes option \<Rightarrow> bool \<Rightarrow> bytes list \<Rightarrow> bytes \<Rightarrow> bytes \<Rightarrow> client_method" where
  "client_method_new method_name opt request async result_types inner_method_name data_name =
     \<lparr>cm_method_name = method_name, cm_opt = opt, cm_request = request, cm_async = async, cm_result_types = result_types,
      cm_inner_method_name = inner_method_name, cm_data_name = data_name\<rparr>"

text \<open>Statements that run only under a condition.\<close>

abbreviation only_if :: "bool \<Rightarrow> ('w \<Rightarrow> 'w) \<Rightarrow> 'w \<Rightarrow> 'w" where
  "only_if b f \<equiv> (if b then f else id)"

definition generate_opt_body :: "client_method \<Rightarrow> bytes \<Rightarrow> bytes" where
  "generate_opt_body self = seq
     [push_str ''self.'',
      push_str (cm_method_name self),
      only_if (cm_async self) (push_str ''_async''),
      push_str ''_opt('',
      only_if (cm_request self \<noteq> None) (push_str ''req, ''),
      push_str (fq_grpc ''CallOption::default()''),
      push_str '')'']"

definition generate_inner_body :: "client_method \<Rightarrow> bytes \<Rightarrow> bytes" where
  "generate_inner_body self = seq
     [push_str ''self.client.'',
      push_str (cm_inner_method_name self),
      only_if (cm_async self) (push_str ''_async''),
      push_str ''(&'',
      push_str (cm_data_name self),
      only_if (cm_request self \<noteq> None) (push_str '', req''),
      push_str '', opt)'']"

definition client_method_generate :: "client_method \<Rightarrow> bytes \<Rightarrow> bytes" where
  "client_method_generate self = seq
     [push_str ''pub fn '',
      push_str (cm_method_name self),
      only_if (cm_async self) (push_str ''_async''),
      only_if (cm_opt self) (push_str ''_opt''),
      push_str ''(&self'',
      (case cm_request self of None \<Rightarrow> id | Some req \<Rightarrow> seq [push_str '', req: &'', push_str req]),
      only_if (cm_opt self) (seq [push_str '', opt: '', push_str (fq_grpc ''CallOption'')]),
      push_str '') -> '',
      push_str (fq_grpc ''Result''),
      push_str ''<'',
      only_if (length (cm_result_types self) \<noteq> 1) (push_str ''(''),
      seq (map (\<lambda>rt. seq [push_str rt, push_str '','']) (cm_result_types self)),
      only_if (length (cm_result_types self) \<noteq> 1) (push_str '')''),
      push_str ''> { '',
      (if cm_opt self then generate_inner_body self else generate_opt_body self),
      push_str ('' }'' @ [newline])]"

definition generate_client_method :: "bytes \<Rightarrow> prost_method \<Rightarrow> bytes \<Rightarrow> bytes" where
  "generate_client_method service_name m =
     (let name = ''METHOD_'' @ map to_upper (to_snake_case service_name) @ ''_'' @ map to_upper (pr_name m);
          of_type = (\<lambda>t arg. fq_grpc t @ ''<'' @ arg @ ''>'');
          input = pr_input_type m; output = pr_output_type m;
          call = (\<lambda>opt request async types inner. client_method_generate (client_method_new (pr_name m) opt request async types inner name)) in
      case from_method m of
        MUnary \<Rightarrow> seq
          [call True (Some input) False [output] ''unary_call'',
           call False (Some input) False [output] ''unary_call'',
           call True (Some input) True [of_type ''ClientUnaryReceiver'' output] ''unary_call'',
           call False (Some input) True [of_type ''ClientUnaryReceiver'' output] ''unary_call'']
      | MClientStreaming \<Rightarrow> seq
          [call True None False [of_type ''ClientCStreamSender'' input, of_type ''ClientCStreamReceiver'' output] ''client_streaming'',
           call False None False [of_type ''ClientCStreamSender'' input, of_type ''ClientCStreamReceiver'' output] ''client_streaming'']
      | MServerStreaming \<Rightarrow> seq
          [call True (Some input) False [of_type ''ClientSStreamReceiver'' output] ''server_streaming'',
           call False (Some input) False [of_type ''ClientSStreamReceiver'' output] ''server_streaming'']
      | MDuplex \<Rightarrow> seq
          [call True None False [of_type ''ClientDuplexSender'' input, of_type ''ClientDuplexReceiver'' output] ''duplex_streaming'',
           call False None False [of_type ''ClientDuplexSender'' input, of_type ''ClientDuplexReceiver'' output] ''duplex_streaming''])"

definition generate_client_methods :: "prost_service \<Rightarrow> bytes \<Rightarrow> bytes" where
  "generate_client_methods service = seq (map (generate_client_method (pv_name service)) (pv_methods service))"

definition generate_ctor :: "bytes \<Rightarrow> bytes \<Rightarrow> bytes" where
  "generate_ctor name = seq
     [push_str ''pub fn new(channel: ::grpcio::Channel) -> Self { '',
      push_str name,
      push_str '' { client: ::grpcio::Client::new(channel) }'',
      push_str (''}'' @ [newline])]"

definition generate_spawn :: "bytes \<Rightarrow> bytes" where
  "generate_spawn = push_str (''pub fn spawn<F>(&self, f: F) where F: ::futures::Future<Output = ()> + Send + 'static {self.client.spawn(f)}'' @ [newline])"

definition generate_client :: "prost_service \<Rightarrow> bytes \<Rightarrow> bytes" where
  "generate_client service =
     (let name = pv_name service @ ''Client'' in seq
        [push_str (''#[derive(Clone)]'' @ [newline]),
         push_str ''pub struct '',
         push_str name,
         push_str ('' { client: ::grpcio::Client }'' @ [newline]),
         push_str ''impl '',
         push_str name,
         push_str ('' {'' @ [newline]),
         generate_ctor name,
         generate_client_methods service,
         generate_spawn,
         push_str (''}'' @ [newline])])"

section \<open>The server\<close>

definition generate_server_method :: "prost_method \<Rightarrow> bytes \<Rightarrow> bytes \<Rightarrow> bytes \<Rightarrow> bytes" where
  "generate_server_method m request_arg response_type = seq
     [push_str ''fn '',
      push_str (pr_name m),
      push_str ''(&mut self, ctx: '',
      push_str (fq_grpc ''RpcContext''),
      push_str '', _'',
      push_str request_arg,
      push_str '', sink: '',
      push_str (fq_grpc response_type),
      push_str ''<'',
      push_str (pr_output_type m),
      push_str ''>'',
      push_str ('') { grpcio::unimplemented_call!(ctx, sink) }'' @ [newline])]"

definition generate_server_methods :: "prost_service \<Rightarrow> bytes \<Rightarrow> bytes" where
  "generate_server_methods service = seq (map (\<lambda>m.
     let method_type = from_method m;
         request_arg = (if method_type = MUnary \<or> method_type = MServerStreaming then ''req: '' @ pr_input_type m
                        else ''stream: '' @ fq_grpc ''RequestStream'' @ ''<'' @ pr_input_type m @ ''>'');
         response_type = (case method_type of
             MUnary \<Rightarrow> ''UnarySink''
           | MClientStreaming \<Rightarrow> ''ClientStreamingSink''
           | MServerStreaming \<Rightarrow> ''ServerStreamingSink''
           | MDuplex \<Rightarrow> ''DuplexSink'') in
     generate_server_method m request_arg response_type) (pv_methods service))"

definition generate_method_bind :: "bytes \<Rightarrow> prost_method \<Rightarrow> bytes \<Rightarrow> bytes" where
  "generate_method_bind service_name m =
     (let add_name = (case from_method m of
             MUnary \<Rightarrow> ''add_unary_handler''
           | MClientStreaming \<Rightarrow> ''add_client_streaming_handler''
           | MServerStreaming \<Rightarrow> ''add_server_streaming_handler''
           | MDuplex \<Rightarrow> ''add_duplex_streaming_handler'') in seq
        [push_str ''builder = builder.'',
         push_str add_name,
         push_str ''(&'',
         push_str (pr_const_method_name service_name m),
         push_str '', move |ctx, req, resp| instance.'',
         push_str (pr_name m),
         push_str (''(ctx, req, resp));'' @ [newline])])"

definition generate_server_code :: "prost_service \<Rightarrow> bytes \<Rightarrow> bytes" where
  "generate_server_code service = seq
     [push_str ''pub trait '',
      push_str (pv_name service),
      push_str ('' {'' @ [newline]),
      generate_server_methods service,
      push_str (''}'' @ [newline]),
      push_str ''pub fn create_'',
      push_str (to_snake_case (pv_name service)),
      push_str ''<S: '',
      push_str (pv_name service),
      push_str '' + Send + Clone + 'static>(s: S) -> '',
      push_str (fq_grpc ''Service''),
      push_str ('' {'' @ [newline]),
      push_str (''let mut builder = ::grpcio::ServiceBuilder::new();'' @ [newline]),
      seq (map (\<lambda>m. seq [push_str (''let mut instance = s.clone();'' @ [newline]), generate_method_bind (pv_name service) m])
        (butlast (pv_methods service))),
      push_str (''let mut instance = s;'' @ [newline]),
      generate_method_bind (pv_name service) (last (pv_methods service)),
      push_str (''builder.build()'' @ [newline]),
      push_str (''}'' @ [newline])]"

text \<open>As in the other generator, the slice of the methods but the last needs a method.\<close>

definition generate_server :: "prost_service \<Rightarrow> bytes \<Rightarrow> bytes outcome" where
  "generate_server service buf =
     (if pv_methods service = [] then Panic ''attempt to subtract with overflow'' else Ret (generate_server_code service buf))"

definition prost_generate :: "prost_service \<Rightarrow> bytes \<Rightarrow> bytes outcome" where
  "prost_generate service buf = generate_server service (seq [generate_methods service, generate_client service] buf)"

section \<open>Arguments and packages\<close>

lemma split_comma_join: "split_comma s \<noteq> [] \<and> concat (map (\<lambda>w. CHR '','' # w) (split_comma s)) = CHR '','' # s"
  by (induction s) (auto split: list.splits)

lemma split_comma_free: "w \<in> set (split_comma s) \<Longrightarrow> CHR '','' \<notin> set w"
  by (induction s arbitrary: w) (auto split: list.splits if_splits)

lemma sorted_dedup: "sorted xs \<Longrightarrow> sorted_wrt (<) (remdups_adj (xs :: 'a :: linorder list))"
  by (induction xs rule: remdups_adj.induct) (auto simp: order.strict_iff_order)

lemma packages_spec: "set (packages files) = {p. Some p \<in> set files}" "sorted_wrt (<) (packages files)"
  by (force simp: packages_def map_filter_def image_iff) (simp add: packages_def sorted_dedup)

section \<open>What the functions push\<close>

definition pushes :: "(bytes \<Rightarrow> bytes) \<Rightarrow> bool" where
  "pushes f \<longleftrightarrow> (\<forall>buf. f buf = buf @ f [])"

lemma push_str_pushes [simp]: "pushes (push_str s)" "push_str s [] = s" "pushes id"
  by (simp_all add: pushes_def push_str_def)

lemma seq_pushes:
  assumes "list_all pushes fs"
  shows "seq fs buf = buf @ concat (map (\<lambda>f. f []) fs)"
  using assms
proof (induction fs arbitrary: buf)
  case (Cons f fs)
  then have "pushes f" by simp
  then have "f buf = buf @ f []" unfolding pushes_def by blast
  with Cons show ?case by (simp add: seq_def)
qed (simp add: seq_def)

lemma seq_push [simp]:
  assumes "list_all pushes fs"
  shows "seq fs [] = concat (map (\<lambda>f. f []) fs)" "pushes (seq fs)"
  using seq_pushes [OF assms] by (simp_all add: pushes_def)

lemmas prost_defs = generate_methods_def generate_method_def generate_method_body_def generate_field_init_def
  pr_const_method_name_def generate_client_def generate_ctor_def generate_client_methods_def generate_client_method_def
  client_method_generate_def client_method_new_def generate_opt_body_def generate_inner_body_def generate_spawn_def
  generate_server_code_def generate_server_methods_def generate_server_method_def generate_method_bind_def Let_def

lemmas method_defs = generate_method_def generate_method_body_def generate_field_init_def Let_def

lemma generate_method_pushes [simp]: "pushes (generate_method n p m)"
  by (simp add: method_defs)

lemma generate_methods_out:
  "generate_methods s [] = concat (map (\<lambda>m. generate_method (pv_name s)
     (''/'' @ (if pv_package s = [] then [] else pv_package s @ ''.'') @ pv_proto_name s) m []) (pv_methods s))"
  by (simp add: generate_methods_def Let_def list.pred_map comp_def list.pred_True)

section \<open>The two generators\<close>

text \<open>
  What \<^verbatim>\<open>prost_build\<close> documents of the service it hands over: \<^verbatim>\<open>proto_name\<close>
  is the name in the proto file and \<^verbatim>\<open>name\<close> is the same in Rust's style, which is camel
  case for a service and snake case for a method.
\<close>

definition prost_method_of :: "(bytes \<Rightarrow> bytes) \<Rightarrow> method_descriptor \<Rightarrow> prost_method \<Rightarrow> bool" where
  "prost_method_of rust_type d m \<longleftrightarrow>
     pr_name m = to_snake_case (pm_name d) \<and> pr_proto_name m = pm_name d \<and>
     pr_input_type m = rust_type (pm_input_type d) \<and> pr_output_type m = rust_type (pm_output_type d) \<and>
     pr_client_streaming m = pm_client_streaming d \<and> pr_server_streaming m = pm_server_streaming d"

definition prost_service_of :: "bytes \<Rightarrow> (bytes \<Rightarrow> bytes) \<Rightarrow> service_descriptor \<Rightarrow> prost_service \<Rightarrow> bool" where
  "prost_service_of package rust_type s p \<longleftrightarrow>
     to_camel_case (ps_name s) = Ret (pv_name p) \<and> pv_proto_name p = ps_name s \<and> pv_package p = package \<and>
     list_all2 (prost_method_of rust_type) (ps_methods s) (pv_methods p)"

text \<open>
  The text without its layout, and the constant of a method for a codec and the names that the
  messages' types have in Rust.
\<close>

definition squeeze :: "bytes \<Rightarrow> bytes" where
  "squeeze s = filter (\<lambda>c. c \<noteq> CHR '' '' \<and> c \<noteq> newline) s"

definition marshaller_text :: "bytes \<Rightarrow> bytes" where
  "marshaller_text codec = ''::grpcio::Marshaller{ser:::grpcio::'' @ codec @ ''_ser,de:::grpcio::'' @ codec @ ''_de},''"

definition path_text :: "bytes \<Rightarrow> service_descriptor \<Rightarrow> bytes" where
  "path_text package s = ''/'' @ (if package = [] then [] else package @ ''.'') @ ps_name s"

definition type_text :: "method_descriptor \<Rightarrow> bytes" where
  "type_text d = (if pm_client_streaming d then (if pm_server_streaming d then ''Duplex'' else ''ClientStreaming'')
     else if pm_server_streaming d then ''ServerStreaming'' else ''Unary'')"

definition method_text :: "bytes \<Rightarrow> bytes \<Rightarrow> bytes \<Rightarrow> (bytes \<Rightarrow> bytes) \<Rightarrow> method_descriptor \<Rightarrow> bytes" where
  "method_text codec name path rust_type d =
     ''constMETHOD_'' @ squeeze (map to_upper (to_snake_case name) @ ''_'' @ map to_upper (to_snake_case (pm_name d))) @
     '':::grpcio::Method<'' @ squeeze (rust_type (pm_input_type d)) @ '','' @ squeeze (rust_type (pm_output_type d)) @
     ''>=::grpcio::Method{ty:::grpcio::MethodType::'' @ type_text d @
     '',name:'' @ [quote] @ squeeze (path @ ''/'' @ pm_name d) @ [quote] @
     '',req_mar:'' @ marshaller_text codec @ ''resp_mar:'' @ marshaller_text codec @ ''};''"

lemma squeeze_simps [simp]:
  "squeeze [] = []" "squeeze (s @ t) = squeeze s @ squeeze t"
  "squeeze (c # s) = (if c \<noteq> CHR '' '' \<and> c \<noteq> newline then c # squeeze s else squeeze s)"
  "squeeze (concat ss) = concat (map squeeze ss)"
  by (simp_all add: squeeze_def [abs_def] filter_concat)

lemma generate_method_text:
  assumes "prost_method_of rust_type d m"
  shows "squeeze (generate_method name path m []) = method_text ''pr'' name path rust_type d"
  using assms
  by (simp add: method_defs prost_method_of_def method_text_def marshaller_text_def type_text_def fq_grpc_def
      pr_const_method_name_def from_method_def fmt_method_type_def split: bool.split)

lemma write_definition_text:
  "squeeze (out (write_definition (method_gen_new d name path find_message)) []) = method_text ''pb'' name path (\<lambda>t. ''super::'' @ find_message t) d"
  by (simp add: write_definition_def field_entry_def Let_def method_gen_new_def method_text_def marshaller_text_def
      type_text_def fq_grpc_def out_line_def mg_const_method_name_def mg_snake_service_def mg_name_def mg_fq_name_def
      mg_input_def mg_output_def mg_method_type_def split: bool.split)

text \<open>Blank lines between the definitions are layout.\<close>

lemma write_method_definitions_text:
  "squeeze (out (write_method_definitions g) []) =
     concat (map (\<lambda>m. squeeze (out (write_definition m) [])) (sg_methods g))"
proof -
  have d: "appends (write_definition m)" for m by (simp add: writer_defs)
  have "squeeze (concat (map (\<lambda>f. out f []) (map (\<lambda>(i, m). seq [if i \<noteq> 0 then write_line [] else id, write_definition m])
      (List.enumerate n ms)))) = concat (map (\<lambda>m. squeeze (out (write_definition m) [])) ms)" for n ms
    by (induction ms arbitrary: n) (simp_all add: d out_line_def)
  moreover have "list_all appends (map (\<lambda>(i, m). seq [if i \<noteq> 0 then write_line [] else id, write_definition m])
      (List.enumerate n ms))" for n ms
    by (induction ms arbitrary: n) (simp_all add: d)
  ultimately show ?thesis by (simp add: write_method_definitions_def)
qed

lemma generate_methods_text:
  assumes "list_all2 (prost_method_of rust_type) ds ms"
  shows "concat (map (\<lambda>m. squeeze (generate_method name path m [])) ms) = concat (map (method_text ''pr'' name path rust_type) ds)"
  using assms by (induction rule: list_all2_induct) (simp_all add: generate_method_text)


text \<open>The health service of the repository, as prost hands it over.\<close>

definition prost_health :: prost_service where
  "prost_health = \<lparr>pv_name = ''Health'', pv_proto_name = ''Health'', pv_package = ''grpc.health.v1'', pv_methods =
     [\<lparr>pr_name = ''check'', pr_proto_name = ''Check'', pr_input_type = ''HealthCheckRequest'',
       pr_output_type = ''HealthCheckResponse'', pr_client_streaming = False, pr_server_streaming = False\<rparr>,
      \<lparr>pr_name = ''watch'', pr_proto_name = ''Watch'', pr_input_type = ''HealthCheckRequest'',
       pr_output_type = ''HealthCheckResponse'', pr_client_streaming = False, pr_server_streaming = True\<rparr>]\<rparr>"

definition prost_health_type :: "bytes \<Rightarrow> bytes" where
  "prost_health_type t = drop (length ''.grpc.health.v1.'') t"

definition grpc_health_v1_rs :: "bytes list" where
  "grpc_health_v1_rs =
     [''const METHOD_HEALTH_CHECK: ::grpcio::Method<HealthCheckRequest, HealthCheckResponse> = ::grpcio::Method{ty: ::grpcio::MethodType::Unary, name: '' @ [quote] @ ''/grpc.health.v1.Health/Check'' @ [quote] @ '', req_mar: ::grpcio::Marshaller { ser: ::grpcio::pr_ser, de: ::grpcio::pr_de }, resp_mar: ::grpcio::Marshaller { ser: ::grpcio::pr_ser, de: ::grpcio::pr_de }, };'',
      ''const METHOD_HEALTH_WATCH: ::grpcio::Method<HealthCheckRequest, HealthCheckResponse> = ::grpcio::Method{ty: ::grpcio::MethodType::ServerStreaming, name: '' @ [quote] @ ''/grpc.health.v1.Health/Watch'' @ [quote] @ '', req_mar: ::grpcio::Marshaller { ser: ::grpcio::pr_ser, de: ::grpcio::pr_de }, resp_mar: ::grpcio::Marshaller { ser: ::grpcio::pr_ser, de: ::grpcio::pr_de }, };'',
      ''#[derive(Clone)]'',
      ''pub struct HealthClient { client: ::grpcio::Client }'',
      ''impl HealthClient {'',
      ''pub fn new(channel: ::grpcio::Channel) -> Self { HealthClient { client: ::grpcio::Client::new(channel) }}'',
      ''pub fn check_opt(&self, req: &HealthCheckRequest, opt: ::grpcio::CallOption) -> ::grpcio::Result<HealthCheckResponse,> { self.client.unary_call(&METHOD_HEALTH_CHECK, req, opt) }'',
      ''pub fn check(&self, req: &HealthCheckRequest) -> ::grpcio::Result<HealthCheckResponse,> { self.check_opt(req, ::grpcio::CallOption::default()) }'',
      ''pub fn check_async_opt(&self, req: &HealthCheckRequest, opt: ::grpcio::CallOption) -> ::grpcio::Result<::grpcio::ClientUnaryReceiver<HealthCheckResponse>,> { self.client.unary_call_async(&METHOD_HEALTH_CHECK, req, opt) }'',
      ''pub fn check_async(&self, req: &HealthCheckRequest) -> ::grpcio::Result<::grpcio::ClientUnaryReceiver<HealthCheckResponse>,> { self.check_async_opt(req, ::grpcio::CallOption::default()) }'',
      ''pub fn watch_opt(&self, req: &HealthCheckRequest, opt: ::grpcio::CallOption) -> ::grpcio::Result<::grpcio::ClientSStreamReceiver<HealthCheckResponse>,> { self.client.server_streaming(&METHOD_HEALTH_WATCH, req, opt) }'',
      ''pub fn watch(&self, req: &HealthCheckRequest) -> ::grpcio::Result<::grpcio::ClientSStreamReceiver<HealthCheckResponse>,> { self.watch_opt(req, ::grpcio::CallOption::default()) }'',
      ''pub fn spawn<F>(&self, f: F) where F: ::futures::Future<Output = ()> + Send + 'static {self.client.spawn(f)}'',
      ''}'',
      ''pub trait Health {'',
      ''fn check(&mut self, ctx: ::grpcio::RpcContext, _req: HealthCheckRequest, sink: ::grpcio::UnarySink<HealthCheckResponse>) { grpcio::unimplemented_call!(ctx, sink) }'',
      ''fn watch(&mut self, ctx: ::grpcio::RpcContext, _req: HealthCheckRequest, sink: ::grpcio::ServerStreamingSink<HealthCheckResponse>) { grpcio::unimplemented_call!(ctx, sink) }'',
      ''}'',
      ''pub fn create_health<S: Health + Send + Clone + 'static>(s: S) -> ::grpcio::Service {'',
      ''let mut builder = ::grpcio::ServiceBuilder::new();'',
      ''let mut instance = s.clone();'',
      ''builder = builder.add_unary_handler(&METHOD_HEALTH_CHECK, move |ctx, req, resp| instance.check(ctx, req, resp));'',
      ''let mut instance = s;'',
      ''builder = builder.add_server_streaming_handler(&METHOD_HEALTH_WATCH, move |ctx, req, resp| instance.watch(ctx, req, resp));'',
      ''builder.build()'',
      ''}'']"

lemma prost_health_of: "prost_service_of ''grpc.health.v1'' prost_health_type health_service prost_health"
  by code_simp


lemma health_upper:
  "to_upper CHR ''h'' = CHR ''H''" "to_upper CHR ''e'' = CHR ''E''" "to_upper CHR ''a'' = CHR ''A''" "to_upper CHR ''l'' = CHR ''L''"
  "to_upper CHR ''t'' = CHR ''T''" "to_upper CHR ''c'' = CHR ''C''" "to_upper CHR ''k'' = CHR ''K''" "to_upper CHR ''w'' = CHR ''W''"
  by code_simp+

lemma prost_health_text:
  "seq [generate_methods prost_health, generate_client prost_health, generate_server_code prost_health] []
   = concat (map (\<lambda>l. l @ [newline]) grpc_health_v1_rs)"
  apply (simp add: prost_defs prost_health_def from_method_def fmt_method_type_def fq_grpc_def health_names health_upper)
  apply (simp add: grpc_health_v1_rs_def)
  done


end
