(* ===== verification/Grpc_Wrap.thy ===== *)
theory Grpc_Wrap
  imports Grpc_Prelude "HOL-Library.Multiset"
begin

text \<open>
  The memory that \<^verbatim>\<open>grpc-sys/grpc_wrap.cc\<close> allocates and frees, together with the
  \<^verbatim>\<open>drop\<close> functions of the Rust types that own it: batch and request contexts, metadata
  arrays, slices, byte buffers and calls. The model keeps every reference that is held, as a
  multiset; giving back what is not held, which would be a double free, is a panic. The contents
  of the memory are in the other theories.
\<close>

section \<open>References\<close>

datatype res = Mem nat | Slice nat | Buffer nat | CallRef nat

record wmem =
  wm_live :: "res multiset"
  wm_next :: nat

definition acquire :: "res \<Rightarrow> wmem \<Rightarrow> wmem" where
  "acquire r h = h\<lparr>wm_live := add_mset r (wm_live h)\<rparr>"

definition release :: "res \<Rightarrow> wmem \<Rightarrow> wmem outcome" where
  "release r h = (if r \<in># wm_live h then Ret (h\<lparr>wm_live := wm_live h - {#r#}\<rparr>) else Panic ''reference is not held'')"

definition fresh :: "(nat \<Rightarrow> res) \<Rightarrow> wmem \<Rightarrow> nat \<times> wmem" where
  "fresh kind h = (wm_next h, acquire (kind (wm_next h)) (h\<lparr>wm_next := Suc (wm_next h)\<rparr>))"

text \<open>\<^verbatim>\<open>gpr_malloc\<close>, \<^verbatim>\<open>gpr_free\<close> and \<^verbatim>\<open>gpr_realloc\<close>, which moves the block.\<close>

definition gpr_malloc :: "wmem \<Rightarrow> nat \<times> wmem" where
  "gpr_malloc h = fresh Mem h"

definition gpr_release :: "nat option \<Rightarrow> wmem \<Rightarrow> wmem outcome" where
  "gpr_release p h = (case p of None \<Rightarrow> Ret h | Some a \<Rightarrow> release (Mem a) h)"

definition gpr_realloc :: "nat option \<Rightarrow> wmem \<Rightarrow> (nat \<times> wmem) outcome" where
  "gpr_realloc p h = obind (gpr_release p h) (\<lambda>h. Ret (gpr_malloc h))"

text \<open>
  The core's slices: a short text is in the slice itself, \<open>inl\<close> says for which lengths; a
  longer one is counted. A byte buffer holds a reference to each of its slices.
\<close>

datatype w_slice = SInline | SRef nat

definition slice_from_copied :: "(nat \<Rightarrow> bool) \<Rightarrow> nat \<Rightarrow> wmem \<Rightarrow> w_slice \<times> wmem" where
  "slice_from_copied inl n h = (if inl n then (SInline, h) else case fresh Slice h of (a, h) \<Rightarrow> (SRef a, h))"

definition slice_ref :: "w_slice \<Rightarrow> wmem \<Rightarrow> w_slice \<times> wmem" where
  "slice_ref s h = (s, case s of SInline \<Rightarrow> h | SRef a \<Rightarrow> acquire (Slice a) h)"

definition slice_unref :: "w_slice \<Rightarrow> wmem \<Rightarrow> wmem outcome" where
  "slice_unref s h = (case s of SInline \<Rightarrow> Ret h | SRef a \<Rightarrow> release (Slice a) h)"

record w_buffer =
  wf_id :: nat
  wf_slices :: "w_slice list"

definition raw_byte_buffer_create :: "w_slice list \<Rightarrow> wmem \<Rightarrow> w_buffer \<times> wmem" where
  "raw_byte_buffer_create ss h =
     (case fresh Buffer (fold (\<lambda>s h. snd (slice_ref s h)) ss h) of (a, h) \<Rightarrow> (\<lparr>wf_id = a, wf_slices = ss\<rparr>, h))"

fun unref_all :: "w_slice list \<Rightarrow> wmem \<Rightarrow> wmem outcome" where
  "unref_all [] h = Ret h"
| "unref_all (s # ss) h = obind (slice_unref s h) (unref_all ss)"

definition byte_buffer_destroy :: "w_buffer option \<Rightarrow> wmem \<Rightarrow> wmem outcome" where
  "byte_buffer_destroy b h = (case b of
     None \<Rightarrow> Ret h
   | Some b \<Rightarrow> obind (unref_all (wf_slices b) h) (release (Buffer (wf_id b))))"

definition string_to_byte_buffer :: "(nat \<Rightarrow> bool) \<Rightarrow> nat \<Rightarrow> wmem \<Rightarrow> (w_buffer \<times> wmem) outcome" where
  "string_to_byte_buffer inl len h =
     (case slice_from_copied inl len h of (s, h) \<Rightarrow>
      case raw_byte_buffer_create [s] h of (bb, h) \<Rightarrow>
      obind (slice_unref s h) (\<lambda>h. Ret (bb, h)))"

text \<open>The Rust types \<^verbatim>\<open>GrpcSlice\<close> and \<^verbatim>\<open>GrpcByteBuffer\<close>.\<close>

definition grpc_slice_clone :: "w_slice \<Rightarrow> wmem \<Rightarrow> w_slice \<times> wmem" where
  "grpc_slice_clone self h = slice_ref self h"

definition grpc_slice_drop :: "w_slice \<Rightarrow> wmem \<Rightarrow> wmem outcome" where
  "grpc_slice_drop self h = slice_unref self h"

definition byte_buffer_from_slices :: "w_slice list \<Rightarrow> wmem \<Rightarrow> w_buffer \<times> wmem" where
  "byte_buffer_from_slices slices h = raw_byte_buffer_create slices h"

definition byte_buffer_from_slice :: "w_slice \<Rightarrow> wmem \<Rightarrow> w_buffer \<times> wmem" where
  "byte_buffer_from_slice s h = raw_byte_buffer_create [s] h"

definition byte_buffer_clone :: "w_buffer \<Rightarrow> wmem \<Rightarrow> w_buffer \<times> wmem" where
  "byte_buffer_clone self h = raw_byte_buffer_create (wf_slices self) h"

definition byte_buffer_drop :: "w_buffer \<Rightarrow> wmem \<Rightarrow> wmem outcome" where
  "byte_buffer_drop self h = byte_buffer_destroy (Some self) h"

section \<open>Metadata arrays\<close>

record w_array =
  wa_metadata :: "nat option"
  wa_count :: nat
  wa_capacity :: nat
  wa_slots :: "(w_slice \<times> w_slice) list"

definition w_array_zero :: w_array where
  "w_array_zero = \<lparr>wa_metadata = None, wa_count = 0, wa_capacity = 0, wa_slots = []\<rparr>"

definition destroy_metadata_only :: "w_array \<Rightarrow> wmem \<Rightarrow> wmem outcome" where
  "destroy_metadata_only arr h = gpr_release (wa_metadata arr) h"

fun unref_slots :: "(w_slice \<times> w_slice) list \<Rightarrow> wmem \<Rightarrow> wmem outcome" where
  "unref_slots [] h = Ret h"
| "unref_slots ((k, v) # kvs) h = obind (slice_unref k h) (\<lambda>h. obind (slice_unref v h) (unref_slots kvs))"

definition destroy_metadata_including_entries :: "w_array \<Rightarrow> wmem \<Rightarrow> wmem outcome" where
  "destroy_metadata_including_entries arr h =
     obind (if wa_metadata arr \<noteq> None then unref_slots (take (wa_count arr) (wa_slots arr)) h else Ret h)
       (gpr_release (wa_metadata arr))"

text \<open>\<open>p\<close> is the block of the array itself.\<close>

definition metadata_array_destroy_full :: "(nat \<times> w_array) option \<Rightarrow> wmem \<Rightarrow> wmem outcome" where
  "metadata_array_destroy_full arr h = (case arr of
     None \<Rightarrow> Ret h
   | Some (p, arr) \<Rightarrow> obind (destroy_metadata_including_entries arr h) (gpr_release (Some p)))"

definition metadata_array_init :: "nat \<Rightarrow> wmem \<Rightarrow> w_array \<times> wmem" where
  "metadata_array_init capacity h =
     (if capacity = 0 then (w_array_zero, h)
      else case gpr_malloc h of (p, h) \<Rightarrow>
        (\<lparr>wa_metadata = Some p, wa_count = 0, wa_capacity = capacity, wa_slots = replicate capacity (SInline, SInline)\<rparr>, h))"

definition metadata_array_add :: "(nat \<Rightarrow> bool) \<Rightarrow> nat \<Rightarrow> nat \<Rightarrow> w_array \<Rightarrow> wmem \<Rightarrow> (w_array \<times> wmem) outcome" where
  "metadata_array_add inl key_length value_length arr h =
     obind (rust_assert (wa_count arr \<le> wa_capacity arr) ''array->count <= array->capacity'') (\<lambda>_.
     let i = wa_count arr in
     obind (if i = wa_capacity arr then
              (let cap = (if wa_capacity arr \<noteq> 0 then wa_capacity arr * 2 else 4) in
               obind (gpr_realloc (wa_metadata arr) h) (\<lambda>(p, h).
               Ret (arr\<lparr>wa_capacity := cap, wa_metadata := Some p,
                        wa_slots := take i (wa_slots arr) @ replicate (cap - i) (SInline, SInline)\<rparr>, h)))
            else Ret (arr, h)) (\<lambda>(arr, h).
     case slice_from_copied inl key_length h of (k, h) \<Rightarrow>
     case slice_from_copied inl value_length h of (v, h) \<Rightarrow>
     Ret (arr\<lparr>wa_slots := (wa_slots arr)[i := (k, v)], wa_count := wa_count arr + 1\<rparr>, h)))"

definition metadata_array_cleanup :: "w_array \<Rightarrow> wmem \<Rightarrow> wmem outcome" where
  "metadata_array_cleanup arr h = destroy_metadata_including_entries arr h"

definition metadata_array_shrink_to_fit :: "w_array \<Rightarrow> wmem \<Rightarrow> (w_array \<times> wmem) outcome" where
  "metadata_array_shrink_to_fit arr h =
     obind (rust_assert (wa_count arr \<le> wa_capacity arr) ''array->count <= array->capacity'') (\<lambda>_.
     if wa_count arr = wa_capacity arr then Ret (arr, h)
     else if wa_count arr \<noteq> 0 then
       obind (gpr_realloc (wa_metadata arr) h) (\<lambda>(p, h).
       Ret (arr\<lparr>wa_metadata := Some p, wa_capacity := wa_count arr, wa_slots := take (wa_count arr) (wa_slots arr)\<rparr>, h))
     else obind (metadata_array_cleanup arr h) (\<lambda>h.
       Ret (arr\<lparr>wa_capacity := 0, wa_metadata := None, wa_slots := []\<rparr>, h)))"

text \<open>The destination and what is left of the source.\<close>

definition metadata_array_move :: "w_array option \<Rightarrow> w_array \<times> w_array option" where
  "metadata_array_move src = (case src of
     None \<Rightarrow> (w_array_zero, None)
   | Some s \<Rightarrow> (s, Some (s\<lparr>wa_capacity := 0, wa_count := 0, wa_metadata := None, wa_slots := []\<rparr>)))"

text \<open>\<^verbatim>\<open>Metadata::with_capacity\<close>, its drop, and entries added one after the other.\<close>

definition metadata_with_capacity :: "nat \<Rightarrow> wmem \<Rightarrow> w_array \<times> wmem" where
  "metadata_with_capacity cap h = metadata_array_init cap h"

definition metadata_drop :: "w_array \<Rightarrow> wmem \<Rightarrow> wmem outcome" where
  "metadata_drop self h = metadata_array_cleanup self h"

fun add_entries :: "(nat \<Rightarrow> bool) \<Rightarrow> (nat \<times> nat) list \<Rightarrow> w_array \<Rightarrow> wmem \<Rightarrow> (w_array \<times> wmem) outcome" where
  "add_entries inl [] arr h = Ret (arr, h)"
| "add_entries inl ((k, v) # kvs) arr h = obind (metadata_array_add inl k v arr h) (\<lambda>(arr, h). add_entries inl kvs arr h)"

section \<open>Contexts\<close>

record w_batch_context =
  wb_self :: nat
  wb_send_initial_metadata :: w_array
  wb_send_message :: "w_buffer option"
  wb_send_trailing_metadata :: w_array
  wb_recv_initial_metadata :: w_array
  wb_recv_message :: "w_buffer option"
  wb_recv_trailing_metadata :: w_array
  wb_recv_status_details :: w_slice

definition wrap_batch_context_create :: "wmem \<Rightarrow> w_batch_context \<times> wmem" where
  "wrap_batch_context_create h = (case gpr_malloc h of (p, h) \<Rightarrow>
     (\<lparr>wb_self = p, wb_send_initial_metadata = w_array_zero, wb_send_message = None, wb_send_trailing_metadata = w_array_zero,
       wb_recv_initial_metadata = w_array_zero, wb_recv_message = None, wb_recv_trailing_metadata = w_array_zero,
       wb_recv_status_details = SInline\<rparr>, h))"

definition batch_context_destroy :: "w_batch_context option \<Rightarrow> wmem \<Rightarrow> wmem outcome" where
  "batch_context_destroy ctx h = (case ctx of
     None \<Rightarrow> Ret h
   | Some ctx \<Rightarrow>
       obind (destroy_metadata_including_entries (wb_send_initial_metadata ctx) h) (\<lambda>h.
       obind (byte_buffer_destroy (wb_send_message ctx) h) (\<lambda>h.
       obind (destroy_metadata_including_entries (wb_send_trailing_metadata ctx) h) (\<lambda>h.
       obind (destroy_metadata_only (wb_recv_initial_metadata ctx) h) (\<lambda>h.
       obind (byte_buffer_destroy (wb_recv_message ctx) h) (\<lambda>h.
       obind (destroy_metadata_only (wb_recv_trailing_metadata ctx) h) (\<lambda>h.
       obind (slice_unref (wb_recv_status_details ctx) h) (\<lambda>h.
       gpr_release (Some (wb_self ctx)) h))))))))"

definition batch_context_take_recv_message :: "w_batch_context \<Rightarrow> w_buffer option \<times> w_batch_context" where
  "batch_context_take_recv_message ctx =
     (case wb_recv_message ctx of None \<Rightarrow> (None, ctx) | Some buf \<Rightarrow> (Some buf, ctx\<lparr>wb_recv_message := None\<rparr>))"

text \<open>\<^verbatim>\<open>BatchContext::drop\<close>.\<close>

definition batch_context_drop :: "w_batch_context \<Rightarrow> wmem \<Rightarrow> wmem outcome" where
  "batch_context_drop self h = batch_context_destroy (Some self) h"

text \<open>
  What the functions that start a batch do to the memory: the metadata is moved into the
  context, a buffer is made of the message, and the local slice of a status is released once
  the batch is started. The slice and what is left of the metadata stay with the caller.
\<close>

definition wrap_start_with_message ::
  "w_array option \<Rightarrow> w_slice \<Rightarrow> w_batch_context \<Rightarrow> wmem \<Rightarrow> w_array option \<times> w_batch_context \<times> wmem" where
  "wrap_start_with_message initial_metadata send_buffer ctx h =
     (case metadata_array_move initial_metadata of (md, left_over) \<Rightarrow>
      case raw_byte_buffer_create [send_buffer] h of (b, h) \<Rightarrow>
      (left_over, ctx\<lparr>wb_send_initial_metadata := md, wb_send_message := Some b\<rparr>, h))"

definition wrap_start_without_message :: "w_array option \<Rightarrow> w_batch_context \<Rightarrow> w_array option \<times> w_batch_context" where
  "wrap_start_without_message initial_metadata ctx =
     (case metadata_array_move initial_metadata of (md, left_over) \<Rightarrow> (left_over, ctx\<lparr>wb_send_initial_metadata := md\<rparr>))"

definition wrap_send_message :: "w_slice \<Rightarrow> w_batch_context \<Rightarrow> wmem \<Rightarrow> w_batch_context \<times> wmem" where
  "wrap_send_message send_buffer ctx h =
     (case raw_byte_buffer_create [send_buffer] h of (b, h) \<Rightarrow> (ctx\<lparr>wb_send_message := Some b\<rparr>, h))"

definition wrap_send_status_from_server ::
  "(nat \<Rightarrow> bool) \<Rightarrow> nat \<Rightarrow> w_array option \<Rightarrow> w_slice option \<Rightarrow> w_batch_context \<Rightarrow> wmem
     \<Rightarrow> (w_array option \<times> w_batch_context \<times> wmem) outcome" where
  "wrap_send_status_from_server inl details_len trailing_metadata optional_send_buffer ctx h =
     (case slice_from_copied inl details_len h of (status_details, h) \<Rightarrow>
      case metadata_array_move trailing_metadata of (md, left_over) \<Rightarrow>
      let ctx = ctx\<lparr>wb_send_trailing_metadata := md\<rparr>;
          (ctx, h) = (case optional_send_buffer of
             None \<Rightarrow> (ctx, h)
           | Some s \<Rightarrow> (case raw_byte_buffer_create [s] h of (b, h) \<Rightarrow> (ctx\<lparr>wb_send_message := Some b\<rparr>, h))) in
      obind (slice_unref status_details h) (\<lambda>h. Ret (left_over, ctx, h)))"

section \<open>Requests and calls\<close>

text \<open>
  \<^verbatim>\<open>grpcwrap_request_call_context\<close>; \<^verbatim>\<open>grpc_call_details_destroy\<close> of the core releases
  the two slices. A call is known by its address and counted.
\<close>

record w_request_context =
  wr_self :: nat
  wr_call :: "nat option"
  wr_method :: w_slice
  wr_host :: w_slice
  wr_request_metadata :: w_array

definition request_call_context_create :: "wmem \<Rightarrow> w_request_context \<times> wmem" where
  "request_call_context_create h = (case gpr_malloc h of (p, h) \<Rightarrow>
     (\<lparr>wr_self = p, wr_call = None, wr_method = SInline, wr_host = SInline, wr_request_metadata = w_array_zero\<rparr>, h))"

definition call_unref :: "nat \<Rightarrow> wmem \<Rightarrow> wmem outcome" where
  "call_unref call h = release (CallRef call) h"

definition call_details_destroy :: "w_request_context \<Rightarrow> wmem \<Rightarrow> wmem outcome" where
  "call_details_destroy ctx h = obind (slice_unref (wr_method ctx) h) (slice_unref (wr_host ctx))"

definition request_call_context_destroy :: "w_request_context option \<Rightarrow> wmem \<Rightarrow> wmem outcome" where
  "request_call_context_destroy ctx h = (case ctx of
     None \<Rightarrow> Ret h
   | Some ctx \<Rightarrow>
       obind (case wr_call ctx of None \<Rightarrow> Ret h | Some call \<Rightarrow> call_unref call h) (\<lambda>h.
       obind (call_details_destroy ctx h) (\<lambda>h.
       obind (destroy_metadata_only (wr_request_metadata ctx) h) (\<lambda>h.
       gpr_release (Some (wr_self ctx)) h))))"

definition request_call_context_ref_call :: "w_request_context \<Rightarrow> wmem \<Rightarrow> nat option \<times> wmem" where
  "request_call_context_ref_call ctx h =
     (wr_call ctx, case wr_call ctx of None \<Rightarrow> h | Some call \<Rightarrow> acquire (CallRef call) h)"

text \<open>\<^verbatim>\<open>RequestContext::drop\<close>, and \<^verbatim>\<open>Call\<close> and \<^verbatim>\<open>Kicker\<close>, which hold one reference each.\<close>

definition request_context_drop :: "w_request_context \<Rightarrow> wmem \<Rightarrow> wmem outcome" where
  "request_context_drop self h = request_call_context_destroy (Some self) h"

definition call_from_raw :: "nat option \<Rightarrow> nat outcome" where
  "call_from_raw call = (case call of None \<Rightarrow> Panic ''assertion failed: !call.is_null()'' | Some call \<Rightarrow> Ret call)"

definition call_drop :: "nat \<Rightarrow> wmem \<Rightarrow> wmem outcome" where
  "call_drop self h = call_unref self h"

definition kicker_clone :: "nat \<Rightarrow> wmem \<Rightarrow> nat \<times> wmem" where
  "kicker_clone self h = (self, acquire (CallRef self) h)"

text \<open>\<^verbatim>\<open>RequestContext::call\<close>: a handle of the call of its own.\<close>

definition request_context_call :: "w_request_context \<Rightarrow> wmem \<Rightarrow> (nat \<times> wmem) outcome" where
  "request_context_call self h =
     (case request_call_context_ref_call self h of (call, h) \<Rightarrow> obind (call_from_raw call) (\<lambda>call. Ret (call, h)))"

section \<open>What is owned\<close>

definition slice_owns :: "w_slice \<Rightarrow> res multiset" where
  "slice_owns s = (case s of SInline \<Rightarrow> {#} | SRef a \<Rightarrow> {#Slice a#})"

definition slices_own :: "w_slice list \<Rightarrow> res multiset" where
  "slices_own ss = sum_list (map slice_owns ss)"

definition mem_owns :: "nat option \<Rightarrow> res multiset" where
  "mem_owns p = (case p of None \<Rightarrow> {#} | Some a \<Rightarrow> {#Mem a#})"

definition buffer_owns :: "w_buffer option \<Rightarrow> res multiset" where
  "buffer_owns b = (case b of None \<Rightarrow> {#} | Some b \<Rightarrow> add_mset (Buffer (wf_id b)) (slices_own (wf_slices b)))"

definition slots_own :: "(w_slice \<times> w_slice) list \<Rightarrow> res multiset" where
  "slots_own kvs = sum_list (map (\<lambda>(k, v). slice_owns k + slice_owns v) kvs)"

text \<open>An array owns its block and its entries; a received one owns the block only.\<close>

definition array_owns :: "w_array \<Rightarrow> res multiset" where
  "array_owns a = mem_owns (wa_metadata a) + slots_own (take (wa_count a) (wa_slots a))"

definition array_wf :: "w_array \<Rightarrow> bool" where
  "array_wf a \<longleftrightarrow> wa_count a \<le> wa_capacity a \<and> length (wa_slots a) = wa_capacity a
     \<and> (wa_metadata a = None \<longleftrightarrow> wa_capacity a = 0)"

definition context_owns :: "w_batch_context \<Rightarrow> res multiset" where
  "context_owns ctx = array_owns (wb_send_initial_metadata ctx) + buffer_owns (wb_send_message ctx)
     + array_owns (wb_send_trailing_metadata ctx) + mem_owns (wa_metadata (wb_recv_initial_metadata ctx))
     + buffer_owns (wb_recv_message ctx) + mem_owns (wa_metadata (wb_recv_trailing_metadata ctx))
     + slice_owns (wb_recv_status_details ctx) + {#Mem (wb_self ctx)#}"

definition context_wf :: "w_batch_context \<Rightarrow> bool" where
  "context_wf ctx \<longleftrightarrow> array_wf (wb_send_initial_metadata ctx) \<and> array_wf (wb_send_trailing_metadata ctx)"

definition request_owns :: "w_request_context \<Rightarrow> res multiset" where
  "request_owns ctx = (case wr_call ctx of None \<Rightarrow> {#} | Some c \<Rightarrow> {#CallRef c#})
     + slice_owns (wr_method ctx) + slice_owns (wr_host ctx) + mem_owns (wa_metadata (wr_request_metadata ctx))
     + {#Mem (wr_self ctx)#}"

lemmas owns_defs = slice_owns_def mem_owns_def buffer_owns_def

section \<open>Every operation keeps the account\<close>

text \<open>Sums of references are compared element by element.\<close>

lemma mset_chain:
  fixes A B C :: "'a multiset"
  assumes "H1 + A = H0 + B" "H2 + B = H1 + C"
  shows "H2 + A = H0 + C"
proof (rule multiset_eqI)
  fix x show "count (H2 + A) x = count (H0 + C) x"
    using arg_cong [OF assms(1), of "\<lambda>m. count m x"] arg_cong [OF assms(2), of "\<lambda>m. count m x"] by simp
qed

lemma mset_swap:
  fixes A B P Q :: "'a multiset"
  assumes "H1 + P = H0 + Q" "B + P = A + Q"
  shows "H1 + A = H0 + B"
proof (rule multiset_eqI)
  fix x show "count (H1 + A) x = count (H0 + B) x"
    using arg_cong [OF assms(1), of "\<lambda>m. count m x"] arg_cong [OF assms(2), of "\<lambda>m. count m x"] by simp
qed

lemma mset_keep:
  fixes A B :: "'a multiset"
  assumes "H1 + A = H0 + B" "A \<subseteq># H0"
  shows "B \<subseteq># H1"
proof (rule mset_subset_eqI)
  fix x show "count B x \<le> count H1 x"
    using arg_cong [OF assms(1), of "\<lambda>m. count m x"] mset_subset_eq_count [OF assms(2), of x] by simp
qed

text \<open>
  \<open>gives f m\<close>: from any memory that holds \<open>m\<close>, \<open>f\<close> gives back exactly \<open>m\<close>.
\<close>

definition gives :: "(wmem \<Rightarrow> wmem outcome) \<Rightarrow> res multiset \<Rightarrow> bool" where
  "gives f m \<longleftrightarrow> (\<forall>h. m \<subseteq># wm_live h \<longrightarrow> f h = Ret (h\<lparr>wm_live := wm_live h - m\<rparr>))"

lemma gives_Ret [simp]: "gives Ret {#}" "gives (\<lambda>h. Ret h) {#}"
  by (simp_all add: gives_def)

lemma gives_release [simp]: "gives (release r) {#r#}"
  by (simp add: gives_def release_def)

lemma gives_bind:
  assumes "gives f m" "gives g n"
  shows "gives (\<lambda>h. obind (f h) g) (m + n)"
  unfolding gives_def
proof (intro allI impI)
  fix h :: wmem assume mn: "m + n \<subseteq># wm_live h"
  then obtain k where "wm_live h = m + n + k" by (auto simp: mset_subset_eq_exists_conv)
  then have "m \<subseteq># wm_live h" "n \<subseteq># wm_live h - m" by (simp_all add: add.assoc)
  then show "obind (f h) g = Ret (h\<lparr>wm_live := wm_live h - (m + n)\<rparr>)"
    using assms by (simp add: gives_def)
qed

lemma gives_slice_unref [simp]: "gives (slice_unref s) (slice_owns s)"
  by (cases s) (simp_all add: slice_unref_def [abs_def] slice_owns_def)

lemma gives_gpr_release [simp]: "gives (gpr_release p) (mem_owns p)"
  by (cases p) (simp_all add: gpr_release_def [abs_def] mem_owns_def)

lemma gives_unref_all: "gives (unref_all ss) (slices_own ss)"
proof (induction ss)
  case (Cons s ss)
  have "unref_all (s # ss) = (\<lambda>h. obind (slice_unref s h) (unref_all ss))" by (rule ext) simp
  then show ?case using gives_bind [OF gives_slice_unref Cons.IH] by (simp add: slices_own_def)
qed (simp add: slices_own_def gives_def)

lemma gives_unref_slots: "gives (unref_slots kvs) (slots_own kvs)"
proof (induction kvs)
  case (Cons kv kvs)
  obtain k v where kv: "kv = (k, v)" by (cases kv)
  have "unref_slots (kv # kvs) = (\<lambda>h. obind (slice_unref k h) (\<lambda>h. obind (slice_unref v h) (unref_slots kvs)))"
    by (rule ext) (simp add: kv)
  then show ?case
    using gives_bind [OF gives_slice_unref gives_bind [OF gives_slice_unref Cons.IH]] by (simp add: slots_own_def kv add.assoc)
qed (simp add: slots_own_def gives_def)

lemma gives_buffer_destroy [simp]: "gives (byte_buffer_destroy b) (buffer_owns b)"
proof (cases b)
  case (Some x)
  have "byte_buffer_destroy b = (\<lambda>h. obind (unref_all (wf_slices x) h) (release (Buffer (wf_id x))))"
    by (rule ext) (simp add: byte_buffer_destroy_def Some)
  then show ?thesis using gives_bind [OF gives_unref_all gives_release] by (simp add: buffer_owns_def Some)
qed (simp add: byte_buffer_destroy_def [abs_def] buffer_owns_def)

lemma gives_destroy_entries:
  assumes "array_wf a"
  shows "gives (destroy_metadata_including_entries a) (array_owns a)"
proof (cases "wa_metadata a")
  case None
  then have "take (wa_count a) (wa_slots a) = []" using assms by (auto simp: array_wf_def)
  then have "array_owns a = {#}" unfolding array_owns_def by (simp add: None mem_owns_def slots_own_def del: take_eq_Nil)
  then show ?thesis by (simp add: destroy_metadata_including_entries_def [abs_def] None gpr_release_def gives_def)
next
  case (Some p)
  have "destroy_metadata_including_entries a = (\<lambda>h. obind (unref_slots (take (wa_count a) (wa_slots a)) h) (gpr_release (wa_metadata a)))"
    by (rule ext) (simp add: destroy_metadata_including_entries_def Some)
  then show ?thesis using gives_bind [OF gives_unref_slots gives_gpr_release] by (simp add: array_owns_def add.commute)
qed

lemma gives_context_drop:
  assumes "context_wf ctx"
  shows "gives (batch_context_drop ctx) (context_owns ctx)"
proof -
  have "batch_context_drop ctx = (\<lambda>h.
      obind (destroy_metadata_including_entries (wb_send_initial_metadata ctx) h) (\<lambda>h.
      obind (byte_buffer_destroy (wb_send_message ctx) h) (\<lambda>h.
      obind (destroy_metadata_including_entries (wb_send_trailing_metadata ctx) h) (\<lambda>h.
      obind (gpr_release (wa_metadata (wb_recv_initial_metadata ctx)) h) (\<lambda>h.
      obind (byte_buffer_destroy (wb_recv_message ctx) h) (\<lambda>h.
      obind (gpr_release (wa_metadata (wb_recv_trailing_metadata ctx)) h) (\<lambda>h.
      obind (slice_unref (wb_recv_status_details ctx) h) (\<lambda>h. gpr_release (Some (wb_self ctx)) h))))))))"
    by (rule ext) (simp add: batch_context_drop_def batch_context_destroy_def destroy_metadata_only_def)
  moreover have "gives \<dots> (array_owns (wb_send_initial_metadata ctx) + (buffer_owns (wb_send_message ctx)
     + (array_owns (wb_send_trailing_metadata ctx) + (mem_owns (wa_metadata (wb_recv_initial_metadata ctx))
     + (buffer_owns (wb_recv_message ctx) + (mem_owns (wa_metadata (wb_recv_trailing_metadata ctx))
     + (slice_owns (wb_recv_status_details ctx) + mem_owns (Some (wb_self ctx)))))))))"
    using assms unfolding context_wf_def
    by (intro gives_bind gives_destroy_entries gives_buffer_destroy gives_gpr_release gives_slice_unref) simp_all
  ultimately show ?thesis by (simp add: context_owns_def mem_owns_def add.assoc)
qed

text \<open>Operations that take references add what they return.\<close>

lemma slice_from_copied_live: "slice_from_copied inl n h = (s, h') \<Longrightarrow> wm_live h' = wm_live h + slice_owns s"
  by (auto simp: slice_from_copied_def slice_owns_def fresh_def acquire_def split: if_splits)

lemma fold_ref_live: "wm_live (fold (\<lambda>s h. snd (slice_ref s h)) ss h) = wm_live h + slices_own ss"
  by (induction ss arbitrary: h) (auto simp: slices_own_def slice_ref_def acquire_def slice_owns_def split: w_slice.split)

lemma buffer_create_live: "raw_byte_buffer_create ss h = (b, h') \<Longrightarrow> wm_live h' = wm_live h + buffer_owns (Some b)"
  by (auto simp: raw_byte_buffer_create_def fresh_def acquire_def fold_ref_live buffer_owns_def)

lemma metadata_array_init_live:
  "metadata_array_init cap h = (a, h') \<Longrightarrow> array_wf a \<and> wm_live h' = wm_live h + array_owns a"
  by (auto simp: metadata_array_init_def w_array_zero_def array_wf_def array_owns_def mem_owns_def slots_own_def
      gpr_malloc_def fresh_def acquire_def split: if_splits)

text \<open>A block that is grown or shrunk is exchanged for another one.\<close>

lemma gpr_realloc_live:
  assumes "mem_owns p \<subseteq># wm_live h"
  obtains q h' where "gpr_realloc p h = Ret (q, h')" "wm_live h' + mem_owns p = wm_live h + mem_owns (Some q)"
proof -
  obtain k where k: "wm_live h = mem_owns p + k" using assms by (auto simp: mset_subset_eq_exists_conv)
  have "gpr_release p h = Ret (h\<lparr>wm_live := wm_live h - mem_owns p\<rparr>)"
    using gives_gpr_release [of p] assms by (simp add: gives_def)
  then show thesis
    using that by (simp add: gpr_realloc_def gpr_malloc_def fresh_def acquire_def mem_owns_def k)
qed

definition grow :: "nat \<Rightarrow> w_array \<Rightarrow> w_array" where
  "grow p arr = (let cap = (if wa_capacity arr \<noteq> 0 then wa_capacity arr * 2 else 4) in
     arr\<lparr>wa_capacity := cap, wa_metadata := Some p,
         wa_slots := take (wa_count arr) (wa_slots arr) @ replicate (cap - wa_count arr) (SInline, SInline)\<rparr>)"

lemma metadata_array_add_eq:
  "metadata_array_add inl kl vl arr h =
     obind (rust_assert (wa_count arr \<le> wa_capacity arr) ''array->count <= array->capacity'') (\<lambda>_.
     obind (if wa_count arr = wa_capacity arr then obind (gpr_realloc (wa_metadata arr) h) (\<lambda>(p, h). Ret (grow p arr, h))
            else Ret (arr, h)) (\<lambda>(arr', h).
     case slice_from_copied inl kl h of (k, h) \<Rightarrow>
     case slice_from_copied inl vl h of (v, h) \<Rightarrow>
     Ret (arr'\<lparr>wa_slots := (wa_slots arr')[wa_count arr := (k, v)], wa_count := wa_count arr' + 1\<rparr>, h)))"
  unfolding metadata_array_add_def grow_def Let_def by (rule refl)

lemma grow_wf: "array_wf a \<Longrightarrow> array_wf (grow p a) \<and> wa_count (grow p a) < wa_capacity (grow p a)"
  by (auto simp: array_wf_def grow_def Let_def min_def)

lemma grow_owns: "array_wf a \<Longrightarrow> array_owns (grow p a) + mem_owns (wa_metadata a) = array_owns a + mem_owns (Some p)"
  by (auto simp: array_owns_def grow_def Let_def array_wf_def mem_owns_def)

lemma slots_own_append [simp]: "slots_own (xs @ ys) = slots_own xs + slots_own ys"
  by (simp add: slots_own_def)

lemma set_slot:
  assumes "array_wf a" "wa_count a < wa_capacity a"
  shows "array_wf (a\<lparr>wa_slots := (wa_slots a)[wa_count a := (k, v)], wa_count := wa_count a + 1\<rparr>)"
    "array_owns (a\<lparr>wa_slots := (wa_slots a)[wa_count a := (k, v)], wa_count := wa_count a + 1\<rparr>) = array_owns a + slice_owns k + slice_owns v"
  using assms by (simp_all add: array_wf_def array_owns_def take_Suc_conv_app_nth slots_own_def add.assoc)

lemma metadata_array_add_live:
  assumes wf: "array_wf a" and live: "array_owns a \<subseteq># wm_live h"
  obtains a' h' where "metadata_array_add inl kl vl a h = Ret (a', h')" "array_wf a'"
    "wm_live h' + array_owns a = wm_live h + array_owns a'"
proof -
  have le: "wa_count a \<le> wa_capacity a" using wf by (simp add: array_wf_def)
  obtain a1 h1 where room: "(if wa_count a = wa_capacity a then obind (gpr_realloc (wa_metadata a) h) (\<lambda>(p, h). Ret (grow p a, h))
        else Ret (a, h)) = Ret (a1, h1)"
    and a1: "array_wf a1" "wa_count a1 < wa_capacity a1" "wa_count a1 = wa_count a" "wm_live h1 + array_owns a = wm_live h + array_owns a1"
  proof (cases "wa_count a = wa_capacity a")
    case True
    have "mem_owns (wa_metadata a) \<subseteq># wm_live h"
      using subset_mset.order_trans [OF mset_subset_eq_add_left live [unfolded array_owns_def]] .
    then obtain q h1 where q: "gpr_realloc (wa_metadata a) h = Ret (q, h1)"
      "wm_live h1 + mem_owns (wa_metadata a) = wm_live h + mem_owns (Some q)" by (rule gpr_realloc_live)
    have "wm_live h1 + array_owns a = wm_live h + array_owns (grow q a)" by (rule mset_swap [OF q(2) grow_owns [OF wf]])
    then show thesis using that [of "grow q a" h1] grow_wf [OF wf, of q] q(1) True by (simp add: grow_def Let_def)
  next
    case False
    then show thesis using that [of a h] wf le by simp
  qed
  obtain k h2 where k: "slice_from_copied inl kl h1 = (k, h2)" by (cases "slice_from_copied inl kl h1")
  obtain v h3 where v: "slice_from_copied inl vl h2 = (v, h3)" by (cases "slice_from_copied inl vl h2")
  let ?a = "a1\<lparr>wa_slots := (wa_slots a1)[wa_count a1 := (k, v)], wa_count := wa_count a1 + 1\<rparr>"
  have "metadata_array_add inl kl vl a h = Ret (?a, h3)"
    unfolding metadata_array_add_eq room using le by (simp add: k v a1(3))
  moreover have "wm_live h3 + array_owns a = wm_live h + array_owns ?a"
    using mset_chain [OF a1(4), of "wm_live h3" "array_owns ?a"] slice_from_copied_live [OF k] slice_from_copied_live [OF v]
      set_slot(2) [OF a1(1,2), of k v] by (simp add: add_ac)
  ultimately show thesis using that set_slot(1) [OF a1(1,2)] by blast
qed

lemma metadata_array_shrink_live:
  assumes wf: "array_wf a" and live: "array_owns a \<subseteq># wm_live h"
  obtains a' h' where "metadata_array_shrink_to_fit a h = Ret (a', h')" "array_wf a'" "wa_count a' = wa_capacity a'"
    "wm_live h' + array_owns a = wm_live h + array_owns a'"
proof -
  have le: "wa_count a \<le> wa_capacity a" using wf by (simp add: array_wf_def)
  consider "wa_count a = wa_capacity a" | "wa_count a < wa_capacity a" "wa_count a \<noteq> 0" | "wa_count a < wa_capacity a" "wa_count a = 0"
    using le by linarith
  then show thesis
  proof cases
    case 1
    then show thesis using that [of a h] wf by (simp add: metadata_array_shrink_to_fit_def)
  next
    case 2
    have "mem_owns (wa_metadata a) \<subseteq># wm_live h"
      using subset_mset.order_trans [OF mset_subset_eq_add_left live [unfolded array_owns_def]] .
    then obtain q h1 where q: "gpr_realloc (wa_metadata a) h = Ret (q, h1)"
      "wm_live h1 + mem_owns (wa_metadata a) = wm_live h + mem_owns (Some q)" by (rule gpr_realloc_live)
    let ?a = "a\<lparr>wa_metadata := Some q, wa_capacity := wa_count a, wa_slots := take (wa_count a) (wa_slots a)\<rparr>"
    have "wm_live h1 + array_owns a = wm_live h + array_owns ?a"
      by (rule mset_swap [OF q(2)]) (simp add: array_owns_def mem_owns_def)
    then show thesis using that [of ?a h1] 2 wf q(1) by (simp add: metadata_array_shrink_to_fit_def array_wf_def)
  next
    case 3
    have "metadata_array_cleanup a h = Ret (h\<lparr>wm_live := wm_live h - array_owns a\<rparr>)"
      using gives_destroy_entries [OF wf] live by (simp add: metadata_array_cleanup_def gives_def)
    then show thesis
      using that [of "a\<lparr>wa_capacity := 0, wa_metadata := None, wa_slots := []\<rparr>" "h\<lparr>wm_live := wm_live h - array_owns a\<rparr>"] 3 live
      by (simp add: metadata_array_shrink_to_fit_def array_wf_def array_owns_def [of "_\<lparr>wa_slots := _\<rparr>"] mem_owns_def slots_own_def)
  qed
qed

lemma gives_destroy_full:
  assumes "array_wf a"
  shows "gives (metadata_array_destroy_full (Some (p, a))) (array_owns a + {#Mem p#})"
proof -
  have "metadata_array_destroy_full (Some (p, a)) = (\<lambda>h. obind (destroy_metadata_including_entries a h) (gpr_release (Some p)))"
    by (rule ext) (simp add: metadata_array_destroy_full_def)
  then show ?thesis using gives_bind [OF gives_destroy_entries [OF assms] gives_gpr_release [of "Some p"]] by (simp add: mem_owns_def)
qed

lemma string_to_byte_buffer_live:
  obtains b h' where "string_to_byte_buffer inl n h = Ret (b, h')" "wm_live h' = wm_live h + buffer_owns (Some b)"
proof -
  obtain s h1 where s: "slice_from_copied inl n h = (s, h1)" by fastforce
  obtain b h2 where b: "raw_byte_buffer_create [s] h1 = (b, h2)" by fastforce
  have "wm_live h2 = wm_live h + buffer_owns (Some b) + slice_owns s"
    using slice_from_copied_live [OF s] buffer_create_live [OF b] by (simp add: add_ac)
  then show thesis
    using that [of b "h2\<lparr>wm_live := wm_live h + buffer_owns (Some b)\<rparr>"] gives_slice_unref [of s]
    by (simp add: string_to_byte_buffer_def s b gives_def)
qed

lemma add_entries_live:
  assumes "array_wf a" "array_owns a \<subseteq># wm_live h"
  obtains a' h' where "add_entries inl kvs a h = Ret (a', h')" "array_wf a'" "wm_live h' + array_owns a = wm_live h + array_owns a'"
  using assms
proof (induction kvs arbitrary: a h thesis)
  case (Cons kv kvs)
  obtain k v where kv: "kv = (k, v)" by (cases kv)
  obtain a1 h1 where 1: "metadata_array_add inl k v a h = Ret (a1, h1)" "array_wf a1" "wm_live h1 + array_owns a = wm_live h + array_owns a1"
    using metadata_array_add_live [OF Cons.prems(2,3)] by blast
  have "array_owns a1 \<subseteq># wm_live h1" by (rule mset_keep [OF 1(3) Cons.prems(3)])
  then obtain a2 h2 where 2: "add_entries inl kvs a1 h1 = Ret (a2, h2)" "array_wf a2" "wm_live h2 + array_owns a1 = wm_live h1 + array_owns a2"
    using Cons.IH [OF _ 1(2)] by blast
  show ?case using Cons.prems(1) [of a2 h2] 1 2 mset_chain [OF 1(3) 2(3)] by (simp add: kv)
qed simp

section \<open>The life of a batch context\<close>

text \<open>
  A caller builds its metadata and its message, hands both to the function that starts the
  batch, and drops what it has left: the slice, and the array that was moved from.
\<close>

definition build_metadata :: "(nat \<Rightarrow> bool) \<Rightarrow> (nat \<times> nat) list option \<Rightarrow> wmem \<Rightarrow> (w_array option \<times> wmem) outcome" where
  "build_metadata inl kvs h = (case kvs of
     None \<Rightarrow> Ret (None, h)
   | Some kvs \<Rightarrow> (case metadata_with_capacity 0 h of (arr, h) \<Rightarrow>
       obind (add_entries inl kvs arr h) (\<lambda>(arr, h). Ret (Some arr, h))))"

definition metadata_opt_drop :: "w_array option \<Rightarrow> wmem \<Rightarrow> wmem outcome" where
  "metadata_opt_drop arr h = (case arr of None \<Rightarrow> Ret h | Some arr \<Rightarrow> metadata_drop arr h)"

record w_state =
  ws_ctx :: w_batch_context
  ws_taken :: "w_buffer list"
  ws_mem :: wmem

text \<open>
  \<open>WReceive\<close> is the core's delivery: arrays whose entries belong to the call, a message of
  slices with the given lengths, and the details of a status. \<open>WTake\<close> hands the message to
  a reader.
\<close>

datatype w_act =
    WStartWithMessage "(nat \<times> nat) list option" nat
  | WStartWithoutMessage "(nat \<times> nat) list option"
  | WSendMessage nat
  | WSendStatus nat "(nat \<times> nat) list option" "nat option"
  | WReceive "(w_slice \<times> w_slice) list" "nat list option" "(w_slice \<times> w_slice) list" nat
  | WTake

fun copied_slices :: "(nat \<Rightarrow> bool) \<Rightarrow> nat list \<Rightarrow> wmem \<Rightarrow> w_slice list \<times> wmem" where
  "copied_slices inl [] h = ([], h)"
| "copied_slices inl (n # ns) h = (case slice_from_copied inl n h of (s, h) \<Rightarrow>
     case copied_slices inl ns h of (ss, h) \<Rightarrow> (s # ss, h))"

definition received_array :: "(w_slice \<times> w_slice) list \<Rightarrow> wmem \<Rightarrow> w_array \<times> wmem" where
  "received_array kvs h = (case gpr_malloc h of (p, h) \<Rightarrow>
     (\<lparr>wa_metadata = Some p, wa_count = length kvs, wa_capacity = length kvs, wa_slots = kvs\<rparr>, h))"

definition received_message :: "(nat \<Rightarrow> bool) \<Rightarrow> nat list option \<Rightarrow> wmem \<Rightarrow> w_buffer option \<times> wmem" where
  "received_message inl ns h = (case ns of
     None \<Rightarrow> (None, h)
   | Some ns \<Rightarrow> (case copied_slices inl ns h of (ss, h) \<Rightarrow>
       case fresh Buffer h of (b, h) \<Rightarrow> (Some \<lparr>wf_id = b, wf_slices = ss\<rparr>, h)))"

text \<open>A context serves one batch: no field is filled twice.\<close>

fun w_allowed :: "w_act \<Rightarrow> w_batch_context \<Rightarrow> bool" where
  "w_allowed (WStartWithMessage kvs n) ctx \<longleftrightarrow> wb_send_initial_metadata ctx = w_array_zero \<and> wb_send_message ctx = None"
| "w_allowed (WStartWithoutMessage kvs) ctx \<longleftrightarrow> wb_send_initial_metadata ctx = w_array_zero"
| "w_allowed (WSendMessage n) ctx \<longleftrightarrow> wb_send_message ctx = None"
| "w_allowed (WSendStatus d kvs m) ctx \<longleftrightarrow> wb_send_trailing_metadata ctx = w_array_zero \<and> wb_send_message ctx = None"
| "w_allowed (WReceive i m t d) ctx \<longleftrightarrow> wb_recv_initial_metadata ctx = w_array_zero \<and> wb_recv_message ctx = None
     \<and> wb_recv_trailing_metadata ctx = w_array_zero \<and> wb_recv_status_details ctx = SInline"
| "w_allowed WTake ctx \<longleftrightarrow> True"

fun w_exec :: "(nat \<Rightarrow> bool) \<Rightarrow> w_act \<Rightarrow> w_state \<Rightarrow> w_state outcome" where
  "w_exec inl (WStartWithMessage kvs n) s =
     obind (build_metadata inl kvs (ws_mem s)) (\<lambda>(md, h).
     case slice_from_copied inl n h of (msg, h) \<Rightarrow>
     case wrap_start_with_message md msg (ws_ctx s) h of (left_over, ctx, h) \<Rightarrow>
     obind (grpc_slice_drop msg h) (\<lambda>h.
     obind (metadata_opt_drop left_over h) (\<lambda>h. Ret (s\<lparr>ws_ctx := ctx, ws_mem := h\<rparr>))))"
| "w_exec inl (WStartWithoutMessage kvs) s =
     obind (build_metadata inl kvs (ws_mem s)) (\<lambda>(md, h).
     case wrap_start_without_message md (ws_ctx s) of (left_over, ctx) \<Rightarrow>
     obind (metadata_opt_drop left_over h) (\<lambda>h. Ret (s\<lparr>ws_ctx := ctx, ws_mem := h\<rparr>)))"
| "w_exec inl (WSendMessage n) s =
     (case slice_from_copied inl n (ws_mem s) of (msg, h) \<Rightarrow>
      case wrap_send_message msg (ws_ctx s) h of (ctx, h) \<Rightarrow>
      obind (grpc_slice_drop msg h) (\<lambda>h. Ret (s\<lparr>ws_ctx := ctx, ws_mem := h\<rparr>)))"
| "w_exec inl (WSendStatus d kvs m) s =
     obind (build_metadata inl kvs (ws_mem s)) (\<lambda>(md, h).
     case (case m of None \<Rightarrow> (None, h) | Some n \<Rightarrow> (case slice_from_copied inl n h of (msg, h) \<Rightarrow> (Some msg, h))) of (msg, h) \<Rightarrow>
     obind (wrap_send_status_from_server inl d md msg (ws_ctx s) h) (\<lambda>(left_over, ctx, h).
     obind (case msg of None \<Rightarrow> Ret h | Some msg \<Rightarrow> grpc_slice_drop msg h) (\<lambda>h.
     obind (metadata_opt_drop left_over h) (\<lambda>h. Ret (s\<lparr>ws_ctx := ctx, ws_mem := h\<rparr>)))))"
| "w_exec inl (WReceive i m t d) s =
     (case received_array i (ws_mem s) of (ri, h) \<Rightarrow>
      case received_message inl m h of (rm, h) \<Rightarrow>
      case received_array t h of (rt, h) \<Rightarrow>
      case slice_from_copied inl d h of (rd, h) \<Rightarrow>
      Ret (s\<lparr>ws_ctx := (ws_ctx s)\<lparr>wb_recv_initial_metadata := ri, wb_recv_message := rm, wb_recv_trailing_metadata := rt,
               wb_recv_status_details := rd\<rparr>, ws_mem := h\<rparr>))"
| "w_exec inl WTake s = (case batch_context_take_recv_message (ws_ctx s) of (buf, ctx) \<Rightarrow>
     Ret (s\<lparr>ws_ctx := ctx, ws_taken := (case buf of None \<Rightarrow> ws_taken s | Some b \<Rightarrow> b # ws_taken s)\<rparr>))"

fun w_run :: "(nat \<Rightarrow> bool) \<Rightarrow> w_act list \<Rightarrow> w_state \<Rightarrow> w_state outcome" where
  "w_run inl [] s = Ret s"
| "w_run inl (a # as) s = obind (if w_allowed a (ws_ctx s) then w_exec inl a s else Ret s) (w_run inl as)"

definition w_start :: "wmem \<Rightarrow> w_state" where
  "w_start h = (case wrap_batch_context_create h of (ctx, h) \<Rightarrow> \<lparr>ws_ctx = ctx, ws_taken = [], ws_mem = h\<rparr>)"

fun drop_buffers :: "w_buffer list \<Rightarrow> wmem \<Rightarrow> wmem outcome" where
  "drop_buffers [] h = Ret h"
| "drop_buffers (b # bs) h = obind (byte_buffer_drop b h) (drop_buffers bs)"

definition w_finish :: "w_state \<Rightarrow> wmem outcome" where
  "w_finish s = obind (batch_context_drop (ws_ctx s) (ws_mem s)) (drop_buffers (ws_taken s))"

text \<open>What a state owns is what was added to the memory since the start.\<close>

definition buffers_own :: "w_buffer list \<Rightarrow> res multiset" where
  "buffers_own bs = sum_list (map (\<lambda>b. buffer_owns (Some b)) bs)"

definition w_inv :: "res multiset \<Rightarrow> w_state \<Rightarrow> bool" where
  "w_inv base s \<longleftrightarrow> context_wf (ws_ctx s) \<and> wm_live (ws_mem s) = base + context_owns (ws_ctx s) + buffers_own (ws_taken s)"

lemma gives_drop_buffers: "gives (drop_buffers bs) (buffers_own bs)"
proof (induction bs)
  case (Cons b bs)
  have "drop_buffers (b # bs) = (\<lambda>h. obind (byte_buffer_destroy (Some b) h) (drop_buffers bs))"
    by (rule ext) (simp add: byte_buffer_drop_def)
  then show ?case using gives_bind [OF gives_buffer_destroy Cons.IH] by (simp add: buffers_own_def)
qed (simp add: buffers_own_def gives_def)

lemma w_finish_live:
  assumes "w_inv base s"
  shows "\<exists>h. w_finish s = Ret h \<and> wm_live h = base"
proof -
  have "gives (\<lambda>h. obind (batch_context_drop (ws_ctx s) h) (drop_buffers (ws_taken s))) (context_owns (ws_ctx s) + buffers_own (ws_taken s))"
    using assms gives_bind [OF gives_context_drop gives_drop_buffers] by (simp add: w_inv_def)
  then show ?thesis using assms by (auto simp: w_inv_def w_finish_def gives_def add.assoc)
qed

lemma w_start_inv: "w_inv (wm_live h) (w_start h)"
  by (simp add: w_inv_def w_start_def wrap_batch_context_create_def gpr_malloc_def fresh_def acquire_def context_wf_def array_wf_def
      w_array_zero_def context_owns_def array_owns_def owns_defs slots_own_def buffers_own_def split: prod.split)

lemma array_zero_owns [simp]: "array_owns w_array_zero = {#}" "array_wf w_array_zero" "wa_metadata w_array_zero = None"
  by (simp_all add: array_owns_def w_array_zero_def mem_owns_def slots_own_def array_wf_def)

text \<open>The metadata of a caller, before and after it is moved.\<close>

definition opt_owns :: "w_array option \<Rightarrow> res multiset" where
  "opt_owns a = (case a of None \<Rightarrow> {#} | Some a \<Rightarrow> array_owns a)"

lemma build_metadata_live:
  obtains md h' where "build_metadata inl kvs h = Ret (md, h')" "pred_option array_wf md" "wm_live h' = wm_live h + opt_owns md"
proof (cases kvs)
  case (Some kvs')
  have init: "metadata_with_capacity 0 h = (w_array_zero, h)" by (simp add: metadata_with_capacity_def metadata_array_init_def)
  obtain a h' where "add_entries inl kvs' w_array_zero h = Ret (a, h')" "array_wf a" "wm_live h' + array_owns w_array_zero = wm_live h + array_owns a"
    by (rule add_entries_live [of w_array_zero h]) simp_all
  then show thesis using that [of "Some a" h'] by (simp add: build_metadata_def Some init opt_owns_def)
qed (use that [of None h] in \<open>simp add: build_metadata_def opt_owns_def\<close>)

lemma move_live:
  assumes "metadata_array_move md = (a, left_over)" "pred_option array_wf md"
  shows "array_wf a" "array_owns a = opt_owns md" "metadata_opt_drop left_over h = Ret h"
  using assms
  by (auto simp: metadata_array_move_def opt_owns_def metadata_opt_drop_def metadata_drop_def metadata_array_cleanup_def
      destroy_metadata_including_entries_def gpr_release_def split: option.splits)

lemma slice_drop_live:
  assumes "slice_owns s \<subseteq># wm_live h"
  shows "grpc_slice_drop s h = Ret (h\<lparr>wm_live := wm_live h - slice_owns s\<rparr>)"
  using gives_slice_unref [of s] assms by (simp add: grpc_slice_drop_def gives_def)

text \<open>A message is copied into a slice, the buffer takes its reference, and the slice is dropped.\<close>

lemma message_live:
  assumes "slice_from_copied inl n h = (msg, h1)" "raw_byte_buffer_create [msg] h1 = (b, h2)"
  obtains h3 where "grpc_slice_drop msg h2 = Ret h3" "wm_live h3 = wm_live h + buffer_owns (Some b)"
proof -
  have live: "wm_live h2 = wm_live h + buffer_owns (Some b) + slice_owns msg"
    using slice_from_copied_live [OF assms(1)] buffer_create_live [OF assms(2)] by (simp add: add_ac)
  then show thesis using that slice_drop_live [of msg h2] by simp
qed

lemma w_exec_with_message:
  assumes inv: "w_inv base s" and allowed: "w_allowed (WStartWithMessage kvs n) (ws_ctx s)"
  shows "\<exists>s'. w_exec inl (WStartWithMessage kvs n) s = Ret s' \<and> w_inv base s'"
proof -
  obtain md h1 where md: "build_metadata inl kvs (ws_mem s) = Ret (md, h1)" "pred_option array_wf md"
    "wm_live h1 = wm_live (ws_mem s) + opt_owns md" by (rule build_metadata_live)
  obtain msg h2 where msg: "slice_from_copied inl n h1 = (msg, h2)" by fastforce
  obtain a lo where mv: "metadata_array_move md = (a, lo)" by fastforce
  obtain b h3 where b: "raw_byte_buffer_create [msg] h2 = (b, h3)" by fastforce
  obtain h4 where h4: "grpc_slice_drop msg h3 = Ret h4" "wm_live h4 = wm_live h1 + buffer_owns (Some b)" by (rule message_live [OF msg b])
  show ?thesis using inv allowed
    by (simp add: md msg wrap_start_with_message_def mv b h4 move_live [OF mv md(2)] w_inv_def context_wf_def context_owns_def)
      (simp add: buffer_owns_def add_ac)
qed

lemma w_exec_without_message:
  assumes inv: "w_inv base s" and allowed: "w_allowed (WStartWithoutMessage kvs) (ws_ctx s)"
  shows "\<exists>s'. w_exec inl (WStartWithoutMessage kvs) s = Ret s' \<and> w_inv base s'"
proof -
  obtain md h1 where md: "build_metadata inl kvs (ws_mem s) = Ret (md, h1)" "pred_option array_wf md"
    "wm_live h1 = wm_live (ws_mem s) + opt_owns md" by (rule build_metadata_live)
  obtain a lo where mv: "metadata_array_move md = (a, lo)" by fastforce
  show ?thesis using inv allowed
    by (simp add: md wrap_start_without_message_def mv move_live [OF mv md(2)] w_inv_def context_wf_def context_owns_def add_ac)
qed

lemma w_exec_send_message:
  assumes inv: "w_inv base s" and allowed: "w_allowed (WSendMessage n) (ws_ctx s)"
  shows "\<exists>s'. w_exec inl (WSendMessage n) s = Ret s' \<and> w_inv base s'"
proof -
  obtain msg h1 where msg: "slice_from_copied inl n (ws_mem s) = (msg, h1)" by fastforce
  obtain b h2 where b: "raw_byte_buffer_create [msg] h1 = (b, h2)" by fastforce
  obtain h3 where h3: "grpc_slice_drop msg h2 = Ret h3" "wm_live h3 = wm_live (ws_mem s) + buffer_owns (Some b)"
    by (rule message_live [OF msg b])
  show ?thesis using inv allowed
    by (simp add: msg wrap_send_message_def b h3 w_inv_def context_wf_def context_owns_def) (simp add: buffer_owns_def add_ac)
qed

text \<open>The slice with the details of a status lives as long as the call that starts the batch.\<close>

lemma send_status_live:
  assumes md: "pred_option array_wf md" "metadata_array_move md = (a, lo)"
    and msg: "(case m of None \<Rightarrow> (None, h0) | Some n \<Rightarrow> (case slice_from_copied inl n h0 of (msg, h) \<Rightarrow> (Some msg, h))) = (msg, h)"
  obtains h1 h2 b where
    "wrap_send_status_from_server inl d md msg ctx h =
       Ret (lo, ctx\<lparr>wb_send_trailing_metadata := a, wb_send_message := (case m of None \<Rightarrow> wb_send_message ctx | Some _ \<Rightarrow> b)\<rparr>, h1)"
    "(case msg of None \<Rightarrow> Ret h1 | Some msg \<Rightarrow> grpc_slice_drop msg h1) = Ret h2"
    "wm_live h2 = wm_live h0 + (case m of None \<Rightarrow> {#} | Some _ \<Rightarrow> buffer_owns b)"
proof -
  obtain sd h1 where sd: "slice_from_copied inl d h = (sd, h1)" by fastforce
  note l1 = slice_from_copied_live [OF sd]
  show thesis
  proof (cases m)
    case None
    then have m: "msg = None" "h = h0" using msg by simp_all
    have "slice_unref sd h1 = Ret (h1\<lparr>wm_live := wm_live h0\<rparr>)"
      using gives_slice_unref [of sd] l1 m by (simp add: gives_def)
    then show thesis
      using that [of None "h1\<lparr>wm_live := wm_live h0\<rparr>"] m md(2) sd by (simp add: wrap_send_status_from_server_def None)
  next
    case (Some n)
    obtain sl where sl: "msg = Some sl" "slice_from_copied inl n h0 = (sl, h)" using msg by (auto simp: Some split: prod.splits)
    obtain b h2 where b: "raw_byte_buffer_create [sl] h1 = (b, h2)" by fastforce
    have live: "wm_live h2 = wm_live h0 + buffer_owns (Some b) + slice_owns sl + slice_owns sd"
      using slice_from_copied_live [OF sl(2)] l1 buffer_create_live [OF b] by (simp add: add_ac)
    let ?h = "h2\<lparr>wm_live := wm_live h0 + buffer_owns (Some b) + slice_owns sl\<rparr>"
    have "slice_unref sd h2 = Ret ?h" using gives_slice_unref [of sd] live by (simp add: gives_def)
    moreover have "grpc_slice_drop sl ?h = Ret (?h\<lparr>wm_live := wm_live h0 + buffer_owns (Some b)\<rparr>)"
      by (subst slice_drop_live) simp_all
    ultimately show thesis
      using that [of "Some b" ?h] sl md(2) sd b by (simp add: wrap_send_status_from_server_def Some)
  qed
qed

lemma w_exec_send_status:
  assumes inv: "w_inv base s" and allowed: "w_allowed (WSendStatus d kvs m) (ws_ctx s)"
  shows "\<exists>s'. w_exec inl (WSendStatus d kvs m) s = Ret s' \<and> w_inv base s'"
proof -
  obtain md h1 where md: "build_metadata inl kvs (ws_mem s) = Ret (md, h1)" "pred_option array_wf md"
    "wm_live h1 = wm_live (ws_mem s) + opt_owns md" by (rule build_metadata_live)
  obtain a lo where mv: "metadata_array_move md = (a, lo)" by fastforce
  obtain msg h2 where msg: "(case m of None \<Rightarrow> (None, h1) | Some n \<Rightarrow> (case slice_from_copied inl n h1 of (msg, h) \<Rightarrow> (Some msg, h))) = (msg, h2)"
    by fastforce
  obtain h3 h4 b where st: "wrap_send_status_from_server inl d md msg (ws_ctx s) h2 =
       Ret (lo, (ws_ctx s)\<lparr>wb_send_trailing_metadata := a, wb_send_message := (case m of None \<Rightarrow> wb_send_message (ws_ctx s) | Some _ \<Rightarrow> b)\<rparr>, h3)"
    "(case msg of None \<Rightarrow> Ret h3 | Some msg \<Rightarrow> grpc_slice_drop msg h3) = Ret h4"
    "wm_live h4 = wm_live h1 + (case m of None \<Rightarrow> {#} | Some _ \<Rightarrow> buffer_owns b)"
    by (rule send_status_live [OF md(2) mv msg])
  have "w_exec inl (WSendStatus d kvs m) s = Ret (s\<lparr>ws_ctx := (ws_ctx s)\<lparr>wb_send_trailing_metadata := a,
      wb_send_message := (case m of None \<Rightarrow> wb_send_message (ws_ctx s) | Some _ \<Rightarrow> b)\<rparr>, ws_mem := h4\<rparr>)"
    by (simp add: md msg st move_live(3) [OF mv md(2)])
  then show ?thesis using inv allowed
    by (cases m) (simp_all add: w_inv_def context_wf_def context_owns_def move_live [OF mv md(2)] st(3) md(3) add_ac buffer_owns_def [of None])
qed

text \<open>What the core delivers, and the reader's message.\<close>

lemma copied_slices_live: "copied_slices inl ns h = (ss, h') \<Longrightarrow> wm_live h' = wm_live h + slices_own ss"
proof (induction ns arbitrary: h ss)
  case (Cons n ns)
  obtain s h1 where s: "slice_from_copied inl n h = (s, h1)" by fastforce
  obtain ss' where ss: "copied_slices inl ns h1 = (ss', h')" "ss = s # ss'" using Cons.prems by (auto simp: s split: prod.splits)
  show ?case using Cons.IH [OF ss(1)] slice_from_copied_live [OF s] by (simp add: ss(2) slices_own_def)
qed (simp add: slices_own_def)

lemma received_array_live: "received_array kvs h = (a, h') \<Longrightarrow> wm_live h' = wm_live h + mem_owns (wa_metadata a)"
  by (auto simp: received_array_def gpr_malloc_def fresh_def acquire_def mem_owns_def)

lemma received_message_live: "received_message inl ns h = (b, h') \<Longrightarrow> wm_live h' = wm_live h + buffer_owns b"
  by (auto simp: received_message_def buffer_owns_def fresh_def acquire_def dest: copied_slices_live split: option.splits prod.splits)

lemma w_exec_receive:
  assumes inv: "w_inv base s" and allowed: "w_allowed (WReceive i m t d) (ws_ctx s)"
  shows "\<exists>s'. w_exec inl (WReceive i m t d) s = Ret s' \<and> w_inv base s'"
proof -
  obtain ri h1 where ri: "received_array i (ws_mem s) = (ri, h1)" by fastforce
  obtain rm h2 where rm: "received_message inl m h1 = (rm, h2)" by fastforce
  obtain rt h3 where rt: "received_array t h2 = (rt, h3)" by fastforce
  obtain rd h4 where rd: "slice_from_copied inl d h3 = (rd, h4)" by fastforce
  have live: "wm_live h4 = wm_live (ws_mem s) + mem_owns (wa_metadata ri) + buffer_owns rm + mem_owns (wa_metadata rt) + slice_owns rd"
    using received_array_live [OF ri] received_message_live [OF rm] received_array_live [OF rt] slice_from_copied_live [OF rd] by simp
  have none: "mem_owns None = {#}" "buffer_owns None = {#}" "slice_owns SInline = {#}" by (simp_all add: owns_defs)
  show ?thesis using inv allowed
    by (simp add: ri rm rt rd w_inv_def context_wf_def context_owns_def live none)
qed

lemma w_exec_take:
  assumes "w_inv base s"
  shows "\<exists>s'. w_exec inl WTake s = Ret s' \<and> w_inv base s'"
  using assms
  by (cases "wb_recv_message (ws_ctx s)")
    (simp_all add: batch_context_take_recv_message_def w_inv_def context_wf_def context_owns_def buffers_own_def add_ac buffer_owns_def [of None])

lemma w_exec_inv: "w_inv base s \<Longrightarrow> w_allowed a (ws_ctx s) \<Longrightarrow> \<exists>s'. w_exec inl a s = Ret s' \<and> w_inv base s'"
  by (cases a) (simp_all only: w_exec_with_message w_exec_without_message w_exec_send_message w_exec_send_status w_exec_receive w_exec_take)

lemma w_run_inv: "w_inv base s \<Longrightarrow> \<exists>s'. w_run inl as s = Ret s' \<and> w_inv base s'"
proof (induction as arbitrary: s)
  case (Cons a as)
  obtain s' where "(if w_allowed a (ws_ctx s) then w_exec inl a s else Ret s) = Ret s'" "w_inv base s'"
    using w_exec_inv [OF Cons.prems] Cons.prems by (metis (full_types))
  then show ?case using Cons.IH by simp
qed simp

text \<open>
  C12. The memory of a batch. From the creation of a batch context, through any sequence of
  starts of batches with metadata and messages, deliveries by the core and messages taken by
  readers, to the drop of the context and of the taken messages: nothing that is not held is ever
  given back, so there is no double free, and at the end exactly the references of the
  beginning are held, so nothing leaks. It holds whichever lengths the core keeps inline.
\<close>

theorem batch_context_memory:
  "\<exists>s h'. w_run inl acts (w_start h) = Ret s \<and> w_finish s = Ret h' \<and> wm_live h' = wm_live h"
  using w_run_inv [OF w_start_inv, of inl acts h] w_finish_live by blast

section \<open>The life of a request context\<close>

text \<open>
  The core fills the context with a new call, the slices of the call's details and an array;
  the server takes handles on the call, and wakers clone them.
\<close>

definition core_request :: "(nat \<Rightarrow> bool) \<Rightarrow> nat \<Rightarrow> nat \<Rightarrow> (w_slice \<times> w_slice) list \<Rightarrow> w_request_context \<Rightarrow> wmem \<Rightarrow> w_request_context \<times> wmem" where
  "core_request inl method_len host_len kvs ctx h =
     (case fresh CallRef h of (c, h) \<Rightarrow>
      case slice_from_copied inl method_len h of (m, h) \<Rightarrow>
      case slice_from_copied inl host_len h of (ho, h) \<Rightarrow>
      case received_array kvs h of (md, h) \<Rightarrow>
      (ctx\<lparr>wr_call := Some c, wr_method := m, wr_host := ho, wr_request_metadata := md\<rparr>, h))"

fun take_calls :: "nat \<Rightarrow> w_request_context \<Rightarrow> wmem \<Rightarrow> (nat list \<times> wmem) outcome" where
  "take_calls 0 ctx h = Ret ([], h)"
| "take_calls (Suc n) ctx h = obind (request_context_call ctx h) (\<lambda>(c, h).
     obind (take_calls n ctx h) (\<lambda>(cs, h). case kicker_clone c h of (k, h) \<Rightarrow> Ret (c # k # cs, h)))"

fun drop_calls :: "nat list \<Rightarrow> wmem \<Rightarrow> wmem outcome" where
  "drop_calls [] h = Ret h"
| "drop_calls (c # cs) h = obind (call_drop c h) (drop_calls cs)"

definition calls_own :: "nat list \<Rightarrow> res multiset" where
  "calls_own cs = mset (map CallRef cs)"

lemma gives_drop_calls: "gives (drop_calls cs) (calls_own cs)"
proof (induction cs)
  case (Cons c cs)
  have "drop_calls (c # cs) = (\<lambda>h. obind (release (CallRef c) h) (drop_calls cs))"
    by (rule ext) (simp add: call_drop_def call_unref_def)
  then show ?case using gives_bind [OF gives_release Cons.IH] by (simp add: calls_own_def)
qed (simp add: calls_own_def gives_def)

lemma gives_request_drop: "gives (request_context_drop ctx) (request_owns ctx)"
proof -
  let ?c = "\<lambda>h. case wr_call ctx of None \<Rightarrow> Ret h | Some call \<Rightarrow> call_unref call h"
  have c: "gives ?c (case wr_call ctx of None \<Rightarrow> {#} | Some c \<Rightarrow> {#CallRef c#})"
    by (cases "wr_call ctx") (simp_all add: call_unref_def)
  have "request_context_drop ctx = (\<lambda>h. obind (?c h) (\<lambda>h.
      obind (obind (slice_unref (wr_method ctx) h) (slice_unref (wr_host ctx))) (\<lambda>h.
      obind (gpr_release (wa_metadata (wr_request_metadata ctx)) h) (\<lambda>h. gpr_release (Some (wr_self ctx)) h))))"
    by (rule ext) (simp add: request_context_drop_def request_call_context_destroy_def call_details_destroy_def destroy_metadata_only_def)
  moreover have "gives \<dots> ((case wr_call ctx of None \<Rightarrow> {#} | Some c \<Rightarrow> {#CallRef c#}) + ((slice_owns (wr_method ctx) + slice_owns (wr_host ctx))
      + (mem_owns (wa_metadata (wr_request_metadata ctx)) + mem_owns (Some (wr_self ctx)))))"
    by (intro gives_bind c gives_slice_unref gives_gpr_release)
  ultimately show ?thesis by (simp add: request_owns_def mem_owns_def add.assoc)
qed

lemma core_request_live:
  assumes "request_call_context_create h0 = (ctx0, h1)" "core_request inl ml hl kvs ctx0 h1 = (ctx, h)"
  shows "wr_call ctx \<noteq> None" "wm_live h = wm_live h0 + request_owns ctx"
proof -
  have self: "wm_live h1 = add_mset (Mem (wr_self ctx0)) (wm_live h0)"
    using assms(1) by (auto simp: request_call_context_create_def gpr_malloc_def fresh_def acquire_def)
  obtain c h2 where c: "fresh CallRef h1 = (c, h2)" by fastforce
  obtain m h3 where m: "slice_from_copied inl ml h2 = (m, h3)" by fastforce
  obtain ho h4 where ho: "slice_from_copied inl hl h3 = (ho, h4)" by fastforce
  obtain md where md: "received_array kvs h4 = (md, h)" and ctx: "ctx = ctx0\<lparr>wr_call := Some c, wr_method := m, wr_host := ho, wr_request_metadata := md\<rparr>"
    using assms(2) by (auto simp: core_request_def c m ho split: prod.splits)
  have "wm_live h2 = add_mset (CallRef c) (wm_live h1)" using c by (auto simp: fresh_def acquire_def)
  then show "wm_live h = wm_live h0 + request_owns ctx"
    using slice_from_copied_live [OF m] slice_from_copied_live [OF ho] received_array_live [OF md] self
    by (simp add: ctx request_owns_def)
  show "wr_call ctx \<noteq> None" by (simp add: ctx)
qed

lemma take_calls_live:
  "wr_call ctx \<noteq> None \<Longrightarrow> \<exists>cs h'. take_calls n ctx h = Ret (cs, h') \<and> length cs = 2 * n \<and> wm_live h' = wm_live h + calls_own cs"
proof (induction n arbitrary: h)
  case (Suc n)
  then obtain c where c: "wr_call ctx = Some c" by blast
  obtain cs h' where "take_calls n ctx (acquire (CallRef c) h) = Ret (cs, h')" "length cs = 2 * n"
    "wm_live h' = wm_live (acquire (CallRef c) h) + calls_own cs" using Suc by blast
  then show ?case by (simp add: request_context_call_def request_call_context_ref_call_def call_from_raw_def c kicker_clone_def
      acquire_def calls_own_def)
qed (simp add: calls_own_def)

lemma request_handles_live:
  assumes "request_call_context_create h0 = (ctx0, h1)" "core_request inl ml hl kvs ctx0 h1 = (ctx, h)"
  shows "\<exists>cs h2 h3 h4. take_calls n ctx h = Ret (cs, h2) \<and> length cs = 2 * n
    \<and> obind (request_context_drop ctx h2) (drop_calls cs) = Ret h3 \<and> wm_live h3 = wm_live h0
    \<and> obind (drop_calls cs h2) (request_context_drop ctx) = Ret h4 \<and> wm_live h4 = wm_live h0"
proof -
  note live = core_request_live [OF assms]
  obtain cs h2 where cs: "take_calls n ctx h = Ret (cs, h2)" "length cs = 2 * n" "wm_live h2 = wm_live h + calls_own cs"
    using take_calls_live [OF live(1)] by blast
  have "obind (request_context_drop ctx h2) (drop_calls cs) = Ret (h2\<lparr>wm_live := wm_live h2 - (request_owns ctx + calls_own cs)\<rparr>)"
    "obind (drop_calls cs h2) (request_context_drop ctx) = Ret (h2\<lparr>wm_live := wm_live h2 - (calls_own cs + request_owns ctx)\<rparr>)"
    using gives_bind [OF gives_request_drop [of ctx] gives_drop_calls [of cs]] gives_bind [OF gives_drop_calls [of cs] gives_request_drop [of ctx]]
      live(2) cs(3) by (simp_all add: gives_def add_ac)
  then show ?thesis using live(2) cs by (simp add: add_ac)
qed

text \<open>
  C15. The memory of a request. The core fills a request context, the server takes any number
  of handles on its call, each of them cloned once by a kicker, and the context and the handles
  are dropped in either order: nothing is given back twice, and the references of the beginning are
  held at the end. The call lives as long as one of its handles does.
\<close>

theorem request_context_memory:
  "case request_call_context_create h0 of (ctx0, h1) \<Rightarrow> case core_request inl ml hl kvs ctx0 h1 of (ctx, h) \<Rightarrow>
   \<exists>cs h2 h3 h4. take_calls n ctx h = Ret (cs, h2) \<and> length cs = 2 * n
    \<and> obind (request_context_drop ctx h2) (drop_calls cs) = Ret h3 \<and> wm_live h3 = wm_live h0
    \<and> obind (drop_calls cs h2) (request_context_drop ctx) = Ret h4 \<and> wm_live h4 = wm_live h0"
  using request_handles_live by (fastforce split: prod.split)

end
