(* ===== verification/Grpc_Health_Proto.thy ===== *)
theory Grpc_Health_Proto
  imports Grpc_Health
begin

text \<open>
  \<^verbatim>\<open>health/src/proto/protobuf/health.rs\<close>: the generated code of the messages of the
  health service. The runtime of rust-protobuf is an
  argument; what the generated code relies on of it is stated by \<open>pb_laws\<close>, which an
  implementation of the wire format satisfies.
\<close>

section \<open>The runtime\<close>

text \<open>
  The functions of the crate \<^verbatim>\<open>protobuf\<close> that the generated code calls, on streams
  \<open>'s\<close>, wire types \<open>'w\<close> and sets of unknown fields \<open>'u\<close>. An output stream is the bytes
  written so far.
\<close>

record ('s, 'w, 'u) pb_runtime =
  rt_from_bytes :: "bytes \<Rightarrow> 's"
  rt_eof :: "'s \<Rightarrow> string + bool \<times> 's"
  rt_read_tag_unpack :: "'s \<Rightarrow> string + (nat \<times> 'w) \<times> 's"
  rt_read_string :: "'w \<Rightarrow> 's \<Rightarrow> string + bytes \<times> 's"
  rt_read_enum :: "(int \<Rightarrow> ServingStatus option) \<Rightarrow> 'w \<Rightarrow> 's \<Rightarrow> nat \<Rightarrow> 'u \<Rightarrow> string + ServingStatus option \<times> 'u \<times> 's"
  rt_read_unknown_or_skip_group :: "nat \<Rightarrow> 'w \<Rightarrow> 's \<Rightarrow> 'u \<Rightarrow> string + 'u \<times> 's"
  rt_unknown_default :: 'u
  rt_string_size :: "nat \<Rightarrow> bytes \<Rightarrow> u32"
  rt_enum_size :: "nat \<Rightarrow> int \<Rightarrow> u32"
  rt_unknown_fields_size :: "'u \<Rightarrow> u32"
  rt_write_string :: "nat \<Rightarrow> bytes \<Rightarrow> bytes \<Rightarrow> string + bytes"
  rt_write_enum :: "nat \<Rightarrow> int \<Rightarrow> bytes \<Rightarrow> string + bytes"
  rt_write_unknown_fields :: "'u \<Rightarrow> bytes \<Rightarrow> string + bytes"

definition rbind :: "string + 'a \<Rightarrow> ('a \<Rightarrow> string + 'b) \<Rightarrow> string + 'b" where
  "rbind r f = (case r of Inl e \<Rightarrow> Inl e | Inr a \<Rightarrow> f a)"

lemma rbind_simps [simp]: "rbind (Inl e) f = Inl e" "rbind (Inr a) f = f a"
  by (simp_all add: rbind_def)

section \<open>HealthCheckRequest\<close>

record 'u HealthCheckRequest =
  req_service :: bytes
  req_unknown_fields :: 'u
  req_cached_size :: u32

definition request_msg_new :: "('s, 'w, 'u) pb_runtime \<Rightarrow> 'u HealthCheckRequest" where
  "request_msg_new rt = \<lparr>req_service = [], req_unknown_fields = rt_unknown_default rt, req_cached_size = 0\<rparr>"

definition clear_service :: "'u HealthCheckRequest \<Rightarrow> 'u HealthCheckRequest" where
  "clear_service self = self\<lparr>req_service := []\<rparr>"

definition set_service :: "bytes \<Rightarrow> 'u HealthCheckRequest \<Rightarrow> 'u HealthCheckRequest" where
  "set_service v self = self\<lparr>req_service := v\<rparr>"

definition take_service :: "'u HealthCheckRequest \<Rightarrow> bytes \<times> 'u HealthCheckRequest" where
  "take_service self = (req_service self, self\<lparr>req_service := []\<rparr>)"

text \<open>
  The loop of \<^verbatim>\<open>merge_from\<close>: one field in each round. The message and the stream
  are returned as they are when the loop ends, with an error or without; a stream that never ends
  gives \<open>None\<close>.
\<close>

definition request_merge_field ::
  "('s, 'w, 'u) pb_runtime \<Rightarrow> 's \<Rightarrow> 'u HealthCheckRequest \<Rightarrow> string + 'u HealthCheckRequest \<times> 's" where
  "request_merge_field rt is self = rbind (rt_read_tag_unpack rt is) (\<lambda>((field_number, wire_type), is).
     if field_number = 1 then rbind (rt_read_string rt wire_type is) (\<lambda>(v, is). Inr (self\<lparr>req_service := v\<rparr>, is))
     else rbind (rt_read_unknown_or_skip_group rt field_number wire_type is (req_unknown_fields self)) (\<lambda>(u, is).
       Inr (self\<lparr>req_unknown_fields := u\<rparr>, is)))"

partial_function (option) merge_loop ::
  "('s, 'w, 'u) pb_runtime \<Rightarrow> ('s \<Rightarrow> 'm \<Rightarrow> string + 'm \<times> 's) \<Rightarrow> 's \<Rightarrow> 'm \<Rightarrow> ((string + unit) \<times> 'm) option" where
  "merge_loop rt merge_field is self = (case rt_eof rt is of
     Inl e \<Rightarrow> Some (Inl e, self)
   | Inr (eof, is) \<Rightarrow> if eof then Some (Inr (), self) else (case merge_field is self of
       Inl e \<Rightarrow> Some (Inl e, self)
     | Inr (self, is) \<Rightarrow> merge_loop rt merge_field is self))"

definition request_merge_from ::
  "('s, 'w, 'u) pb_runtime \<Rightarrow> 's \<Rightarrow> 'u HealthCheckRequest \<Rightarrow> ((string + unit) \<times> 'u HealthCheckRequest) option" where
  "request_merge_from rt is self = merge_loop rt (request_merge_field rt) is self"

definition request_compute_size :: "('s, 'w, 'u) pb_runtime \<Rightarrow> 'u HealthCheckRequest \<Rightarrow> u32 \<times> 'u HealthCheckRequest" where
  "request_compute_size rt self =
     (let my_size = 0;
          my_size = (if req_service self \<noteq> [] then my_size + rt_string_size rt 1 (req_service self) else my_size);
          my_size = my_size + rt_unknown_fields_size rt (req_unknown_fields self)
      in (my_size, self\<lparr>req_cached_size := my_size\<rparr>))"

definition request_write_to :: "('s, 'w, 'u) pb_runtime \<Rightarrow> 'u HealthCheckRequest \<Rightarrow> bytes \<Rightarrow> string + bytes" where
  "request_write_to rt self os =
     rbind (if req_service self \<noteq> [] then rt_write_string rt 1 (req_service self) os else Inr os)
       (rt_write_unknown_fields rt (req_unknown_fields self))"

definition request_clear :: "('s, 'w, 'u) pb_runtime \<Rightarrow> 'u HealthCheckRequest \<Rightarrow> 'u HealthCheckRequest" where
  "request_clear rt self = self\<lparr>req_service := [], req_unknown_fields := rt_unknown_default rt\<rparr>"

section \<open>HealthCheckResponse\<close>

record 'u HealthCheckResponse =
  resp_status :: ServingStatus
  resp_unknown_fields :: 'u
  resp_cached_size :: u32

definition response_msg_new :: "('s, 'w, 'u) pb_runtime \<Rightarrow> 'u HealthCheckResponse" where
  "response_msg_new rt = \<lparr>resp_status = Unknown, resp_unknown_fields = rt_unknown_default rt, resp_cached_size = 0\<rparr>"

definition clear_status :: "'u HealthCheckResponse \<Rightarrow> 'u HealthCheckResponse" where
  "clear_status self = self\<lparr>resp_status := Unknown\<rparr>"

definition set_status :: "ServingStatus \<Rightarrow> 'u HealthCheckResponse \<Rightarrow> 'u HealthCheckResponse" where
  "set_status v self = self\<lparr>resp_status := v\<rparr>"

definition status_value :: "ServingStatus \<Rightarrow> int" where
  "status_value s = uint (status_num s)"

definition response_merge_field ::
  "('s, 'w, 'u) pb_runtime \<Rightarrow> 's \<Rightarrow> 'u HealthCheckResponse \<Rightarrow> string + 'u HealthCheckResponse \<times> 's" where
  "response_merge_field rt is self = rbind (rt_read_tag_unpack rt is) (\<lambda>((field_number, wire_type), is).
     if field_number = 1 then
       rbind (rt_read_enum rt status_from_i32 wire_type is 1 (resp_unknown_fields self)) (\<lambda>(v, u, is).
         Inr (self\<lparr>resp_status := (case v of None \<Rightarrow> resp_status self | Some v \<Rightarrow> v), resp_unknown_fields := u\<rparr>, is))
     else rbind (rt_read_unknown_or_skip_group rt field_number wire_type is (resp_unknown_fields self)) (\<lambda>(u, is).
       Inr (self\<lparr>resp_unknown_fields := u\<rparr>, is)))"

definition response_merge_from ::
  "('s, 'w, 'u) pb_runtime \<Rightarrow> 's \<Rightarrow> 'u HealthCheckResponse \<Rightarrow> ((string + unit) \<times> 'u HealthCheckResponse) option" where
  "response_merge_from rt is self = merge_loop rt (response_merge_field rt) is self"

definition response_compute_size :: "('s, 'w, 'u) pb_runtime \<Rightarrow> 'u HealthCheckResponse \<Rightarrow> u32 \<times> 'u HealthCheckResponse" where
  "response_compute_size rt self =
     (let my_size = 0;
          my_size = (if resp_status self \<noteq> Unknown then my_size + rt_enum_size rt 1 (status_value (resp_status self)) else my_size);
          my_size = my_size + rt_unknown_fields_size rt (resp_unknown_fields self)
      in (my_size, self\<lparr>resp_cached_size := my_size\<rparr>))"

definition response_write_to :: "('s, 'w, 'u) pb_runtime \<Rightarrow> 'u HealthCheckResponse \<Rightarrow> bytes \<Rightarrow> string + bytes" where
  "response_write_to rt self os =
     rbind (if resp_status self \<noteq> Unknown then rt_write_enum rt 1 (status_value (resp_status self)) os else Inr os)
       (rt_write_unknown_fields rt (resp_unknown_fields self))"

definition response_clear :: "('s, 'w, 'u) pb_runtime \<Rightarrow> 'u HealthCheckResponse \<Rightarrow> 'u HealthCheckResponse" where
  "response_clear rt self = self\<lparr>resp_status := Unknown, resp_unknown_fields := rt_unknown_default rt\<rparr>"

definition status_values :: "ServingStatus list" where
  "status_values = [Unknown, Serving, NotServing, ServiceUnknown]"

definition status_default :: ServingStatus where
  "status_default = Unknown"

section \<open>The wire format\<close>

text \<open>
  The encoding as it is documented: a variable-length integer, and a message as a sequence of
  fields, each with a tag that holds a positive field number and a wire type. \<open>get_fields\<close>
  takes the sequence apart; a group is a pair of tags without a payload.
\<close>

fun get_varint :: "bytes \<Rightarrow> (nat \<times> bytes) option" where
  "get_varint [] = None"
| "get_varint (b # s) = (if (of_char b :: nat) < 128 then Some (of_char b, s)
     else case get_varint s of None \<Rightarrow> None | Some (n, s) \<Rightarrow> Some (of_char b - 128 + 128 * n, s))"

fun put_varint :: "nat \<Rightarrow> bytes" where
  "put_varint n = (if n < 128 then [char_of n] else char_of (128 + n mod 128) # put_varint (n div 128))"

definition put_field :: "nat \<times> nat \<times> bytes \<Rightarrow> bytes" where
  "put_field = (\<lambda>(n, w, v). put_varint (8 * n + w) @ (if w = 2 then put_varint (length v) else []) @ v)"

definition put_fields :: "(nat \<times> nat \<times> bytes) list \<Rightarrow> bytes" where
  "put_fields fs = concat (map put_field fs)"

definition get_bytes :: "nat \<Rightarrow> bytes \<Rightarrow> (bytes \<times> bytes) option" where
  "get_bytes n s = (if n \<le> length s then Some (take n s, drop n s) else None)"

definition get_payload :: "nat \<Rightarrow> bytes \<Rightarrow> (bytes \<times> bytes) option" where
  "get_payload wire s =
     (if wire = 0 then map_option (\<lambda>(_, r). (take (length s - length r) s, r)) (get_varint s)
      else if wire = 1 then get_bytes 8 s
      else if wire = 2 then (case get_varint s of None \<Rightarrow> None | Some (n, r) \<Rightarrow> get_bytes n r)
      else if wire = 3 \<or> wire = 4 then Some ([], s)
      else if wire = 5 then get_bytes 4 s
      else None)"

fun get_fields :: "nat \<Rightarrow> bytes \<Rightarrow> (nat \<times> nat \<times> bytes) list option" where
  "get_fields fuel [] = Some []"
| "get_fields 0 (b # s) = None"
| "get_fields (Suc fuel) (b # s) = (case get_varint (b # s) of
     None \<Rightarrow> None
   | Some (tag, r) \<Rightarrow> if tag div 8 = 0 then None else (case get_payload (tag mod 8) r of
       None \<Rightarrow> None
     | Some (v, r) \<Rightarrow> map_option (\<lambda>fs. (tag div 8, tag mod 8, v) # fs) (get_fields fuel r)))"

text \<open>Taking fields apart inverts putting them together.\<close>

declare put_varint.simps [simp del]

lemma get_varint_append: "get_varint v = Some (n, r) \<Longrightarrow> get_varint (v @ s) = Some (n, r @ s)"
  by (induction v arbitrary: n r) (auto split: if_splits option.splits)

lemma get_varint_put: "get_varint (put_varint n @ s) = Some (n, s)"
proof (induction n arbitrary: s rule: put_varint.induct)
  case (1 n)
  show ?case
  proof (cases "n < 128")
    case True
    then show ?thesis by (simp add: put_varint.simps)
  next
    case False
    have "128 + n mod 128 < 256" using mod_less_divisor [of 128 n] by linarith
    then have "of_char (char_of (128 + n mod 128) :: char) = 128 + n mod 128" by simp
    then show ?thesis using 1 [OF False, of s] False by (subst put_varint.simps) simp
  qed
qed

lemma put_varint_nonempty: "put_varint n \<noteq> []"
  by (subst put_varint.simps) simp

definition field_ok :: "nat \<times> nat \<times> bytes \<Rightarrow> bool" where
  "field_ok = (\<lambda>(n, w, v). 0 < n \<and> (w = 2 \<or> w = 0 \<and> (case get_varint v of Some (_, []) \<Rightarrow> True | _ \<Rightarrow> False)))"

lemma get_payload_put:
  assumes "field_ok (n, w, v)"
  shows "get_payload w ((if w = 2 then put_varint (length v) else []) @ v @ s) = Some (v, s)"
proof (cases "w = 2")
  case True
  then show ?thesis by (simp add: get_payload_def get_bytes_def get_varint_put)
next
  case False
  then have "w = 0" "\<exists>k. get_varint v = Some (k, [])"
    using assms by (auto simp: field_ok_def split: option.splits list.splits)
  then show ?thesis using get_varint_append by (fastforce simp: get_payload_def)
qed

lemma get_fields_Cons:
  assumes "field_ok f" "length (put_field f @ s) \<le> fuel"
  shows "\<exists>fuel'. length s \<le> fuel' \<and> get_fields fuel (put_field f @ s) = map_option ((#) f) (get_fields fuel' s)"
proof -
  obtain n w v where f: "f = (n, w, v)" by (cases f)
  let ?p = "(if w = 2 then put_varint (length v) else []) @ v @ s"
  obtain b t where b: "put_varint (8 * n + w) = b # t" using put_varint_nonempty by (meson neq_Nil_conv)
  have e: "put_field f @ s = b # t @ ?p" by (simp add: f put_field_def b)
  have tag: "get_varint (b # t @ ?p) = Some (8 * n + w, ?p)" using get_varint_put [of "8 * n + w" ?p] by (simp add: b)
  have w: "w < 8" "0 < n" using assms(1) by (auto simp: f field_ok_def)
  obtain k where k: "fuel = Suc k" using assms(2) unfolding e by (cases fuel) simp_all
  have "get_fields fuel (put_field f @ s) = map_option ((#) f) (get_fields k s)"
    unfolding e k using tag get_payload_put [OF assms(1) [unfolded f], of s] w by (simp add: f)
  moreover have "length s \<le> k" using assms(2) unfolding e k by simp
  ultimately show ?thesis by blast
qed

lemma get_fields_append:
  assumes "list_all field_ok fs" "length (put_fields fs @ s) \<le> fuel"
  shows "\<exists>fuel'. length s \<le> fuel' \<and> get_fields fuel (put_fields fs @ s) = map_option ((@) fs) (get_fields fuel' s)"
  using assms
proof (induction fs arbitrary: fuel)
  case Nil
  then show ?case by (auto simp: put_fields_def option.map_ident)
next
  case (Cons f fs)
  have "field_ok f" "length (put_field f @ put_fields fs @ s) \<le> fuel" using Cons.prems by (simp_all add: put_fields_def)
  then obtain k where k: "length (put_fields fs @ s) \<le> k" "get_fields fuel (put_field f @ put_fields fs @ s) = map_option ((#) f) (get_fields k (put_fields fs @ s))"
    using get_fields_Cons by blast
  obtain k' where "length s \<le> k'" "get_fields k (put_fields fs @ s) = map_option ((@) fs) (get_fields k' s)"
    using Cons.IH [OF _ k(1)] Cons.prems(1) by auto
  then show ?case using k(2) by (auto simp: put_fields_def option.map_comp comp_def)
qed

lemma get_fields_put: "list_all field_ok fs \<Longrightarrow> get_fields (length (put_fields fs)) (put_fields fs) = Some fs"
proof -
  assume "list_all field_ok fs"
  then obtain k where "get_fields (length (put_fields fs)) (put_fields fs @ []) = map_option ((@) fs) (get_fields k [])"
    using get_fields_append [of fs "[]" "length (put_fields fs)"] by auto
  then show ?thesis by simp
qed

section \<open>Round trips\<close>

text \<open>
  What the generated code relies on of the runtime: a field that is written is appended to the
  output with the announced size, and reading at its beginning gives its number and its value and
  leaves the stream behind it. Field numbers have 29 bits, strings less than \<open>2 ^ 31\<close> bytes.
\<close>

definition string_law :: "('s, 'w, 'u) pb_runtime \<Rightarrow> nat \<Rightarrow> bytes \<Rightarrow> bytes \<Rightarrow> bool" where
  "string_law rt n v e \<longleftrightarrow> e \<noteq> [] \<and> length e = unat (rt_string_size rt n v) \<and> (\<forall>os. rt_write_string rt n v os = Inr (os @ e))
     \<and> (\<forall>rest. \<exists>w is. rt_read_tag_unpack rt (rt_from_bytes rt (e @ rest)) = Inr ((n, w), is)
          \<and> rt_read_string rt w is = Inr (v, rt_from_bytes rt rest))"

definition enum_law :: "('s, 'w, 'u) pb_runtime \<Rightarrow> nat \<Rightarrow> int \<Rightarrow> bytes \<Rightarrow> bool" where
  "enum_law rt n v e \<longleftrightarrow> e \<noteq> [] \<and> length e = unat (rt_enum_size rt n v) \<and> (\<forall>os. rt_write_enum rt n v os = Inr (os @ e))
     \<and> (\<forall>rest f u. \<exists>w is u'. rt_read_tag_unpack rt (rt_from_bytes rt (e @ rest)) = Inr ((n, w), is)
          \<and> rt_read_enum rt f w is n u = Inr (f v, u', rt_from_bytes rt rest) \<and> (f v \<noteq> None \<longrightarrow> u' = u))"

definition pb_laws :: "('s, 'w, 'u) pb_runtime \<Rightarrow> bool" where
  "pb_laws rt \<longleftrightarrow>
     (\<forall>bs. rt_eof rt (rt_from_bytes rt bs) = Inr (bs = [], rt_from_bytes rt bs))
     \<and> (\<forall>n v. 0 < n \<and> n < 2 ^ 29 \<and> utf8_valid v \<and> length v < 2 ^ 31 \<longrightarrow> (\<exists>e. string_law rt n v e))
     \<and> (\<forall>n v. 0 < n \<and> n < 2 ^ 29 \<and> 0 \<le> v \<and> v < 2 ^ 31 \<longrightarrow> (\<exists>e. enum_law rt n v e))
     \<and> (\<forall>os. rt_write_unknown_fields rt (rt_unknown_default rt) os = Inr os) \<and> rt_unknown_fields_size rt (rt_unknown_default rt) = 0"

text \<open>The bytes of a message, for \<open>codec_ser\<close>.\<close>

definition pb_bytes :: "('m \<Rightarrow> bytes \<Rightarrow> string + bytes) \<Rightarrow> 'm \<Rightarrow> bytes" where
  "pb_bytes write_to m = (case write_to m [] of Inr b \<Rightarrow> b | Inl _ \<Rightarrow> [])"

lemma merge_loop_end: "rt_eof rt is = Inr (True, is') \<Longrightarrow> merge_loop rt g is m = Some (Inr (), m)"
  by (subst merge_loop.simps) simp

lemma merge_loop_field:
  "rt_eof rt is = Inr (False, is') \<Longrightarrow> g is' m = Inr (m', is'') \<Longrightarrow> merge_loop rt g is m = merge_loop rt g is'' m'"
  by (subst merge_loop.simps) simp

lemma request_bytes:
  assumes "pb_laws rt" "utf8_valid (req_service m)" "length (req_service m) < 2 ^ 31" "req_unknown_fields m = rt_unknown_default rt"
  shows "length (pb_bytes (request_write_to rt) m) = unat (fst (request_compute_size rt m))"
    "request_merge_from rt (rt_from_bytes rt (pb_bytes (request_write_to rt) m)) (request_msg_new rt) = Some (Inr (), m\<lparr>req_cached_size := 0\<rparr>)"
proof -
  have eof: "rt_eof rt (rt_from_bytes rt b) = Inr (b = [], rt_from_bytes rt b)" for b using assms(1) by (simp add: pb_laws_def)
  have unk: "rt_write_unknown_fields rt (rt_unknown_default rt) os = Inr os" "rt_unknown_fields_size rt (rt_unknown_default rt) = 0" for os
    using assms(1) by (simp_all add: pb_laws_def)
  have "length (pb_bytes (request_write_to rt) m) = unat (fst (request_compute_size rt m))
    \<and> request_merge_from rt (rt_from_bytes rt (pb_bytes (request_write_to rt) m)) (request_msg_new rt) = Some (Inr (), m\<lparr>req_cached_size := 0\<rparr>)"
  proof (cases "req_service m = []")
    case True
    then have m: "request_msg_new rt = m\<lparr>req_cached_size := 0\<rparr>" using assms(4) by (simp add: request_msg_new_def)
    have b: "pb_bytes (request_write_to rt) m = []" using True assms(4) by (simp add: pb_bytes_def request_write_to_def unk)
    have e: "rt_eof rt (rt_from_bytes rt []) = Inr (True, rt_from_bytes rt [])" using eof [of "[]"] by simp
    show ?thesis unfolding b request_merge_from_def m merge_loop_end [OF e] using True assms(4) by (simp add: request_compute_size_def Let_def unk)
  next
    case False
    obtain e where e: "string_law rt 1 (req_service m) e" using assms(1-3) by (fastforce simp: pb_laws_def)
    have b: "pb_bytes (request_write_to rt) m = e" using False e assms(4) by (simp add: pb_bytes_def request_write_to_def unk string_law_def)
    obtain w st where rd: "rt_read_tag_unpack rt (rt_from_bytes rt (e @ [])) = Inr ((1, w), st)" "rt_read_string rt w st = Inr (req_service m, rt_from_bytes rt [])"
      using e unfolding string_law_def by blast
    have e1: "rt_eof rt (rt_from_bytes rt e) = Inr (False, rt_from_bytes rt e)" using e by (simp add: eof string_law_def)
    have e2: "rt_eof rt (rt_from_bytes rt []) = Inr (True, rt_from_bytes rt [])" by (simp add: eof)
    have f: "request_merge_field rt (rt_from_bytes rt e) (request_msg_new rt) = Inr (m\<lparr>req_cached_size := 0\<rparr>, rt_from_bytes rt [])"
      using rd assms(4) by (simp add: request_merge_field_def request_msg_new_def)
    show ?thesis unfolding b request_merge_from_def merge_loop_field [of rt, OF e1, of "request_merge_field rt", OF f] merge_loop_end [OF e2]
      using False e assms(4) by (simp add: request_compute_size_def Let_def unk string_law_def)
  qed
  then show "length (pb_bytes (request_write_to rt) m) = unat (fst (request_compute_size rt m))"
    "request_merge_from rt (rt_from_bytes rt (pb_bytes (request_write_to rt) m)) (request_msg_new rt) = Some (Inr (), m\<lparr>req_cached_size := 0\<rparr>)" by blast+
qed

lemma status_value_range: "0 \<le> status_value v" "status_value v < 2 ^ 31" "status_from_i32 (status_value v) = Some v"
  by (cases v; simp add: status_value_def status_num_def status_from_i32_def)+

lemma response_bytes:
  assumes "pb_laws rt" "resp_unknown_fields m = rt_unknown_default rt"
  shows "length (pb_bytes (response_write_to rt) m) = unat (fst (response_compute_size rt m))"
    "response_merge_from rt (rt_from_bytes rt (pb_bytes (response_write_to rt) m)) (response_msg_new rt) = Some (Inr (), m\<lparr>resp_cached_size := 0\<rparr>)"
proof -
  have eof: "rt_eof rt (rt_from_bytes rt b) = Inr (b = [], rt_from_bytes rt b)" for b using assms(1) by (simp add: pb_laws_def)
  have unk: "rt_write_unknown_fields rt (rt_unknown_default rt) os = Inr os" "rt_unknown_fields_size rt (rt_unknown_default rt) = 0" for os
    using assms(1) by (simp_all add: pb_laws_def)
  have "length (pb_bytes (response_write_to rt) m) = unat (fst (response_compute_size rt m))
    \<and> response_merge_from rt (rt_from_bytes rt (pb_bytes (response_write_to rt) m)) (response_msg_new rt) = Some (Inr (), m\<lparr>resp_cached_size := 0\<rparr>)"
  proof (cases "resp_status m = Unknown")
    case True
    then have m: "response_msg_new rt = m\<lparr>resp_cached_size := 0\<rparr>" using assms(2) by (simp add: response_msg_new_def)
    have b: "pb_bytes (response_write_to rt) m = []" using True assms(2) by (simp add: pb_bytes_def response_write_to_def unk)
    have e: "rt_eof rt (rt_from_bytes rt []) = Inr (True, rt_from_bytes rt [])" using eof [of "[]"] by simp
    show ?thesis unfolding b response_merge_from_def m merge_loop_end [OF e] using True assms(2) by (simp add: response_compute_size_def Let_def unk)
  next
    case False
    let ?v = "status_value (resp_status m)"
    obtain e where e: "enum_law rt 1 ?v e" using assms(1) status_value_range(1,2) [of "resp_status m"] by (fastforce simp: pb_laws_def)
    have b: "pb_bytes (response_write_to rt) m = e" using False e assms(2) by (simp add: pb_bytes_def response_write_to_def unk enum_law_def)
    obtain w st u where rd: "rt_read_tag_unpack rt (rt_from_bytes rt (e @ [])) = Inr ((1, w), st)"
      "rt_read_enum rt status_from_i32 w st 1 (rt_unknown_default rt) = Inr (status_from_i32 ?v, u, rt_from_bytes rt [])"
      "status_from_i32 ?v \<noteq> None \<longrightarrow> u = rt_unknown_default rt"
      using e unfolding enum_law_def by blast
    have e1: "rt_eof rt (rt_from_bytes rt e) = Inr (False, rt_from_bytes rt e)" using e by (simp add: eof enum_law_def)
    have e2: "rt_eof rt (rt_from_bytes rt []) = Inr (True, rt_from_bytes rt [])" by (simp add: eof)
    have f: "response_merge_field rt (rt_from_bytes rt e) (response_msg_new rt) = Inr (m\<lparr>resp_cached_size := 0\<rparr>, rt_from_bytes rt [])"
      using rd assms(2) by (simp add: response_merge_field_def response_msg_new_def status_value_range)
    show ?thesis unfolding b response_merge_from_def merge_loop_field [of rt, OF e1, of "response_merge_field rt", OF f] merge_loop_end [OF e2]
      using False e assms(2) by (simp add: response_compute_size_def Let_def unk enum_law_def)
  qed
  then show "length (pb_bytes (response_write_to rt) m) = unat (fst (response_compute_size rt m))"
    "response_merge_from rt (rt_from_bytes rt (pb_bytes (response_write_to rt) m)) (response_msg_new rt) = Some (Inr (), m\<lparr>resp_cached_size := 0\<rparr>)" by blast+
qed

text \<open>A slice into which a message is written holds exactly its bytes.\<close>

lemma codec_ser_bytes:
  assumes "slice_core_ok c" "slice_wf buf" "length (encode t) = compute_size t"
  shows "\<exists>buf'. codec_ser c compute_size encode t buf = Ret buf' \<and> as_slice buf' = encode t"
proof -
  let ?b = "slice_realloc c buf (compute_size t)"
  have "slice_wf ?b" "slice_len ?b = compute_size t" using realloc_ok [OF assms(1,2)] by blast+
  then show ?thesis using slice_write_ok [of ?b "encode t"] assms(3) by (simp add: codec_ser_def Let_def)
qed

text \<open>
  C17. The messages of the health service cross the wire. With a runtime that keeps the laws
  of the wire format, serialising a request or a response with the codec of the library never
  panics, whatever slice is reused, and merging the written bytes into a new message ends and
  gives the same message, its cached size apart. A field with its default value is not written
  and still comes back.
\<close>

theorem health_messages_roundtrip:
  assumes "pb_laws rt" "slice_core_ok c" "slice_wf buf"
    and "utf8_valid (req_service q)" "length (req_service q) < 2 ^ 31" "req_unknown_fields q = rt_unknown_default rt"
    and "resp_unknown_fields p = rt_unknown_default rt"
  shows "\<exists>qbuf pbuf.
    codec_ser c (\<lambda>m. unat (fst (request_compute_size rt m))) (pb_bytes (request_write_to rt)) q buf = Ret qbuf
    \<and> request_merge_from rt (rt_from_bytes rt (as_slice qbuf)) (request_msg_new rt) = Some (Inr (), q\<lparr>req_cached_size := 0\<rparr>)
    \<and> codec_ser c (\<lambda>m. unat (fst (response_compute_size rt m))) (pb_bytes (response_write_to rt)) p buf = Ret pbuf
    \<and> response_merge_from rt (rt_from_bytes rt (as_slice pbuf)) (response_msg_new rt) = Some (Inr (), p\<lparr>resp_cached_size := 0\<rparr>)"
proof -
  note q = request_bytes [OF assms(1,4-6)] and p = response_bytes [OF assms(1,7)]
  obtain qbuf where "codec_ser c (\<lambda>m. unat (fst (request_compute_size rt m))) (pb_bytes (request_write_to rt)) q buf = Ret qbuf"
    "as_slice qbuf = pb_bytes (request_write_to rt) q" using codec_ser_bytes [OF assms(2,3), of "pb_bytes (request_write_to rt)" q "\<lambda>m. unat (fst (request_compute_size rt m))", OF q(1)] by blast
  moreover obtain pbuf where "codec_ser c (\<lambda>m. unat (fst (response_compute_size rt m))) (pb_bytes (response_write_to rt)) p buf = Ret pbuf"
    "as_slice pbuf = pb_bytes (response_write_to rt) p" using codec_ser_bytes [OF assms(2,3), of "pb_bytes (response_write_to rt)" p "\<lambda>m. unat (fst (response_compute_size rt m))", OF p(1)] by blast
  ultimately show ?thesis using q(2) p(2) by auto
qed

text \<open>A runtime on byte strings that keeps the laws.\<close>

definition wire_rt :: "(bytes, nat, bytes) pb_runtime" where
  "wire_rt = \<lparr>
     rt_from_bytes = (\<lambda>s. s),
     rt_eof = (\<lambda>s. Inr (s = [], s)),
     rt_read_tag_unpack = (\<lambda>s. case get_varint s of
         None \<Rightarrow> Inl ''unexpected end of stream''
       | Some (t, r) \<Rightarrow> if t div 8 = 0 then Inl ''incorrect tag'' else Inr ((t div 8, t mod 8), r)),
     rt_read_string = (\<lambda>w s. if w \<noteq> 2 then Inl ''unexpected wire type'' else case get_payload 2 s of
         None \<Rightarrow> Inl ''unexpected end of stream'' | Some (v, r) \<Rightarrow> if utf8_valid v then Inr (v, r) else Inl ''invalid UTF-8''),
     rt_read_enum = (\<lambda>f w s n u. if w \<noteq> 0 then Inl ''unexpected wire type'' else case get_varint s of
         None \<Rightarrow> Inl ''unexpected end of stream''
       | Some (v, r) \<Rightarrow> Inr (f (int v), if f (int v) = None then u @ put_field (n, 0, put_varint v) else u, r)),
     rt_read_unknown_or_skip_group = (\<lambda>n w s u. case get_payload w s of
         None \<Rightarrow> Inl ''unexpected end of stream'' | Some (v, r) \<Rightarrow> Inr (u @ put_field (n, w, v), r)),
     rt_unknown_default = [],
     rt_string_size = (\<lambda>n v. of_nat (length (put_field (n, 2, v)))),
     rt_enum_size = (\<lambda>n v. of_nat (length (put_field (n, 0, put_varint (nat v))))),
     rt_unknown_fields_size = (\<lambda>u. of_nat (length u)),
     rt_write_string = (\<lambda>n v os. Inr (os @ put_field (n, 2, v))),
     rt_write_enum = (\<lambda>n v os. Inr (os @ put_field (n, 0, put_varint (nat v)))),
     rt_write_unknown_fields = (\<lambda>u os. Inr (os @ u))\<rparr>"

lemma put_varint_length: "n < 128 ^ Suc k \<Longrightarrow> length (put_varint n) \<le> Suc k"
proof (induction k arbitrary: n)
  case 0
  then show ?case by (subst put_varint.simps) simp
next
  case (Suc k)
  have "n div 128 < 128 ^ Suc k" using Suc.prems by (simp add: div_less_iff_less_mult mult.commute)
  then show ?case using Suc.IH [of "n div 128"] by (subst put_varint.simps) simp
qed

lemma put_varint_length_5: "n < 2 ^ 32 \<Longrightarrow> length (put_varint n) \<le> 5"
  using put_varint_length [of n 4] by simp

lemma unat_of_nat_u32: "n < 2 ^ 32 \<Longrightarrow> unat (of_nat n :: u32) = n"
  by (simp add: unat_of_nat)

lemma wire_rt_string:
  assumes "0 < n" "n < 2 ^ 29" "utf8_valid v" "length v < 2 ^ 31"
  shows "string_law wire_rt n v (put_field (n, 2, v))"
proof -
  have tag: "(8 * n + 2) div 8 = n" "(8 * n + 2) mod 8 = 2" by presburger+
  have "length (put_varint (8 * n + 2)) \<le> 5" "length (put_varint (length v)) \<le> 5" using assms by (auto intro!: put_varint_length_5)
  then have "length (put_field (n, 2, v)) < 2 ^ 32" using assms(4) by (simp add: put_field_def)
  moreover have "put_field (n, 2, v) \<noteq> []" using put_varint_nonempty [of "8 * n + 2"] by (simp add: put_field_def)
  ultimately show ?thesis
    using assms(1,3) by (simp add: string_law_def wire_rt_def unat_of_nat_u32)
      (simp add: put_field_def get_varint_put tag get_payload_def get_bytes_def del: add_2_eq_Suc add_2_eq_Suc')
qed

lemma wire_rt_enum:
  assumes "0 < n" "n < 2 ^ 29" "0 \<le> v" "v < 2 ^ 31"
  shows "enum_law wire_rt n v (put_field (n, 0, put_varint (nat v)))"
proof -
  have "length (put_varint (8 * n)) \<le> 5" "length (put_varint (nat v)) \<le> 5" using assms by (auto intro!: put_varint_length_5)
  then have "length (put_field (n, 0, put_varint (nat v))) < 2 ^ 32" by (simp add: put_field_def)
  moreover have "put_field (n, 0, put_varint (nat v)) \<noteq> []" using put_varint_nonempty [of "8 * n"] by (simp add: put_field_def)
  ultimately show ?thesis
    using assms(1,3) by (simp add: enum_law_def wire_rt_def unat_of_nat_u32) (auto simp: put_field_def get_varint_put)
qed

lemma wire_rt_laws: "pb_laws wire_rt"
proof -
  have "rt_eof wire_rt (rt_from_bytes wire_rt b) = Inr (b = [], rt_from_bytes wire_rt b)" for b by (simp add: wire_rt_def)
  moreover have "rt_write_unknown_fields wire_rt (rt_unknown_default wire_rt) os = Inr os" "rt_unknown_fields_size wire_rt (rt_unknown_default wire_rt) = 0" for os
    by (simp_all add: wire_rt_def)
  ultimately show ?thesis unfolding pb_laws_def using wire_rt_string wire_rt_enum by blast
qed

theorem health_messages_roundtrip_witness:
  "\<exists>qbuf. codec_ser sample_core (\<lambda>m. unat (fst (request_compute_size wire_rt m))) (pb_bytes (request_write_to wire_rt))
      \<lparr>req_service = ''db'', req_unknown_fields = [], req_cached_size = 0\<rparr> (grpc_empty_slice sample_core) = Ret qbuf
    \<and> request_merge_from wire_rt (rt_from_bytes wire_rt (as_slice qbuf)) (request_msg_new wire_rt)
      = Some (Inr (), \<lparr>req_service = ''db'', req_unknown_fields = [], req_cached_size = 0\<rparr>)"
proof -
  have u: "utf8_valid ''db''" by code_simp
  have d: "rt_unknown_default wire_rt = []" by (simp add: wire_rt_def)
  show ?thesis
    using health_messages_roundtrip [OF wire_rt_laws sample_core_ok slice_core_okD(2) [OF sample_core_ok],
        of "\<lparr>req_service = ''db'', req_unknown_fields = [], req_cached_size = 0\<rparr>" "\<lparr>resp_status = Serving, resp_unknown_fields = [], resp_cached_size = 0\<rparr>"]
    by (auto simp: u d)
qed

end
