(* ===== verification/Grpc_Xtask.thy ===== *)
theory Grpc_Xtask
  imports Grpc_Task Grpc_Prost
begin

text \<open>
  The maintenance tasks of \<^verbatim>\<open>xtask/src/main.rs\<close>: regenerating the bindings and the
  code of the protocols, and patching the result. Files, directories, environment variables, the
  text on standard error and the processes started are the state; what the tools do to the
  files is a parameter. A task can end the process or panic.
\<close>

section \<open>Processes and files\<close>

record command =
  c_prog :: bytes
  c_args :: "bytes list"
  c_env :: "(bytes \<times> bytes) list"
  c_dir :: "bytes option"

record xt =
  xt_files :: "(bytes \<times> bytes) list"
  xt_dirs :: "bytes list"
  xt_env :: "bytes \<rightharpoonup> bytes"
  xt_err :: "bytes list"
  xt_log :: "command list"

text \<open>
  The tools. \<open>t_start\<close> is a process that runs to its end, whatever its exit code: it gives
  the files and directories it leaves, or the error when it cannot be started. \<open>t_stdout\<close> is
  what it writes, \<open>t_protoc_rust\<close> the crate \<^verbatim>\<open>protoc_rust\<close>, \<open>t_protoc\<close> the path
  that \<^verbatim>\<open>prost_build::protoc\<close> gives, and \<open>t_fmt\<close> the debug format of a command.
\<close>

type_synonym tree = "(bytes \<times> bytes) list \<times> bytes list"

record tools =
  t_start :: "command \<Rightarrow> tree \<Rightarrow> bytes + tree"
  t_stdout :: "command \<Rightarrow> bytes + bytes"
  t_protoc_rust :: "bytes \<Rightarrow> bytes list \<Rightarrow> bytes list \<Rightarrow> tree \<Rightarrow> bytes + tree"
  t_protoc :: bytes
  t_fmt :: "command \<Rightarrow> bytes"

datatype 'a xres = Done 'a | Exit int | Crash string

type_synonym 'a xm = "xt \<Rightarrow> 'a xres \<times> xt"

definition xret :: "'a \<Rightarrow> 'a xm" where
  "xret a s = (Done a, s)"

definition xbind :: "'a xm \<Rightarrow> ('a \<Rightarrow> 'b xm) \<Rightarrow> 'b xm" where
  "xbind m f s = (case m s of (Done a, s) \<Rightarrow> f a s | (Exit c, s) \<Rightarrow> (Exit c, s) | (Crash e, s) \<Rightarrow> (Crash e, s))"

definition xthen :: "unit xm \<Rightarrow> 'b xm \<Rightarrow> 'b xm" where
  "xthen m k = xbind m (\<lambda>_. k)"

fun xfor :: "'a list \<Rightarrow> ('a \<Rightarrow> unit xm) \<Rightarrow> unit xm" where
  "xfor [] f = xret ()"
| "xfor (x # xs) f = xthen (f x) (xfor xs f)"

definition xunwrap :: "bytes + 'a \<Rightarrow> 'a xm" where
  "xunwrap r s = (case r of Inl e \<Rightarrow> (Crash (''called `Result::unwrap()` on an `Err` value: '' @ e), s) | Inr a \<Rightarrow> (Done a, s))"

definition eprintln :: "bytes \<Rightarrow> unit xm" where
  "eprintln l s = (Done (), s\<lparr>xt_err := xt_err s @ [l]\<rparr>)"

definition exit_process :: "int \<Rightarrow> 'a xm" where
  "exit_process c s = (Exit c, s)"

definition the_tree :: "xt \<Rightarrow> tree" where
  "the_tree s = (xt_files s, xt_dirs s)"

definition put_tree :: "tree \<Rightarrow> xt \<Rightarrow> xt" where
  "put_tree t s = s\<lparr>xt_files := fst t, xt_dirs := snd t\<rparr>"

text \<open>
  The file system of \<^verbatim>\<open>std::fs\<close>: files by their path, in the order in which a directory
  lists them. What is below a directory starts with its path and a slash.
\<close>

definition below :: "bytes \<Rightarrow> bytes \<Rightarrow> bool" where
  "below d p \<longleftrightarrow> starts_with p (d @ ''/'')"

definition path_exists :: "bytes \<Rightarrow> xt \<Rightarrow> bool" where
  "path_exists d s \<longleftrightarrow> (\<exists>p \<in> set (map fst (xt_files s) @ xt_dirs s). p = d \<or> below d p)"

definition is_dir :: "bytes \<Rightarrow> xt \<Rightarrow> bool" where
  "is_dir d s \<longleftrightarrow> d \<in> set (xt_dirs s) \<or> (\<exists>p \<in> set (map fst (xt_files s) @ xt_dirs s). below d p)"

definition read_dir :: "bytes \<Rightarrow> xt \<Rightarrow> bytes + bytes list" where
  "read_dir d s = (if is_dir d s then
       Inr (remdups (map (\<lambda>p. d @ ''/'' @ takeWhile (\<lambda>c. c \<noteq> CHR ''/'') (drop (length d + 1) p))
         (filter (below d) (map fst (xt_files s) @ xt_dirs s))))
     else Inl ''No such file or directory'')"

definition remove_dir_all :: "bytes \<Rightarrow> xt \<Rightarrow> bytes + tree" where
  "remove_dir_all d s = (if is_dir d s then
       Inr (filter (\<lambda>(p, _). \<not> below d p) (xt_files s), filter (\<lambda>p. p \<noteq> d \<and> \<not> below d p) (xt_dirs s))
     else Inl ''No such file or directory'')"

definition remove_file :: "bytes \<Rightarrow> xt \<Rightarrow> bytes + tree" where
  "remove_file f s = (if f \<in> set (map fst (xt_files s)) then Inr (filter (\<lambda>(p, _). p \<noteq> f) (xt_files s), xt_dirs s)
     else Inl ''No such file or directory'')"

definition create_dir_all :: "bytes \<Rightarrow> xt \<Rightarrow> bytes + tree" where
  "create_dir_all d s = (if d \<in> set (map fst (xt_files s)) then Inl ''File exists'' else Inr (xt_files s, List.insert d (xt_dirs s)))"

definition read_to_string :: "bytes \<Rightarrow> xt \<Rightarrow> bytes + bytes" where
  "read_to_string f s = (case map_of (xt_files s) f of
     None \<Rightarrow> Inl ''No such file or directory''
   | Some c \<Rightarrow> if utf8_valid c then Inr c else Inl ''stream did not contain valid UTF-8'')"

definition write_all :: "bytes \<Rightarrow> bytes \<Rightarrow> xt \<Rightarrow> bytes + tree" where
  "write_all f c s = (if is_dir f s then Inl ''Is a directory'' else
     if f \<in> set (map fst (xt_files s)) then Inr (map (\<lambda>(p, old). (p, if p = f then c else old)) (xt_files s), xt_dirs s)
     else Inr (xt_files s @ [(f, c)], xt_dirs s))"

text \<open>An operation on the file system whose failure is unwrapped.\<close>

definition unwrapped :: "(xt \<Rightarrow> bytes + 'a) \<Rightarrow> 'a xm" where
  "unwrapped f s = xunwrap (f s) s"

definition changing :: "(xt \<Rightarrow> bytes + tree) \<Rightarrow> unit xm" where
  "changing f = xbind (unwrapped f) (\<lambda>t s. (Done (), put_tree t s))"

section \<open>Text\<close>

text \<open>\<^verbatim>\<open>str::lines\<close>, \<^verbatim>\<open>str::contains\<close>, \<^verbatim>\<open>str::replace\<close> and \<^verbatim>\<open>Path::extension\<close>.\<close>

definition strip_cr :: "bytes \<Rightarrow> bytes" where
  "strip_cr l = (if l \<noteq> [] \<and> last l = CHR 0x0D then butlast l else l)"

function text_lines :: "bytes \<Rightarrow> bytes list" where
  "text_lines s = (if s = [] then [] else
     case dropWhile (\<lambda>c. c \<noteq> CHR 0x0A) s of
       [] \<Rightarrow> [s]
     | _ # rest \<Rightarrow> strip_cr (takeWhile (\<lambda>c. c \<noteq> CHR 0x0A) s) # text_lines rest)"
  by auto
termination
proof (relation "measure length", goal_cases)
  case (2 s c rest)
  then show ?case using length_dropWhile_le [of "\<lambda>c. c \<noteq> CHR 0x0A" s] by simp
qed simp

lemma starts_with_code [code]:
  "starts_with s [] \<longleftrightarrow> True"
  "starts_with [] (d # p) \<longleftrightarrow> False"
  "starts_with (c # s) (d # p) \<longleftrightarrow> c = d \<and> starts_with s p"
  by (simp_all add: starts_with_def)

fun contains :: "bytes \<Rightarrow> bytes \<Rightarrow> bool" where
  "contains [] p \<longleftrightarrow> p = []"
| "contains (c # s) p \<longleftrightarrow> starts_with (c # s) p \<or> contains s p"

text \<open>\<open>skip\<close> is what is left of a match that has been replaced.\<close>

fun replace_at :: "bytes \<Rightarrow> bytes \<Rightarrow> bytes \<Rightarrow> bytes \<Rightarrow> bytes" where
  "replace_at skip p r [] = []"
| "replace_at skip p r (c # s) =
     (if skip \<noteq> [] then [] else if starts_with (c # s) p then r else [c]) @
     replace_at (if skip \<noteq> [] then tl skip else if starts_with (c # s) p then tl p else []) p r s"

definition str_replace :: "bytes \<Rightarrow> bytes \<Rightarrow> bytes \<Rightarrow> bytes" where
  "str_replace p r s = (if p = [] then r @ concat (map (\<lambda>c. c # r) s) else replace_at [] p r s)"

definition extension :: "bytes \<Rightarrow> bytes option" where
  "extension path = (let name = rev (takeWhile (\<lambda>c. c \<noteq> CHR ''/'') (rev path));
       ext = rev (takeWhile (\<lambda>c. c \<noteq> CHR ''.'') (rev name)) in
     if length ext + 1 < length name then Some ext else None)"

section \<open>The tasks\<close>

definition print_help :: "unit xm" where
  "print_help = xfor
     [''cargo xtask [subcommand]'',
      [],
      ''Supported subcommands are:'',
      CHR 0x09 # ''bindgen'' @ CHR 0x09 # ''Generate rust-bindgen for grpcio-sys package'',
      CHR 0x09 # ''submodule'' @ CHR 0x09 # ''Init necessary submodules for compilation'',
      CHR 0x09 # ''clang-lint'' @ CHR 0x09 # ''Lint cpp code in grpcio-sys package'',
      CHR 0x09 # ''codegen'' @ CHR 0x09 # ''Generate rust code for all protocols''] eprintln"

definition command_new :: "bytes \<Rightarrow> command" where
  "command_new c = \<lparr>c_prog = c, c_args = [], c_env = [], c_dir = None\<rparr>"

definition with_args :: "bytes list \<Rightarrow> command \<Rightarrow> command" where
  "with_args as c = c\<lparr>c_args := c_args c @ as\<rparr>"

definition cargo :: "command xm" where
  "cargo s = (case xt_env s ''CARGO'' of
     Some v \<Rightarrow> (Done (command_new v), s)
   | None \<Rightarrow> xthen (eprintln ''no CARGO in environment variables, please invoke the binary by cargo xtask'') (exit_process 1) s)"

definition exec_cmd :: "tools \<Rightarrow> command \<Rightarrow> unit xm" where
  "exec_cmd t c s = (let s = s\<lparr>xt_log := xt_log s @ [c]\<rparr> in case t_start t c (the_tree s) of
     Inl e \<Rightarrow> xthen (eprintln (''failed to execute '' @ t_fmt t c @ '': '' @ e)) (exit_process (- 1)) s
   | Inr tr \<Rightarrow> (Done (), put_tree tr s))"

fun arch_in :: "bytes list \<Rightarrow> bytes option outcome" where
  "arch_in [] = Ret None"
| "arch_in (l # ls) = (case strip_prefix ''target_arch='' l of
     None \<Rightarrow> arch_in ls
   | Some arch \<Rightarrow> if arch = [] then arch_in ls
       else if length arch = 1 then Panic ''begin <= end (1 <= 0) when slicing''
       else Ret (Some (take (length arch - 2) (drop 1 arch))))"

definition find_default_arch :: "tools \<Rightarrow> bytes xm" where
  "find_default_arch t =
     xbind (xunwrap (t_stdout t (with_args [''--print'', ''cfg''] (command_new ''rustc'')))) (\<lambda>out.
     xbind (xunwrap (if utf8_valid out then Inr out else Inl ''FromUtf8Error'')) (\<lambda>s.
     case arch_in (text_lines s) of
       Panic e \<Rightarrow> (\<lambda>w. (Crash e, w))
     | Ret None \<Rightarrow> (\<lambda>w. (Crash (''arch not found in '' @ s), w))
     | Ret (Some arch) \<Rightarrow> xret arch))"

definition remove_match :: "bytes \<Rightarrow> (bytes \<Rightarrow> bool) \<Rightarrow> bytes" where
  "remove_match data pattern = concat (map (\<lambda>l. l @ [CHR 0x0A]) (filter (\<lambda>l. \<not> pattern l) (text_lines data)))"

definition raw_alias :: "bytes \<Rightarrow> bool" where
  "raw_alias l \<longleftrightarrow> starts_with l ''pub type '' \<and> contains l ''= ::std::os::raw::''"

definition clean_binding :: "bytes \<Rightarrow> unit xm" where
  "clean_binding p = xbind (unwrapped (read_to_string p)) (\<lambda>content. changing (write_all p (remove_match content raw_alias)))"

definition bindgen :: "tools \<Rightarrow> unit xm" where
  "bindgen t =
     xbind (\<lambda>s. case xt_env s ''ARCH'' of Some arch \<Rightarrow> (Done arch, s) | None \<Rightarrow> find_default_arch t s) (\<lambda>arch.
     let tuple = arch @ ''-unknown-linux-gnu'' in
     xbind cargo (\<lambda>c.
     xthen (exec_cmd t (with_args [''build'', ''-p'', ''grpcio-sys'', ''--target'', tuple] (c\<lparr>c_env := [(''UPDATE_BIND'', ''1'')]\<rparr>)))
     (xbind (unwrapped (read_dir ''grpc-sys/bindings'')) (\<lambda>ps. xfor ps clean_binding))))"

definition cmd :: "bytes \<Rightarrow> command" where
  "cmd c = command_new c"

definition cmd_in :: "bytes \<Rightarrow> bytes \<Rightarrow> command" where
  "cmd_in c dir = (cmd c)\<lparr>c_dir := Some dir\<rparr>"

definition remove_entry :: "bytes \<Rightarrow> unit xm" where
  "remove_entry e s = (if is_dir e s then changing (remove_dir_all e) s else changing (remove_file e) s)"

definition submodule :: "tools \<Rightarrow> unit xm" where
  "submodule t =
     xthen (exec_cmd t (with_args [''submodule'', ''update'', ''--init'', ''grpc-sys/grpc''] (cmd ''git'')))
     (xthen (xfor [''cares/cares'', ''abseil-cpp'', ''re2''] (\<lambda>dir.
        exec_cmd t (with_args [''submodule'', ''update'', ''--init'', dir] (cmd_in ''git'' ''grpc-sys/grpc/third_party''))))
     (xthen (xbind (unwrapped (read_dir ''grpc-sys/grpc/third_party/boringssl-with-bazel'')) (\<lambda>es. xfor es remove_entry))
     (xthen (exec_cmd t (with_args [''clean'', ''-df''] (cmd_in ''git'' ''grpc-sys/grpc/third_party/zlib'')))
     (exec_cmd t (with_args [''reset'', ''--hard''] (cmd_in ''git'' ''grpc-sys/grpc/third_party/zlib''))))))"

definition clang_lint :: "tools \<Rightarrow> unit xm" where
  "clang_lint t =
     xthen (exec_cmd t (with_args [''grpc-sys/grpc_wrap.cc'', ''--'', ''-Igrpc-sys/grpc/include'', ''-x'', ''c++'', ''-std=c++11''] (cmd ''clang-tidy'')))
     (exec_cmd t (with_args [''-i'', ''grpc-sys/grpc_wrap.cc''] (cmd ''clang-format'')))"

definition PROTOS :: "(bytes \<times> bytes list \<times> bytes) list" where
  "PROTOS = [(''grpc-sys/grpc/src/proto'', [''grpc/health/v1''], ''health/src/proto'')]"

definition NAMING_PATCH :: "(bytes \<times> (bytes \<times> bytes) list) list" where
  "NAMING_PATCH = [(''health/src/proto/protobuf/health.rs'',
     [(''HealthCheckResponse_ServingStatus'', ''ServingStatus''),
      (''NOT_SERVING'', ''NotServing''),
      (''SERVICE_UNKNOWN'', ''ServiceUnknown''),
      (''UNKNOWN'', ''Unknown''),
      (''SERVING'', ''Serving''),
      (''rustfmt_skip'', ''rustfmt::skip'')])]"

definition replace_names :: "(bytes \<times> bytes) list \<Rightarrow> bytes \<Rightarrow> bytes" where
  "replace_names fixes content = fold (\<lambda>(src, target) content. str_replace src target content) fixes content"

definition patch_text :: "(bytes \<times> bytes) list \<Rightarrow> bytes \<Rightarrow> bytes" where
  "patch_text fixes content = remove_match (replace_names fixes content) (\<lambda>l. contains l ''::protobuf::VERSION'')"

definition patch_file :: "bytes \<times> (bytes \<times> bytes) list \<Rightarrow> unit xm" where
  "patch_file = (\<lambda>(path, name_fixes). xbind (unwrapped (read_to_string path)) (\<lambda>content.
     changing (write_all path (patch_text name_fixes content))))"

definition recreate_dir :: "bytes \<Rightarrow> unit xm" where
  "recreate_dir out_dir =
     xthen (\<lambda>s. if path_exists out_dir s then changing (remove_dir_all out_dir) s else (Done (), s)) (changing (create_dir_all out_dir))"

definition generate_protobuf :: "tools \<Rightarrow> bytes \<Rightarrow> bytes \<Rightarrow> bytes list \<Rightarrow> bytes \<Rightarrow> unit xm" where
  "generate_protobuf t protoc inc inputs out_dir =
     xthen (recreate_dir out_dir)
     (xthen (changing (\<lambda>s. t_protoc_rust t out_dir [inc] inputs (the_tree s)))
     (xbind cargo (\<lambda>c.
     xthen (exec_cmd t (with_args [''build'', ''-p'', ''grpcio-compiler''] c))
     (xthen (exec_cmd t (with_args ([''-I'' @ inc, ''--grpc_out='' @ out_dir, ''--plugin=protoc-gen-grpc=./target/debug/grpc_rust_plugin''] @ inputs) (cmd protoc)))
     (xfor NAMING_PATCH patch_file)))))"

fun join_with :: "bytes \<Rightarrow> bytes list \<Rightarrow> bytes" where
  "join_with sep [] = []"
| "join_with sep [w] = w"
| "join_with sep (w # ws) = w @ sep @ join_with sep ws"

definition prost_args :: "bytes \<Rightarrow> bytes list \<Rightarrow> bytes \<Rightarrow> bytes list" where
  "prost_args inc inputs out_dir = [''--protos='' @ join_with '','' inputs, ''--includes='' @ inc, ''--out-dir='' @ out_dir]"

definition generate_prost :: "tools \<Rightarrow> bytes \<Rightarrow> bytes \<Rightarrow> bytes list \<Rightarrow> bytes \<Rightarrow> unit xm" where
  "generate_prost t protoc inc inputs out_dir =
     xthen (\<lambda>s. (Done (), s\<lparr>xt_env := (xt_env s)(''PROTOC'' \<mapsto> protoc)\<rparr>))
     (xthen (recreate_dir out_dir)
     (xbind cargo (\<lambda>c.
     xthen (exec_cmd t ((with_args [''build'', ''--no-default-features'', ''--features'', ''prost-codec'', ''--bin'', ''grpc_rust_prost''] c)\<lparr>c_dir := Some ''compiler''\<rparr>))
     (exec_cmd t (with_args (prost_args inc inputs out_dir) (command_new ''target/debug/grpc_rust_prost''))))))"

fun proto_inputs :: "bytes \<Rightarrow> bytes list \<Rightarrow> bytes list xm" where
  "proto_inputs inc [] = xret []"
| "proto_inputs inc (p # ps) =
     xbind (unwrapped (read_dir (inc @ ''/'' @ p))) (\<lambda>es.
     xbind (proto_inputs inc ps) (\<lambda>rest. xret (filter (\<lambda>e. extension e = Some ''proto'') es @ rest)))"

definition codegen_one :: "tools \<Rightarrow> bytes \<Rightarrow> bytes \<times> bytes list \<times> bytes \<Rightarrow> unit xm" where
  "codegen_one t protoc = (\<lambda>(inc, protos, out_dir).
     xbind (proto_inputs inc protos) (\<lambda>inputs.
     xthen (generate_protobuf t protoc inc inputs (out_dir @ ''/protobuf''))
     (generate_prost t protoc inc inputs (out_dir @ ''/prost''))))"

definition codegen :: "tools \<Rightarrow> unit xm" where
  "codegen t =
     (let protoc = (case t_stdout t (with_args [''--version''] (cmd ''protoc'')) of Inr _ \<Rightarrow> ''protoc'' | Inl _ \<Rightarrow> t_protoc t) in
      xthen (xfor PROTOS (codegen_one t protoc)) (xbind cargo (\<lambda>c. exec_cmd t (with_args [''fmt'', ''--all''] c))))"

definition xtask_main :: "tools \<Rightarrow> bytes list \<Rightarrow> unit xm" where
  "xtask_main t args =
     (if length args \<noteq> 2 then xthen print_help (exit_process 1)
      else let subcommand = args ! 1 in
        if subcommand = ''bindgen'' then bindgen t
        else if subcommand = ''submodule'' then submodule t
        else if subcommand = ''clang-lint'' then clang_lint t
        else if subcommand = ''codegen'' then codegen t
        else print_help)"

section \<open>Lines\<close>

declare text_lines.simps [simp del]

lemma text_lines_Nil [simp]: "text_lines [] = []"
  by (simp add: text_lines.simps)

lemma text_lines_line:
  assumes "CHR 0x0A \<notin> set l"
  shows "text_lines (l @ CHR 0x0A # rest) = strip_cr l # text_lines rest"
proof -
  have "takeWhile (\<lambda>c. c \<noteq> CHR 0x0A) (l @ CHR 0x0A # rest) = l" "dropWhile (\<lambda>c. c \<noteq> CHR 0x0A) (l @ CHR 0x0A # rest) = CHR 0x0A # rest"
    using assms by (simp_all add: takeWhile_tail dropWhile_append3 cong: takeWhile_cong) (metis dropWhile_append3 dropWhile.simps(2))+
  then show ?thesis by (subst text_lines.simps) simp
qed

lemma strip_cr_subset: "set (strip_cr l) \<subseteq> set l"
  by (auto simp: strip_cr_def dest: in_set_butlastD)

lemma text_lines_newline_free: "l \<in> set (text_lines s) \<Longrightarrow> CHR 0x0A \<notin> set l"
proof (induction s rule: text_lines.induct)
  case (1 s)
  have tw: "CHR 0x0A \<notin> set (takeWhile (\<lambda>c. c \<noteq> CHR 0x0A) s)" using set_takeWhileD by fastforce
  show ?case
  proof (cases "dropWhile (\<lambda>c. c \<noteq> CHR 0x0A) s")
    case Nil
    have "text_lines s = (if s = [] then [] else [s])" by (subst text_lines.simps) (simp only: Nil list.case)
    moreover have "CHR 0x0A \<notin> set s" using Nil unfolding dropWhile_eq_Nil_conv by blast
    ultimately show ?thesis using 1(2) by (cases "s = []") simp_all
  next
    case (Cons c rest)
    then have s: "s \<noteq> []" by auto
    then have "text_lines s = strip_cr (takeWhile (\<lambda>c. c \<noteq> CHR 0x0A) s) # text_lines rest" by (subst text_lines.simps) (simp add: Cons)
    moreover have "CHR 0x0A \<notin> set (strip_cr (takeWhile (\<lambda>c. c \<noteq> CHR 0x0A) s))"
      using tw strip_cr_subset by blast
    ultimately show ?thesis using 1(1) [OF s Cons] 1(2) by auto
  qed
qed

lemma text_lines_concat:
  "\<forall>l \<in> set ls. CHR 0x0A \<notin> set l \<Longrightarrow> text_lines (concat (map (\<lambda>l. l @ [CHR 0x0A]) ls)) = map strip_cr ls"
  by (induction ls) (simp_all add: text_lines_line)

lemma remove_match_lines: "text_lines (remove_match d p) = map strip_cr (filter (\<lambda>l. \<not> p l) (text_lines d))"
  unfolding remove_match_def by (rule text_lines_concat) (auto dest: text_lines_newline_free)

lemma starts_with_iff: "starts_with s p \<longleftrightarrow> (\<exists>t. s = p @ t)"
  unfolding starts_with_def by (metis append_eq_conv_conj append_take_drop_id)

lemma contains_iff: "contains s p \<longleftrightarrow> (\<exists>a b. s = a @ p @ b)"
proof (induction s)
  case (Cons c s)
  show ?case
  proof
    assume "contains (c # s) p"
    then consider "starts_with (c # s) p" | "contains s p" by auto
    then show "\<exists>a b. c # s = a @ p @ b"
    proof cases
      case 1
      then show ?thesis unfolding starts_with_iff by (metis append_Nil)
    next
      case 2
      then obtain a b where "s = a @ p @ b" using Cons.IH by blast
      then have "c # s = (c # a) @ p @ b" by simp
      then show ?thesis by blast
    qed
  next
    assume "\<exists>a b. c # s = a @ p @ b"
    then obtain a b where e: "c # s = a @ p @ b" by blast
    show "contains (c # s) p"
    proof (cases a)
      case Nil
      then have "starts_with (c # s) p" using e by (auto simp: starts_with_iff)
      then show ?thesis by simp
    next
      case (Cons x a')
      then have "s = a' @ p @ b" using e by simp
      then have "contains s p" using Cons.IH by blast
      then show ?thesis by simp
    qed
  qed
qed auto

lemma strip_cr_cases: obtains t where "l = strip_cr l @ t"
proof (cases "l \<noteq> [] \<and> last l = CHR 0x0D")
  case True
  then have "l = strip_cr l @ [last l]" unfolding strip_cr_def using append_butlast_last_id [of l] by simp
  then show thesis by (rule that)
next
  case False
  then have "strip_cr l = l" unfolding strip_cr_def by (rule if_not_P)
  then have "l = strip_cr l @ []" by simp
  then show thesis by (rule that)
qed

lemma starts_with_mono: "starts_with s p \<Longrightarrow> starts_with (s @ t) p"
  by (auto simp: starts_with_iff)

lemma contains_mono: "contains s p \<Longrightarrow> contains (s @ t) p"
  unfolding contains_iff by (elim exE, intro exI) simp

lemma raw_alias_strip_cr:
  assumes "raw_alias (strip_cr l)"
  shows "raw_alias l"
proof -
  obtain t where t: "l = strip_cr l @ t" by (rule strip_cr_cases)
  have "raw_alias (strip_cr l @ t)"
    using assms unfolding raw_alias_def by (intro conjI starts_with_mono contains_mono) simp_all
  then show ?thesis by (subst t)
qed

text \<open>A name without a line break is replaced in each line separately.\<close>

lemma starts_with_line: "CHR 0x0A \<notin> set p \<Longrightarrow> starts_with (l @ CHR 0x0A # s) p \<longleftrightarrow> starts_with l p"
proof (induction l arbitrary: p)
  case Nil
  then show ?case by (cases p) (auto simp: starts_with_code)
next
  case (Cons c l)
  then show ?case by (cases p) (auto simp: starts_with_code)
qed

lemma starts_with_length: "starts_with s p \<Longrightarrow> length p \<le> length s"
  by (auto simp: starts_with_iff)

lemma replace_at_line:
  assumes "CHR 0x0A \<notin> set p" "p \<noteq> []" "length skip \<le> length l"
  shows "replace_at skip p r (l @ CHR 0x0A # s) = replace_at skip p r l @ CHR 0x0A # replace_at [] p r s"
  using assms(3)
proof (induction l arbitrary: skip)
  case Nil
  then show ?case using assms(1,2) by (cases p) (auto simp: starts_with_code)
next
  case (Cons c l)
  let ?next = "if skip \<noteq> [] then tl skip else if starts_with (c # l) p then tl p else []"
  have "length ?next \<le> length l" using Cons.prems starts_with_length [of "c # l" p] by auto
  note ih = Cons.IH [OF this]
  have "starts_with (c # l @ CHR 0x0A # s) p \<longleftrightarrow> starts_with (c # l) p" using starts_with_line [OF assms(1), of "c # l" s] by simp
  then show ?case by (simp only: replace_at.simps append_Cons ih append_assoc)
qed

lemma replace_names_lines:
  assumes "list_all (\<lambda>(p, r). p \<noteq> [] \<and> CHR 0x0A \<notin> set p) fx"
  shows "replace_names fx (concat (map (\<lambda>l. l @ [CHR 0x0A]) ls)) = concat (map (\<lambda>l. replace_names fx l @ [CHR 0x0A]) ls)"
  using assms
proof (induction fx arbitrary: ls)
  case (Cons f fs)
  obtain p r where f: "f = (p, r)" by (cases f)
  have "str_replace p r (concat (map (\<lambda>l. l @ [CHR 0x0A]) ls)) = concat (map (\<lambda>l. l @ [CHR 0x0A]) (map (str_replace p r) ls))"
    using Cons.prems by (induction ls) (simp_all add: f str_replace_def replace_at_line)
  then show ?case using Cons.IH [of "map (str_replace p r) ls"] Cons.prems by (simp add: replace_names_def f comp_def)
qed (simp add: replace_names_def)

section \<open>Tasks that finish\<close>

lemma xbind_Done: "xbind m f s = (Done b, s') \<longleftrightarrow> (\<exists>a s1. m s = (Done a, s1) \<and> f a s1 = (Done b, s'))"
  by (auto simp: xbind_def split: prod.splits xres.splits)

lemma xthen_Done: "xthen m k s = (Done b, s') \<longleftrightarrow> (\<exists>s1. m s = (Done (), s1) \<and> k s1 = (Done b, s'))"
  by (auto simp: xthen_def xbind_Done)

lemma unwrapped_Done: "unwrapped f s = (Done a, s') \<longleftrightarrow> f s = Inr a \<and> s' = s"
  by (auto simp: unwrapped_def xunwrap_def split: sum.splits)

lemma changing_Done: "changing f s = (Done u, s') \<longleftrightarrow> (\<exists>t. f s = Inr t \<and> s' = put_tree t s)"
  by (auto simp: changing_def xbind_Done unwrapped_Done)

lemma exec_cmd_Done:
  "exec_cmd t c s = (Done u, s') \<longleftrightarrow> (\<exists>tr. t_start t c (the_tree s) = Inr tr \<and> s' = put_tree tr (s\<lparr>xt_log := xt_log s @ [c]\<rparr>))"
  by (auto simp: exec_cmd_def Let_def the_tree_def xthen_def xbind_def eprintln_def exit_process_def split: sum.splits)

lemma cargo_Done: "cargo s = (Done c, s') \<longleftrightarrow> (\<exists>v. xt_env s ''CARGO'' = Some v \<and> c = command_new v \<and> s' = s)"
  by (auto simp: cargo_def xthen_def xbind_def eprintln_def exit_process_def split: option.splits)

lemmas xm_Done = xbind_Done xthen_Done unwrapped_Done changing_Done exec_cmd_Done cargo_Done

lemma map_of_overwrite:
  "map_of (map (\<lambda>(p, old). (p, if p = f then c else old)) fs) q = (if q = f then map_option (\<lambda>_. c) (map_of fs q) else map_of fs q)"
  by (induction fs) auto

text \<open>A file that is read, changed by \<open>g\<close> and written back.\<close>

lemma rewrite_Done:
  assumes "xbind (unwrapped (read_to_string p)) (\<lambda>content. changing (write_all p (g content))) s = (Done (), s')"
  shows "map_of (xt_files s) p \<noteq> None" "xt_log s' = xt_log s" "xt_env s' = xt_env s"
    "map_of (xt_files s') q = (if q = p then map_option g (map_of (xt_files s) q) else map_of (xt_files s) q)"
proof -
  obtain c tr where c: "read_to_string p s = Inr c" and tr: "write_all p (g c) s = Inr tr" "s' = put_tree tr s"
    using assms by (auto simp: xm_Done)
  have m: "map_of (xt_files s) p = Some c" using c by (auto simp: read_to_string_def split: option.splits if_splits)
  then have "p \<in> fst ` set (xt_files s)" by (metis domIff dom_map_of_conv_image_fst option.distinct(1))
  then have "fst tr = map (\<lambda>(q, old). (q, if q = p then g c else old)) (xt_files s)"
    using tr(1) by (auto simp: write_all_def split: if_splits)
  then show "map_of (xt_files s') q = (if q = p then map_option g (map_of (xt_files s) q) else map_of (xt_files s) q)"
    using m by (simp add: tr(2) put_tree_def map_of_overwrite)
  show "map_of (xt_files s) p \<noteq> None" "xt_log s' = xt_log s" "xt_env s' = xt_env s" using m by (simp_all add: tr(2) put_tree_def)
qed

lemma read_dir_log: "read_dir d (put_tree tr (s\<lparr>xt_log := l\<rparr>)) = read_dir d (put_tree tr s)"
  by (simp add: read_dir_def is_dir_def put_tree_def)

lemma read_dir_distinct: "read_dir d s = Inr ps \<Longrightarrow> distinct ps"
  by (auto simp: read_dir_def split: if_splits)

lemma clean_bindings_Done:
  assumes "xfor ps clean_binding s = (Done (), s')" "distinct ps"
  shows "map_of (xt_files s') q = (if q \<in> set ps then map_option (\<lambda>c. remove_match c raw_alias) (map_of (xt_files s) q)
      else map_of (xt_files s) q) \<and> xt_log s' = xt_log s"
  using assms
proof (induction ps arbitrary: s)
  case (Cons p ps)
  obtain s1 where s1: "clean_binding p s = (Done (), s1)" "xfor ps clean_binding s1 = (Done (), s')" using Cons.prems(1) by (auto simp: xthen_Done)
  note r = rewrite_Done [OF s1(1) [unfolded clean_binding_def]]
  show ?case using Cons.IH [OF s1(2)] Cons.prems(2) r(2) r(4) [of q] by auto
qed (simp add: xret_def)

text \<open>The loop ends when every entry of the directory is a text file.\<close>

definition text_file :: "bytes \<Rightarrow> xt \<Rightarrow> bool" where
  "text_file p s \<longleftrightarrow> (\<exists>c. map_of (xt_files s) p = Some c \<and> utf8_valid c) \<and> \<not> is_dir p s"

lemma clean_binding_ends:
  assumes "text_file p s"
  shows "\<exists>s'. clean_binding p s = (Done (), s') \<and> (\<forall>q. q \<noteq> p \<longrightarrow> text_file q s \<longrightarrow> text_file q s')"
proof -
  obtain c where c: "map_of (xt_files s) p = Some c" "utf8_valid c" "\<not> is_dir p s" using assms by (auto simp: text_file_def)
  let ?fs = "map (\<lambda>(q, old). (q, if q = p then remove_match c raw_alias else old)) (xt_files s)"
  let ?s = "put_tree (?fs, xt_dirs s) s"
  have "p \<in> fst ` set (xt_files s)" using c(1) by (metis domIff dom_map_of_conv_image_fst option.distinct(1))
  then have "clean_binding p s = (Done (), ?s)" using c by (simp add: clean_binding_def xm_Done read_to_string_def write_all_def)
  moreover have "map fst ?fs = map fst (xt_files s)" by (simp add: comp_def case_prod_beta)
  then have "is_dir q ?s = is_dir q s" for q by (simp add: is_dir_def put_tree_def)
  then have "text_file q ?s" if "q \<noteq> p" "text_file q s" for q
    using that by (simp add: text_file_def put_tree_def map_of_overwrite)
  ultimately show ?thesis by (intro exI conjI) auto
qed

lemma clean_bindings_end: "distinct ps \<Longrightarrow> \<forall>p \<in> set ps. text_file p s \<Longrightarrow> \<exists>s'. xfor ps clean_binding s = (Done (), s')"
proof (induction ps arbitrary: s)
  case (Cons p ps)
  then have "text_file p s" by simp
  then obtain s1 where s1: "clean_binding p s = (Done (), s1)" "\<forall>q. q \<noteq> p \<longrightarrow> text_file q s \<longrightarrow> text_file q s1"
    using clean_binding_ends by blast
  then have "\<forall>q \<in> set ps. text_file q s1" using Cons.prems by auto
  then show ?case using Cons.IH [of s1] Cons.prems(1) s1(1) by (auto simp: xthen_Done)
qed (simp add: xret_def)

lemma find_default_arch_state: "snd (find_default_arch t s) = s"
  by (auto simp: find_default_arch_def xbind_def xunwrap_def xret_def split: sum.splits prod.splits xres.splits outcome.splits option.splits if_splits)

definition bindgen_build :: "bytes \<Rightarrow> bytes \<Rightarrow> command" where
  "bindgen_build prog arch = \<lparr>c_prog = prog, c_args = [''build'', ''-p'', ''grpcio-sys'', ''--target'', arch @ ''-unknown-linux-gnu''],
     c_env = [(''UPDATE_BIND'', ''1'')], c_dir = None\<rparr>"

lemma bindgen_steps:
  assumes "xt_env s ''CARGO'' = Some prog"
    and "xt_env s ''ARCH'' = Some arch \<or> xt_env s ''ARCH'' = None \<and> find_default_arch t s = (Done arch, s)"
    and "t_start t (bindgen_build prog arch) (the_tree s) = Inr tr" "read_dir ''grpc-sys/bindings'' (put_tree tr s) = Inr ps"
  shows "bindgen t s = xfor ps clean_binding (put_tree tr (s\<lparr>xt_log := xt_log s @ [bindgen_build prog arch]\<rparr>))"
proof -
  have "exec_cmd t (bindgen_build prog arch) s = (Done (), put_tree tr (s\<lparr>xt_log := xt_log s @ [bindgen_build prog arch]\<rparr>))"
    using assms(3) by (simp add: exec_cmd_Done)
  moreover have "with_args [''build'', ''-p'', ''grpcio-sys'', ''--target'', arch @ ''-unknown-linux-gnu'']
      (command_new prog\<lparr>c_env := [(''UPDATE_BIND'', ''1'')]\<rparr>) = bindgen_build prog arch"
    by (simp add: with_args_def command_new_def bindgen_build_def)
  moreover have "read_dir ''grpc-sys/bindings'' (put_tree tr (s\<lparr>xt_log := xt_log s @ [bindgen_build prog arch]\<rparr>)) = Inr ps"
    using assms(4) by (simp only: read_dir_log)
  ultimately show ?thesis
    using assms(1,2) by (auto simp: bindgen_def xbind_def xthen_def cargo_def unwrapped_def xunwrap_def Let_def)
qed

text \<open>
  C24. Regenerating the bindings. If cargo is named by its variable, the architecture is given or
  found, the build can be started and leaves only text files in the bindings directory, then
  \<^verbatim>\<open>cargo xtask bindgen\<close> ends normally. It starts exactly that build, and the files are what
  the build left, except that those of the bindings directory have lost the aliases of
  raw types: none of their lines is one any more, and every other line is kept in its order.
\<close>

theorem bindgen_cleans:
  assumes "xt_env s ''CARGO'' = Some prog"
    and "xt_env s ''ARCH'' = Some arch \<or> xt_env s ''ARCH'' = None \<and> find_default_arch t s = (Done arch, s)"
    and "t_start t (bindgen_build prog arch) (the_tree s) = Inr (files, dirs)"
    and "read_dir ''grpc-sys/bindings'' (put_tree (files, dirs) s) = Inr ps" "\<forall>p \<in> set ps. text_file p (put_tree (files, dirs) s)"
  shows "\<exists>s'. bindgen t s = (Done (), s') \<and> xt_log s' = xt_log s @ [bindgen_build prog arch]
    \<and> (\<forall>p. p \<notin> set ps \<longrightarrow> map_of (xt_files s') p = map_of files p)
    \<and> (\<forall>p \<in> set ps. \<exists>old new. map_of files p = Some old \<and> map_of (xt_files s') p = Some new
        \<and> text_lines new = map strip_cr (filter (\<lambda>l. \<not> raw_alias l) (text_lines old)) \<and> (\<forall>l \<in> set (text_lines new). \<not> raw_alias l))"
proof -
  let ?s = "put_tree (files, dirs) (s\<lparr>xt_log := xt_log s @ [bindgen_build prog arch]\<rparr>)"
  have d: "distinct ps" using assms(4) by (rule read_dir_distinct)
  have "\<forall>p \<in> set ps. text_file p ?s" using assms(5) by (simp add: text_file_def is_dir_def put_tree_def)
  then obtain s' where s': "xfor ps clean_binding ?s = (Done (), s')" using clean_bindings_end [OF d] by blast
  note cleaned = clean_bindings_Done [OF s' d]
  have "map_of (xt_files s') p = map_of files p" if "p \<notin> set ps" for p using cleaned [of p] that by (simp add: put_tree_def)
  moreover have "\<exists>old new. map_of files p = Some old \<and> map_of (xt_files s') p = Some new
      \<and> text_lines new = map strip_cr (filter (\<lambda>l. \<not> raw_alias l) (text_lines old)) \<and> (\<forall>l \<in> set (text_lines new). \<not> raw_alias l)"
    if p: "p \<in> set ps" for p
  proof -
    obtain old where "map_of files p = Some old" using assms(5) p by (auto simp: text_file_def put_tree_def)
    then show ?thesis using cleaned [of p] p by (auto simp: put_tree_def remove_match_lines dest: raw_alias_strip_cr)
  qed
  moreover have "xt_log s' = xt_log s @ [bindgen_build prog arch]" using cleaned by (simp add: put_tree_def)
  moreover have "bindgen t s = (Done (), s')" using bindgen_steps [OF assms(1-4)] s' by simp
  ultimately show ?thesis by blast
qed

definition sample_tools :: tools where
  "sample_tools = \<lparr>t_start = (\<lambda>c t. Inr ([(''grpc-sys/bindings/a.rs'', ''pub type size_t = ::std::os::raw::c_ulong;'' @ [CHR 0x0A] @ ''fn f();'')], [])),
     t_stdout = (\<lambda>c. Inr (''target_arch='' @ [CHR 0x22] @ ''x86_64'' @ [CHR 0x22])), t_protoc_rust = (\<lambda>_ _ _ t. Inr t), t_protoc = ''protoc'', t_fmt = c_prog\<rparr>"

definition sample_xt :: xt where
  "sample_xt = \<lparr>xt_files = [], xt_dirs = [], xt_env = [''CARGO'' \<mapsto> ''cargo''], xt_err = [], xt_log = []\<rparr>"

theorem bindgen_cleans_witness:
  "\<exists>s' old new. bindgen sample_tools sample_xt = (Done (), s') \<and> xt_log s' = [bindgen_build ''cargo'' ''x86_64'']
    \<and> map_of (xt_files s') ''grpc-sys/bindings/a.rs'' = Some new \<and> text_lines new = map strip_cr (filter (\<lambda>l. \<not> raw_alias l) (text_lines old))
    \<and> old = ''pub type size_t = ::std::os::raw::c_ulong;'' @ [CHR 0x0A] @ ''fn f();''"
proof -
  let ?f = "''grpc-sys/bindings/a.rs''"
  let ?old = "''pub type size_t = ::std::os::raw::c_ulong;'' @ [CHR 0x0A] @ ''fn f();''"
  let ?left = "put_tree ([(?f, ?old)], []) sample_xt"
  have "fst (find_default_arch sample_tools sample_xt) = Done ''x86_64''" by code_simp
  then have "find_default_arch sample_tools sample_xt = (Done ''x86_64'', sample_xt)"
    using find_default_arch_state by (metis prod.collapse)
  moreover have "xt_env sample_xt ''ARCH'' = None" by code_simp
  ultimately have arch: "xt_env sample_xt ''ARCH'' = Some ''x86_64''
      \<or> xt_env sample_xt ''ARCH'' = None \<and> find_default_arch sample_tools sample_xt = (Done ''x86_64'', sample_xt)" by blast
  have cargo: "xt_env sample_xt ''CARGO'' = Some ''cargo''" by code_simp
  have start: "t_start sample_tools (bindgen_build ''cargo'' ''x86_64'') (the_tree sample_xt) = Inr ([(?f, ?old)], [])"
    by (simp only: sample_tools_def tools.simps)
  have dir: "read_dir ''grpc-sys/bindings'' ?left = Inr [?f]" by code_simp
  have "map_of (xt_files ?left) ?f = Some ?old" "utf8_valid ?old" "\<not> is_dir ?f ?left" by code_simp+
  then have texts: "\<forall>p \<in> set [?f]. text_file p ?left" by (simp only: text_file_def list.set ball_simps) blast
  have "xt_log sample_xt = []" by code_simp
  then show ?thesis using bindgen_cleans [OF cargo arch start dir texts] by fastforce
qed

text \<open>
  The tool that xtask starts for prost reads back the inputs, the include directory and the
  output directory that xtask passes, as long as no path has a comma in it.
\<close>

lemma split_comma_append: "CHR '','' \<notin> set w \<Longrightarrow> split_comma (w @ CHR '','' # rest) = w # split_comma rest"
  by (induction w) auto

lemma split_comma_word: "CHR '','' \<notin> set w \<Longrightarrow> split_comma w = [w]"
  by (induction w) auto

lemma split_join_comma: "ws \<noteq> [] \<Longrightarrow> \<forall>w \<in> set ws. CHR '','' \<notin> set w \<Longrightarrow> split_comma (join_with '','' ws) = ws"
  by (induction ws rule: induct_list012) (simp_all add: split_comma_word split_comma_append)

theorem prost_args_roundtrip:
  assumes "inputs \<noteq> []" "\<forall>i \<in> set (inc # inputs). CHR '','' \<notin> set i"
  shows "protoc_gen_args (prog # prost_args inc inputs out_dir) = Ret (inputs, [inc], out_dir)"
  using assms
  by (simp add: protoc_gen_args_def prost_args_def strip_prefix_def starts_with_def split_join_comma split_comma_word)

lemma prost_args_no_input: "protoc_gen_args (prog # prost_args inc [] out_dir) = Ret ([[]], split_comma inc, out_dir)"
  by (simp add: protoc_gen_args_def prost_args_def strip_prefix_def starts_with_def)

end
