(* ===== verification/Grpc_Descriptor.thy ===== *)
theory Grpc_Descriptor
  imports Grpc_Health_Proto Grpc_Xtask
begin

text \<open>
  The serialised descriptor that \<^verbatim>\<open>health/src/proto/protobuf/health.rs\<close> embeds, the
  functions that hand it out, and the patch of \<^verbatim>\<open>xtask/src/main.rs\<close> that was applied to
  the file.
\<close>

section \<open>The descriptor\<close>

text \<open>
  The literal \<^verbatim>\<open>file_descriptor_proto_data\<close>, line by line as it stands in the file, and
  the bytes that Rust reads from it.
\<close>

definition bs :: bytes where "bs = [CHR 0x5C]"
definition dq :: bytes where "dq = [CHR 0x22]"

definition descriptor_text :: "bytes list" where
  "descriptor_text = [
     ''    '' @ bs @ ''n'' @ bs @ ''x1bgrpc/health/v1/health.proto'' @ bs @ ''x12'' @ bs @ ''x0egrpc.health.v1'' @ bs @ dq @ ''.'' @ bs @ ''n'' @ bs @ ''x12HealthCh'' @ bs,
     ''    eckRequest'' @ bs @ ''x12'' @ bs @ ''x18'' @ bs @ ''n'' @ bs @ ''x07service'' @ bs @ ''x18'' @ bs @ ''x01'' @ bs @ ''x20'' @ bs @ ''x01('' @ bs @ ''tR'' @ bs @ ''x07service'' @ bs @ dq @ bs @ ''xb1'' @ bs @ ''x01'' @ bs,
     ''    '' @ bs @ ''n'' @ bs @ ''x13HealthCheckResponse'' @ bs @ ''x12I'' @ bs @ ''n'' @ bs @ ''x06status'' @ bs @ ''x18'' @ bs @ ''x01'' @ bs @ ''x20'' @ bs @ ''x01('' @ bs @ ''x0e21.grpc.h'' @ bs,
     ''    ealth.v1.HealthCheckResponse.ServingStatusR'' @ bs @ ''x06status'' @ bs @ dq @ ''O'' @ bs @ ''n'' @ bs @ ''rServingStatu'' @ bs,
     ''    s'' @ bs @ ''x12'' @ bs @ ''x0b'' @ bs @ ''n'' @ bs @ ''x07Unknown'' @ bs @ ''x10'' @ bs @ ''0'' @ bs @ ''x12'' @ bs @ ''x0b'' @ bs @ ''n'' @ bs @ ''x07Serving'' @ bs @ ''x10'' @ bs @ ''x01'' @ bs @ ''x12'' @ bs @ ''x0f'' @ bs @ ''n'' @ bs @ ''x0bN'' @ bs,
     ''    OT_Serving'' @ bs @ ''x10'' @ bs @ ''x02'' @ bs @ ''x12'' @ bs @ ''x13'' @ bs @ ''n'' @ bs @ ''x0fServiceUnknown'' @ bs @ ''x10'' @ bs @ ''x032'' @ bs @ ''xae'' @ bs @ ''x01'' @ bs @ ''n'' @ bs @ ''x06He'' @ bs,
     ''    alth'' @ bs @ ''x12P'' @ bs @ ''n'' @ bs @ ''x05Check'' @ bs @ ''x12'' @ bs @ dq @ ''.grpc.health.v1.HealthCheckRequest'' @ bs @ ''x1a#.grpc.h'' @ bs,
     ''    ealth.v1.HealthCheckResponse'' @ bs @ ''x12R'' @ bs @ ''n'' @ bs @ ''x05Watch'' @ bs @ ''x12'' @ bs @ dq @ ''.grpc.health.v1.Health'' @ bs,
     ''    CheckRequest'' @ bs @ ''x1a#.grpc.health.v1.HealthCheckResponse0'' @ bs @ ''x01Ba'' @ bs @ ''n'' @ bs @ ''x11io.grpc'' @ bs,
     ''    .health.v1B'' @ bs @ ''x0bHealthProtoP'' @ bs @ ''x01Z,google.golang.org/grpc/health/grpc_heal'' @ bs,
     ''    th_v1'' @ bs @ ''xaa'' @ bs @ ''x02'' @ bs @ ''x0eGrpc.Health.V1b'' @ bs @ ''x06proto3'' @ bs]"

definition hex_value :: "byte \<Rightarrow> nat" where
  "hex_value c = (if is_digit c then of_char c - 48 else of_char c - 87)"

datatype esc = Plain | Escaped | Hex | HexLow nat | Blank

definition unescape_step :: "byte \<Rightarrow> esc \<times> bytes \<Rightarrow> esc \<times> bytes" where
  "unescape_step c = (\<lambda>(e, out). case e of
     Plain \<Rightarrow> if c = CHR 0x5C then (Escaped, out) else (Plain, c # out)
   | Escaped \<Rightarrow>
       if c = CHR ''x'' then (Hex, out)
       else if c = CHR 0x0A then (Blank, out)
       else (Plain, (if c = CHR ''n'' then CHR 0x0A else if c = CHR ''r'' then CHR 0x0D else if c = CHR ''t'' then CHR 0x09
                     else if c = CHR ''0'' then CHR 0x00 else c) # out)
   | Hex \<Rightarrow> (HexLow (hex_value c), out)
   | HexLow h \<Rightarrow> (Plain, char_of (16 * h + hex_value c) # out)
   | Blank \<Rightarrow>
       if c \<in> {CHR 0x20, CHR 0x09, CHR 0x0A, CHR 0x0D} then (Blank, out)
       else if c = CHR 0x5C then (Escaped, out) else (Plain, c # out))"

definition unescape :: "bytes \<Rightarrow> bytes" where
  "unescape s = rev (snd (fold unescape_step s (Plain, [])))"

text \<open>The first line of the literal ends after its quote, the last one before it.\<close>

definition literal_bytes :: "bytes list \<Rightarrow> bytes" where
  "literal_bytes ls = unescape (bs @ [CHR 0x0A] @ concat (map (\<lambda>l. l @ [CHR 0x0A]) ls))"

definition file_descriptor_proto_data :: bytes where
  "file_descriptor_proto_data = literal_bytes descriptor_text"

text \<open>
  \<open>parse\<close> is \<^verbatim>\<open>protobuf::parse_from_bytes\<close> for a file descriptor; \<open>lazy_get\<close>, \<open>descriptor_get\<close> and
  \<open>enum_get\<close> are the lazy values of \<^verbatim>\<open>protobuf::lazy\<close>, which are computed on the first call; the
  remaining arguments build a reflection descriptor from the one of the file.
\<close>

definition parse_descriptor_proto :: "(bytes \<Rightarrow> string + 'd) \<Rightarrow> 'd outcome" where
  "parse_descriptor_proto parse = (case parse file_descriptor_proto_data of
     Inl e \<Rightarrow> Panic (''called `Result::unwrap()` on an `Err` value: '' @ e) | Inr d \<Rightarrow> Ret d)"

definition file_descriptor_proto :: "('d outcome \<Rightarrow> 'd outcome) \<Rightarrow> (bytes \<Rightarrow> string + 'd) \<Rightarrow> 'd outcome" where
  "file_descriptor_proto lazy_get parse = lazy_get (parse_descriptor_proto parse)"

definition request_descriptor_static ::
  "('d outcome \<Rightarrow> 'd outcome) \<Rightarrow> ('m outcome \<Rightarrow> 'm outcome) \<Rightarrow> (bytes \<Rightarrow> string + 'd) \<Rightarrow> (bytes \<Rightarrow> bytes list \<Rightarrow> 'd \<Rightarrow> 'm) \<Rightarrow> 'm outcome" where
  "request_descriptor_static lazy_get descriptor_get parse descriptor_new = descriptor_get
     (obind (file_descriptor_proto lazy_get parse) (\<lambda>d. Ret (descriptor_new ''HealthCheckRequest'' [''service''] d)))"

definition response_descriptor_static ::
  "('d outcome \<Rightarrow> 'd outcome) \<Rightarrow> ('m outcome \<Rightarrow> 'm outcome) \<Rightarrow> (bytes \<Rightarrow> string + 'd) \<Rightarrow> (bytes \<Rightarrow> bytes list \<Rightarrow> 'd \<Rightarrow> 'm) \<Rightarrow> 'm outcome" where
  "response_descriptor_static lazy_get descriptor_get parse descriptor_new = descriptor_get
     (obind (file_descriptor_proto lazy_get parse) (\<lambda>d. Ret (descriptor_new ''HealthCheckResponse'' [''status''] d)))"

definition enum_descriptor_static ::
  "('d outcome \<Rightarrow> 'd outcome) \<Rightarrow> ('e outcome \<Rightarrow> 'e outcome) \<Rightarrow> (bytes \<Rightarrow> string + 'd) \<Rightarrow> (bytes \<Rightarrow> 'd \<Rightarrow> 'e) \<Rightarrow> 'e outcome" where
  "enum_descriptor_static lazy_get enum_get parse enum_new = enum_get
     (obind (file_descriptor_proto lazy_get parse) (\<lambda>d. Ret (enum_new ''ServingStatus'' d)))"

text \<open>
  Which fields hold messages: those of a file descriptor that lead to the values of an
  enumeration inside a message, in \<^verbatim>\<open>descriptor.proto\<close>.
\<close>

datatype schema = Schema "(nat \<times> schema) list"

primrec descriptor_schema :: "nat \<Rightarrow> schema" where
  "descriptor_schema 0 = Schema []"
| "descriptor_schema (Suc n) = Schema [(if n = 0 then 2 else 4, descriptor_schema n)]"

fun wire_valid :: "nat \<Rightarrow> schema \<Rightarrow> bytes \<Rightarrow> bool" where
  "wire_valid 0 sch s \<longleftrightarrow> True"
| "wire_valid (Suc fuel) (Schema subs) s \<longleftrightarrow> (case get_fields (length s) s of
     None \<Rightarrow> False
   | Some fs \<Rightarrow> list_all (\<lambda>(n, w, v). w = 2 \<longrightarrow> (case map_of subs n of None \<Rightarrow> True | Some sch \<Rightarrow> wire_valid fuel sch v)) fs)"

definition descriptor_wellformed :: "bytes \<Rightarrow> bool" where
  "descriptor_wellformed s \<longleftrightarrow> wire_valid 4 (descriptor_schema 3) s"

lemma wire_valid_put:
  assumes "list_all field_ok fs"
  shows "wire_valid (Suc k) (Schema subs) (put_fields fs) \<longleftrightarrow>
    list_all (\<lambda>(n, w, v). w = 2 \<longrightarrow> (case map_of subs n of None \<Rightarrow> True | Some sch \<Rightarrow> wire_valid k sch v)) fs"
  using get_fields_put [OF assms] by simp

lemma wire_valid_sub:
  assumes "wire_valid (Suc k) (Schema subs) (put_fields fs @ s)" "list_all field_ok fs" "(n, 2, v) \<in> set fs" "map_of subs n = Some sch"
  shows "wire_valid k sch v"
proof -
  obtain k' where "get_fields (length (put_fields fs @ s)) (put_fields fs @ s) = map_option ((@) fs) (get_fields k' s)"
    using get_fields_append [OF assms(2), of s "length (put_fields fs @ s)"] by auto
  then show ?thesis using assms(1,3,4) by (fastforce simp: list_all_iff split: option.splits)
qed

section \<open>The patch and the descriptor\<close>

text \<open>The literal before the names were replaced, as the names stand in the proto file.\<close>

definition descriptor_text_unpatched :: "bytes list" where
  "descriptor_text_unpatched = [
     ''    '' @ bs @ ''n'' @ bs @ ''x1bgrpc/health/v1/health.proto'' @ bs @ ''x12'' @ bs @ ''x0egrpc.health.v1'' @ bs @ dq @ ''.'' @ bs @ ''n'' @ bs @ ''x12HealthCh'' @ bs,
     ''    eckRequest'' @ bs @ ''x12'' @ bs @ ''x18'' @ bs @ ''n'' @ bs @ ''x07service'' @ bs @ ''x18'' @ bs @ ''x01'' @ bs @ ''x20'' @ bs @ ''x01('' @ bs @ ''tR'' @ bs @ ''x07service'' @ bs @ dq @ bs @ ''xb1'' @ bs @ ''x01'' @ bs,
     ''    '' @ bs @ ''n'' @ bs @ ''x13HealthCheckResponse'' @ bs @ ''x12I'' @ bs @ ''n'' @ bs @ ''x06status'' @ bs @ ''x18'' @ bs @ ''x01'' @ bs @ ''x20'' @ bs @ ''x01('' @ bs @ ''x0e21.grpc.h'' @ bs,
     ''    ealth.v1.HealthCheckResponse.ServingStatusR'' @ bs @ ''x06status'' @ bs @ dq @ ''O'' @ bs @ ''n'' @ bs @ ''rServingStatu'' @ bs,
     ''    s'' @ bs @ ''x12'' @ bs @ ''x0b'' @ bs @ ''n'' @ bs @ ''x07UNKNOWN'' @ bs @ ''x10'' @ bs @ ''0'' @ bs @ ''x12'' @ bs @ ''x0b'' @ bs @ ''n'' @ bs @ ''x07SERVING'' @ bs @ ''x10'' @ bs @ ''x01'' @ bs @ ''x12'' @ bs @ ''x0f'' @ bs @ ''n'' @ bs @ ''x0bN'' @ bs,
     ''    OT_SERVING'' @ bs @ ''x10'' @ bs @ ''x02'' @ bs @ ''x12'' @ bs @ ''x13'' @ bs @ ''n'' @ bs @ ''x0fSERVICE_UNKNOWN'' @ bs @ ''x10'' @ bs @ ''x032'' @ bs @ ''xae'' @ bs @ ''x01'' @ bs @ ''n'' @ bs @ ''x06He'' @ bs,
     ''    alth'' @ bs @ ''x12P'' @ bs @ ''n'' @ bs @ ''x05Check'' @ bs @ ''x12'' @ bs @ dq @ ''.grpc.health.v1.HealthCheckRequest'' @ bs @ ''x1a#.grpc.h'' @ bs,
     ''    ealth.v1.HealthCheckResponse'' @ bs @ ''x12R'' @ bs @ ''n'' @ bs @ ''x05Watch'' @ bs @ ''x12'' @ bs @ dq @ ''.grpc.health.v1.Health'' @ bs,
     ''    CheckRequest'' @ bs @ ''x1a#.grpc.health.v1.HealthCheckResponse0'' @ bs @ ''x01Ba'' @ bs @ ''n'' @ bs @ ''x11io.grpc'' @ bs,
     ''    .health.v1B'' @ bs @ ''x0bHealthProtoP'' @ bs @ ''x01Z,google.golang.org/grpc/health/grpc_heal'' @ bs,
     ''    th_v1'' @ bs @ ''xaa'' @ bs @ ''x02'' @ bs @ ''x0eGrpc.Health.V1b'' @ bs @ ''x06proto3'' @ bs]"

definition name_fixes :: "(bytes \<times> bytes) list" where
  "name_fixes = snd (hd NAMING_PATCH)"

lemma patch_lines: "map (replace_names name_fixes) descriptor_text_unpatched = descriptor_text"
  by code_simp

lemma patch_gives_text:
  "replace_names name_fixes (concat (map (\<lambda>l. l @ [CHR 0x0A]) descriptor_text_unpatched)) = concat (map (\<lambda>l. l @ [CHR 0x0A]) descriptor_text)"
proof -
  have "list_all (\<lambda>(p, r). p \<noteq> [] \<and> CHR 0x0A \<notin> set p) name_fixes" by (simp add: name_fixes_def NAMING_PATCH_def)
  then show ?thesis unfolding patch_lines [symmetric] by (simp add: replace_names_lines comp_def)
qed

text \<open>The fields of the descriptor, and those of the patched one as far as they can be read.\<close>

definition enum_value :: "bytes \<Rightarrow> byte \<Rightarrow> bytes" where
  "enum_value name number = put_fields [(1, 2, name), (2, 0, [number])]"

definition enum_fields :: "bytes list \<Rightarrow> bytes \<Rightarrow> (nat \<times> nat \<times> bytes) list" where
  "enum_fields names v4 = [(1, 2, ''ServingStatus''), (2, 2, enum_value (names ! 0) (CHR 0x00)), (2, 2, enum_value (names ! 1) (CHR 0x01)),
     (2, 2, enum_value (names ! 2) (CHR 0x02)), (2, 2, v4)]"

definition response_fields :: "bytes \<Rightarrow> (nat \<times> nat \<times> bytes) list" where
  "response_fields en = [(1, 2, ''HealthCheckResponse''),
     (2, 2, [CHR 0x0A] @ [CHR 0x06] @ ''status'' @ [CHR 0x18] @ [CHR 0x01] @ '' '' @ [CHR 0x01] @ ''('' @ [CHR 0x0E] @ ''21.grpc.health.v1.HealthCheckResponse.ServingStatusR'' @ [CHR 0x06] @ ''status''),
     (4, 2, en)]"

definition request_fields :: bytes where
  "request_fields = [CHR 0x0A] @ [CHR 0x12] @ ''HealthCheckRequest'' @ [CHR 0x12] @ [CHR 0x18] @ [CHR 0x0A] @ [CHR 0x07] @ ''service'' @ [CHR 0x18] @ [CHR 0x01] @ '' '' @ [CHR 0x01] @ ''('' @ [CHR 0x09] @ ''R'' @ [CHR 0x07] @ ''service''"

definition file_fields :: "bytes \<Rightarrow> (nat \<times> nat \<times> bytes) list" where
  "file_fields resp = [(1, 2, ''grpc/health/v1/health.proto''), (2, 2, ''grpc.health.v1''),
     (4, 2, request_fields),
     (4, 2, resp)]"

definition rest_fields :: "(nat \<times> nat \<times> bytes) list" where
  "rest_fields = [(6, 2, [CHR 0x0A] @ [CHR 0x06] @ ''Health'' @ [CHR 0x12] @ ''P'' @ [CHR 0x0A] @ [CHR 0x05] @ ''Check'' @ [CHR 0x12] @ [CHR 0x22] @ ''.grpc.health.v1.HealthCheckRequest'' @ [CHR 0x1A] @ ''#.grpc.health.v1.HealthCheckResponse'' @ [CHR 0x12] @ ''R'' @ [CHR 0x0A] @ [CHR 0x05] @ ''Watch'' @ [CHR 0x12] @ [CHR 0x22] @ ''.grpc.health.v1.HealthCheckRequest'' @ [CHR 0x1A] @ ''#.grpc.health.v1.HealthCheckResponse0'' @ [CHR 0x01]),
     (8, 2, [CHR 0x0A] @ [CHR 0x11] @ ''io.grpc.health.v1B'' @ [CHR 0x0B] @ ''HealthProtoP'' @ [CHR 0x01] @ ''Z,google.golang.org/grpc/health/grpc_health_v1'' @ [CHR 0xAA] @ [CHR 0x02] @ [CHR 0x0E] @ ''Grpc.Health.V1''),
     (12, 2, ''proto3'')]"

definition broken_value :: bytes where
  "broken_value = [CHR 0x0A, CHR 0x0F] @ ''ServiceUnknown'' @ [CHR 0x10, CHR 0x03] @ ''2''"

lemma unpatched_fields:
  "literal_bytes descriptor_text_unpatched = put_fields (file_fields (put_fields (response_fields (put_fields
     (enum_fields [''UNKNOWN'', ''SERVING'', ''NOT_SERVING''] (enum_value ''SERVICE_UNKNOWN'' (CHR 0x03)))))) @ rest_fields)"
  by code_simp

lemma patched_fields:
  "file_descriptor_proto_data = put_fields (file_fields (put_fields (response_fields (put_fields
     (enum_fields [''Unknown'', ''Serving'', ''NOT_Serving''] broken_value))))) @ [CHR 0xAE] @ [CHR 0x01] @ [CHR 0x0A] @ [CHR 0x06] @ ''Health'' @ [CHR 0x12] @ ''P'' @ [CHR 0x0A] @ [CHR 0x05] @ ''Check'' @ [CHR 0x12] @ [CHR 0x22] @ ''.grpc.health.v1.HealthCheckRequest'' @ [CHR 0x1A] @ ''#.grpc.health.v1.HealthCheckResponse'' @ [CHR 0x12] @ ''R'' @ [CHR 0x0A] @ [CHR 0x05] @ ''Watch'' @ [CHR 0x12] @ [CHR 0x22] @ ''.grpc.health.v1.HealthCheckRequest'' @ [CHR 0x1A] @ ''#.grpc.health.v1.HealthCheckResponse0'' @ [CHR 0x01] @ ''Ba'' @ [CHR 0x0A] @ [CHR 0x11] @ ''io.grpc.health.v1B'' @ [CHR 0x0B] @ ''HealthProtoP'' @ [CHR 0x01] @ ''Z,google.golang.org/grpc/health/grpc_health_v1'' @ [CHR 0xAA] @ [CHR 0x02] @ [CHR 0x0E] @ ''Grpc.Health.V1b'' @ [CHR 0x06] @ ''proto3''"
  by code_simp

text \<open>Down to the value whose name has become shorter than its length.\<close>

lemma schema_levels:
  "descriptor_schema 3 = Schema [(4, descriptor_schema 2)]" "descriptor_schema 2 = Schema [(4, descriptor_schema 1)]"
  "descriptor_schema 1 = Schema [(2, descriptor_schema 0)]" "descriptor_schema 0 = Schema []"
  by (simp_all add: numeral_eq_Suc)

declare wire_valid.simps [simp del] descriptor_schema.simps [simp del]

lemmas wire_levels = wire_valid_put [of _ 3, unfolded Suc_numeral arith_simps] wire_valid_put [of _ 2, unfolded Suc_numeral arith_simps]
  wire_valid_put [of _ 1, unfolded Suc_1] wire_valid_put [of _ 0, unfolded One_nat_def [symmetric]]

lemma file_ok: "list_all field_ok (file_fields resp)" "list_all field_ok rest_fields" "list_all field_ok (response_fields en)"
  "list_all field_ok (enum_fields names v)"
  by (simp_all add: file_fields_def rest_fields_def response_fields_def enum_fields_def field_ok_def)

lemma valid_response: "wire_valid 4 (descriptor_schema 3) (put_fields (file_fields resp) @ s) \<Longrightarrow> wire_valid 3 (descriptor_schema 2) resp"
  using wire_valid_sub [of 3 "[(4, descriptor_schema 2)]" "file_fields resp" s 4 resp "descriptor_schema 2"]
  by (simp add: schema_levels(1) file_ok) (simp add: file_fields_def)

lemma valid_enum: "wire_valid 3 (descriptor_schema 2) (put_fields (response_fields en)) \<Longrightarrow> wire_valid 2 (descriptor_schema 1) en"
  unfolding schema_levels(2) by (simp only: wire_levels file_ok) (simp add: response_fields_def)

lemma valid_value: "wire_valid 2 (descriptor_schema 1) (put_fields (enum_fields names v)) \<Longrightarrow> wire_valid 1 (descriptor_schema 0) v"
  unfolding schema_levels(3) by (simp only: wire_levels file_ok) (simp add: enum_fields_def)

lemma patched_malformed: "\<not> descriptor_wellformed file_descriptor_proto_data"
proof
  assume "descriptor_wellformed file_descriptor_proto_data"
  then have "wire_valid 1 (descriptor_schema 0) broken_value"
    unfolding descriptor_wellformed_def patched_fields by (blast dest: valid_response valid_enum valid_value)
  moreover have "\<not> wire_valid 1 (descriptor_schema 0) broken_value" by code_simp
  ultimately show False by contradiction
qed

lemma unpatched_wellformed: "descriptor_wellformed (literal_bytes descriptor_text_unpatched)"
proof -
  have v: "wire_valid 1 (descriptor_schema 0) (enum_value name number)" if "(of_char number :: nat) < 128" for name number
    using that unfolding schema_levels(4) enum_value_def by (subst wire_levels) (simp_all add: field_ok_def)
  have e: "wire_valid 2 (descriptor_schema 1) (put_fields (enum_fields names (enum_value name (CHR 0x03))))" for names name
    unfolding schema_levels(3) by (simp only: wire_levels file_ok) (simp add: enum_fields_def v [unfolded One_nat_def])
  have r: "wire_valid 3 (descriptor_schema 2) (put_fields (response_fields (put_fields (enum_fields names (enum_value name (CHR 0x03))))))" for names name
    unfolding schema_levels(2) by (simp only: wire_levels file_ok) (simp add: response_fields_def e [unfolded One_nat_def])
  have q: "wire_valid 3 (descriptor_schema 2) request_fields"
    by code_simp
  show ?thesis
    unfolding unpatched_fields descriptor_wellformed_def schema_levels(1)
    by (simp only: wire_levels file_ok list_all_append) (simp add: file_fields_def rest_fields_def r q)
qed

text \<open>
  C40. The embedded descriptor is broken. The patch of the maintenance task shortens the name
  \<^verbatim>\<open>SERVICE_UNKNOWN\<close> inside length-prefixed data: applied to the descriptor's literal with
  the names of the proto file, which is well-formed, it gives the literal of the file, which is
  not a well-formed message. So every decoder that only accepts well-formed data rejects it, and
  whoever asks for the descriptor of the file, of a message or of the enumeration panics.
\<close>

theorem health_descriptor_broken:
  assumes "\<forall>bs d. parse bs = Inr d \<longrightarrow> descriptor_wellformed bs" "\<forall>e. lazy_get (Panic e) = Panic e"
    and "\<forall>e. descriptor_get (Panic e) = Panic e" "\<forall>e. enum_get (Panic e) = Panic e"
  shows "replace_names name_fixes (concat (map (\<lambda>l. l @ [CHR 0x0A]) descriptor_text_unpatched)) = concat (map (\<lambda>l. l @ [CHR 0x0A]) descriptor_text)
    \<and> descriptor_wellformed (literal_bytes descriptor_text_unpatched) \<and> \<not> descriptor_wellformed file_descriptor_proto_data
    \<and> (\<exists>e. parse_descriptor_proto parse = Panic e \<and> file_descriptor_proto lazy_get parse = Panic e
        \<and> request_descriptor_static lazy_get descriptor_get parse descriptor_new = Panic e
        \<and> response_descriptor_static lazy_get descriptor_get parse descriptor_new = Panic e
        \<and> enum_descriptor_static lazy_get enum_get parse enum_new = Panic e)"
proof -
  obtain e where "parse file_descriptor_proto_data = Inl e"
    using assms(1) patched_malformed by (cases "parse file_descriptor_proto_data") auto
  then show ?thesis
    using assms(2-4) patch_gives_text unpatched_wellformed patched_malformed
    by (simp add: parse_descriptor_proto_def file_descriptor_proto_def request_descriptor_static_def response_descriptor_static_def
        enum_descriptor_static_def)
qed

theorem health_descriptor_broken_witness:
  "\<exists>e. parse_descriptor_proto (\<lambda>bs. if descriptor_wellformed bs then Inr bs else Inl ''incorrect tag'') = Panic e
    \<and> request_descriptor_static id id (\<lambda>bs. if descriptor_wellformed bs then Inr bs else Inl ''incorrect tag'') (\<lambda>n fs d. (n, fs, d)) = Panic e"
proof -
  have p: "\<forall>bs d. (if descriptor_wellformed bs then Inr bs else Inl ''incorrect tag'') = Inr d \<longrightarrow> descriptor_wellformed bs"
    by (auto split: if_splits)
  show ?thesis using health_descriptor_broken [where lazy_get = id and descriptor_get = id and enum_get = id, OF p, of "\<lambda>n fs d. (n, fs, d)" "\<lambda>n d. n"] by auto
qed

end
