(* ===== verification/Grpc_Endtoend.thy ===== *)
theory Grpc_Endtoend
  imports Grpc_Channel Grpc_Server Grpc_Health_Proto
begin

text \<open>
  The two ends of a call together: the client of \<^verbatim>\<open>health/src/proto/protobuf/health_grpc.rs\<close>
  and the service of \<^verbatim>\<open>health/src/service.rs\<close> on the library's client and server, with
  the core in between, which carries a batch's message and status to the other side.
\<close>

section \<open>The health service\<close>

definition METHOD_HEALTH_CHECK :: bytes where
  "METHOD_HEALTH_CHECK = ''/grpc.health.v1.Health/Check''"

definition METHOD_HEALTH_WATCH :: bytes where
  "METHOD_HEALTH_WATCH = ''/grpc.health.v1.Health/Watch''"

text \<open>The marshallers: \<^verbatim>\<open>pb_ser\<close> and \<^verbatim>\<open>pb_de\<close>, for a reader with the given contents.\<close>

definition request_ser :: "slice_core \<Rightarrow> ('s, 'w, 'u) pb_runtime \<Rightarrow> 'u HealthCheckRequest \<Rightarrow> grpc_slice \<Rightarrow> grpc_slice outcome" where
  "request_ser c rt = codec_ser c (\<lambda>m. unat (fst (request_compute_size rt m))) (pb_bytes (request_write_to rt))"

definition response_ser :: "slice_core \<Rightarrow> ('s, 'w, 'u) pb_runtime \<Rightarrow> 'u HealthCheckResponse \<Rightarrow> grpc_slice \<Rightarrow> grpc_slice outcome" where
  "response_ser c rt = codec_ser c (\<lambda>m. unat (fst (response_compute_size rt m))) (pb_bytes (response_write_to rt))"

definition merged :: "((string + unit) \<times> 'm) option \<Rightarrow> string + 'm" where
  "merged r = (case r of None \<Rightarrow> Inl ''endless stream'' | Some (Inl e, _) \<Rightarrow> Inl e | Some (Inr _, m) \<Rightarrow> Inr m)"

definition request_de :: "('s, 'w, 'u) pb_runtime \<Rightarrow> ('m \<Rightarrow> bytes) \<Rightarrow> 'm \<Rightarrow> 'u HealthCheckRequest result" where
  "request_de rt content = codec_de (\<lambda>m. merged (request_merge_from rt (rt_from_bytes rt (content m)) (request_msg_new rt)))"

definition response_de :: "('s, 'w, 'u) pb_runtime \<Rightarrow> ('m \<Rightarrow> bytes) \<Rightarrow> 'm \<Rightarrow> 'u HealthCheckResponse result" where
  "response_de rt content = codec_de (\<lambda>m. merged (response_merge_from rt (rt_from_bytes rt (content m)) (response_msg_new rt)))"

definition build_response :: "('s, 'w, 'u) pb_runtime \<Rightarrow> ServingStatus \<Rightarrow> 'u HealthCheckResponse" where
  "build_response rt status = (response_msg_new rt)\<lparr>resp_status := status\<rparr>"

definition health_check_handler ::
  "slice_core \<Rightarrow> 'm core \<Rightarrow> ('s, 'w, 'u) pb_runtime \<Rightarrow> rpc_context \<Rightarrow> 'u HealthCheckRequest \<Rightarrow> share_call \<Rightarrow> health \<times> 'm world
     \<Rightarrow> (health \<times> 'm world) outcome" where
  "health_check_handler c core rt ctx req sink = (\<lambda>(self, w). case health_check (req_service req) self of
     Inr status \<Rightarrow> obind (unary_success c core (response_ser c rt) (build_response rt status) sink w) (\<lambda>(_, w). Ret (self, w))
   | Inl status \<Rightarrow> obind (unary_fail c core (response_ser c rt) status sink w) (\<lambda>(_, w). Ret (self, w)))"

text \<open>\<open>watch\<close> stands for the handler of the other method.\<close>

definition create_health ::
  "slice_core \<Rightarrow> 'm core \<Rightarrow> (error \<Rightarrow> string) \<Rightarrow> ('s, 'w, 'u) pb_runtime \<Rightarrow> ('m \<Rightarrow> bytes)
     \<Rightarrow> (rpc_context \<Rightarrow> 'u HealthCheckRequest \<Rightarrow> stream_sink \<times> share_call \<Rightarrow> health \<times> 'm world \<Rightarrow> (health \<times> 'm world) outcome)
     \<Rightarrow> (health, 'm) handlers" where
  "create_health c core debug_error rt content watch =
     (let builder = service_builder_new;
          builder = add_unary_handler core debug_error METHOD_HEALTH_CHECK (request_de rt content) (health_check_handler c core rt) builder;
          builder = add_server_streaming_handler c core debug_error METHOD_HEALTH_WATCH (request_de rt content) watch builder
      in builder)"

definition check_opt ::
  "slice_core \<Rightarrow> (bytes \<Rightarrow> bytes option \<Rightarrow> 'd \<Rightarrow> nat option) \<Rightarrow> 'd \<Rightarrow> (nat \<Rightarrow> 'd) \<Rightarrow> 'm core \<Rightarrow> ('s, 'w, 'u) pb_runtime \<Rightarrow> ('m \<Rightarrow> bytes)
     \<Rightarrow> waker \<Rightarrow> ('m world \<Rightarrow> 'm world) list \<Rightarrow> 'u HealthCheckRequest \<Rightarrow> call_option \<Rightarrow> 'm world
     \<Rightarrow> ('u HealthCheckResponse result \<times> 'm world) outcome option" where
  "check_opt c create inf_future from core rt content cx envs req opt =
     unary_call c create inf_future from core (request_ser c rt) (response_de rt content) cx envs METHOD_HEALTH_CHECK req opt"

definition check_default ::
  "slice_core \<Rightarrow> (bytes \<Rightarrow> bytes option \<Rightarrow> 'd \<Rightarrow> nat option) \<Rightarrow> 'd \<Rightarrow> (nat \<Rightarrow> 'd) \<Rightarrow> 'm core \<Rightarrow> ('s, 'w, 'u) pb_runtime \<Rightarrow> ('m \<Rightarrow> bytes)
     \<Rightarrow> waker \<Rightarrow> ('m world \<Rightarrow> 'm world) list \<Rightarrow> 'u HealthCheckRequest \<Rightarrow> 'm world
     \<Rightarrow> ('u HealthCheckResponse result \<times> 'm world) outcome option" where
  "check_default c create inf_future from core rt content cx envs req =
     check_opt c create inf_future from core rt content cx envs req call_option_default"

definition check_async_opt ::
  "slice_core \<Rightarrow> (bytes \<Rightarrow> bytes option \<Rightarrow> 'd \<Rightarrow> nat option) \<Rightarrow> 'd \<Rightarrow> (nat \<Rightarrow> 'd) \<Rightarrow> 'm core \<Rightarrow> ('s, 'w, 'u) pb_runtime
     \<Rightarrow> 'u HealthCheckRequest \<Rightarrow> call_option \<Rightarrow> 'm world \<Rightarrow> ((nat \<times> nat) result \<times> 'm world) outcome" where
  "check_async_opt c create inf_future from core rt req opt =
     unary_call_async c create inf_future from core (request_ser c rt) METHOD_HEALTH_CHECK req opt"

definition watch_opt ::
  "slice_core \<Rightarrow> (bytes \<Rightarrow> bytes option \<Rightarrow> 'd \<Rightarrow> nat option) \<Rightarrow> 'd \<Rightarrow> (nat \<Rightarrow> 'd) \<Rightarrow> 'm core \<Rightarrow> ('s, 'w, 'u) pb_runtime
     \<Rightarrow> 'u HealthCheckRequest \<Rightarrow> call_option \<Rightarrow> 'm world \<Rightarrow> (share_call result \<times> 'm world) outcome" where
  "watch_opt c create inf_future from core rt req opt =
     server_streaming_call c create inf_future from core (request_ser c rt) METHOD_HEALTH_WATCH req opt"

section \<open>A unary call across the core\<close>

text \<open>
  What the core delivers: a message with the bytes that were sent, and at the end of the call
  the server's status with the response's message, if there is one.
\<close>

definition message_delivered :: "('b \<Rightarrow> 'm outcome) \<Rightarrow> ('m \<Rightarrow> bytes) \<Rightarrow> grpc_slice \<Rightarrow> 'b \<Rightarrow> bool" where
  "message_delivered open_reader content s buf \<longleftrightarrow> (\<exists>m. open_reader buf = Ret m \<and> content m = as_slice s)"

definition answer_delivered :: "('b \<Rightarrow> 'm outcome) \<Rightarrow> ('m \<Rightarrow> bytes) \<Rightarrow> op list \<Rightarrow> 'b batch_context \<Rightarrow> bool" where
  "answer_delivered open_reader content ops ctx \<longleftrightarrow> status_delivered (hd ops) ctx
     \<and> (\<forall>s flags. OpSendMessage s flags \<in> set ops \<longrightarrow> (\<exists>buf. bc_recv_message ctx = Some buf \<and> message_delivered open_reader content s buf))"

definition finish_batch :: "('b \<Rightarrow> 'm outcome) \<Rightarrow> nat \<Rightarrow> 'b batch_context \<Rightarrow> 'm world \<Rightarrow> 'm world" where
  "finish_batch open_reader f ctx w = (case complete_batch open_reader CheckRead f ctx True w of Ret (_, w) \<Rightarrow> w | Panic _ \<Rightarrow> w)"

lemma client_starts:
  assumes "core_later core" "0 < w_ref_cnt w" "ser q (slice_default c) = Ret s"
    and "create method None (case co_timeout opt of None \<Rightarrow> inf_future | Some t \<Rightarrow> from t) = Some call"
  obtains w1 b where "unary_call_async c create inf_future from core ser method q opt w = Ret (Inr (call, w_next w), w1)"
    "w_batches w1 = w_batches w @ [b]" "br_call b = call"
    "br_ops b = call_start_unary s (co_write_flags opt) (co_headers opt) (co_call_flags opt)" "w_cells w1 (w_next w) = notify_new"
proof -
  let ?ops = "call_start_unary s (co_write_flags opt) (co_headers opt) (co_call_flags opt)"
  obtain w1 b where w1: "check_run core call CheckRead ?ops w = Ret (w_next w, w1)" "w_batches w1 = w_batches w @ [b]"
      "br_call b = call" "br_ops b = ?ops" "w_cells w1 (w_next w) = notify_new"
    using check_run_later [OF assms(1)] by blast
  have "create_call (call_for create inf_future from method opt) w = Ret (Inr call, w)"
    by (rule create_call_open [OF assms(2)]) (use assms(4) in \<open>simp add: call_for_def channel_create_call_def\<close>)
  then have "unary_call_async c create inf_future from core ser method q opt w = Ret (Inr (call, w_next w), w1)"
    using assms(3) w1(1) by (simp add: unary_call_async_def unary_async_def)
  then show thesis using that w1(2-5) by blast
qed

lemma client_wakes:
  assumes "w_cells w1 f = notify_new"
    and "\<And>h. batch_resolve open_reader \<lparr>bp_ty = CheckRead, bp_ctx = ctx, bp_inner = f\<rparr> True h = Ret (set_result r h)"
    and "r = map_sum id Some a"
  shows "\<exists>w'. block_on (client_unary_poll de cx f) [finish_batch open_reader f ctx] w1 = Some (Ret (case a of Inl e \<Rightarrow> Inl e | Inr m \<Rightarrow> de m, w'))"
proof -
  let ?w2 = "w1\<lparr>w_cells := (w_cells w1)(f := \<lparr>nh_result = None, nh_waker = Some cx, nh_stale = False\<rparr>)\<rparr>"
  let ?w3 = "w1\<lparr>w_cells := (w_cells w1)(f := \<lparr>nh_result = Some r, nh_waker = None, nh_stale = False\<rparr>)\<rparr>"
  have p1: "client_unary_poll de cx f w1 = Ret (Pending, ?w2)"
    using assms(1) by (simp add: client_unary_poll_def future_poll_def cq_future_poll_def notify_new_def)
  have w3: "finish_batch open_reader f ctx ?w2 = ?w3"
    by (simp add: finish_batch_def complete_batch_def assms(2) set_result_def)
  have "\<exists>w'. client_unary_poll de cx f ?w3 = Ret (Ready (case a of Inl e \<Rightarrow> Inl e | Inr m \<Rightarrow> de m), w')"
    using assms(3) by (cases a) (simp_all add: client_unary_poll_def future_poll_def cq_future_poll_def unwrap_def)
  then show ?thesis using p1 w3 by (auto simp: block_on.simps)
qed

lemma server_fetches:
  assumes "rc_request_call r = Some rc" "rq_call (rc_ctx r) = Some call" "core_accepts core" "0 < w_ref_cnt (qs_world s)"
    and "rcc_registry rc (request_method (rc_ctx r)) = Some h" "h_method_type h = Unary" "rcc_checkers rc = []" "open_reader buf = Ret m"
  obtains u w where "request_resolve convert core req True r s = Ret (s\<lparr>qs_world := w, qs_tags := qs_tags s @ [UnaryRequest u]\<rparr>)"
    "call_log call w = call_log call (qs_world s) @ [[OpRecvMessage]]" "0 < w_ref_cnt w"
    "unary_request_resolve convert core req open_reader True (u\<lparr>ur_batch := (ur_batch u)\<lparr>bc_recv_message := Some buf\<rparr>\<rparr>) (s\<lparr>qs_world := w\<rparr>) =
       obind (h_cb h (rpc_context_new convert (rc_ctx r)) (Some m) (qs_user s, w)) (\<lambda>(e, w). request_call req rc (s\<lparr>qs_user := e, qs_world := w\<rparr>))"
proof -
  let ?w = "(qs_world s)\<lparr>w_batches := w_batches (qs_world s) @ [\<lparr>br_call = call, br_ops = call_recv_message,
    br_tag = UnaryRequestTag, br_ref_cnt = w_ref_cnt (qs_world s)\<rparr>]\<rparr>"
  let ?u = "unary_request_new (r\<lparr>rc_request_call := None\<rparr>) rc :: ('a, 'b, 'c) unary_request"
  have "request_resolve convert core req True r s = Ret (s\<lparr>qs_world := ?w, qs_tags := qs_tags s @ [UnaryRequest ?u]\<rparr>)"
    using assms by (simp add: request_resolve_def handle_stream_req_def handle_unary_req_def Let_def core_accepts_def)
  moreover have "call_log call ?w = call_log call (qs_world s) @ [[OpRecvMessage]]" by (simp add: call_recv_message_def call_log_def)
  moreover have "unary_request_resolve convert core req open_reader True (?u\<lparr>ur_batch := (ur_batch ?u)\<lparr>bc_recv_message := Some buf\<rparr>\<rparr>) (s\<lparr>qs_world := ?w\<rparr>) =
       obind (h_cb h (rpc_context_new convert (rc_ctx r)) (Some m) (qs_user s, ?w)) (\<lambda>(e, w). request_call req rc (s\<lparr>qs_user := e, qs_world := w\<rparr>))"
    using assms(5,7,8) by (simp add: unary_request_resolve_def unary_request_new_def recv_message_def take_recv_message_def handle_unary_def execute_def Let_def)
  ultimately show thesis using that [of ?u ?w] assms(4) by simp
qed

lemma server_accepts:
  assumes "rq_call ctx = Some call" "core_accepts core" "0 < w_ref_cnt w" "de m = Inr p"
  obtains f w1 where "execute_unary core debug_error de handler (rpc_context_new convert ctx) m (u, w) =
      handler (rpc_context_new convert ctx) p (share_call_new call f) (u, w1)"
    "call_log call w1 = call_log call w @ [[OpRecvCloseOnServer]]" "0 < w_ref_cnt w1"
proof -
  obtain f w1 where "accept_call core call w = Ret (Some f, w1)" "w_ref_cnt w1 = w_ref_cnt w" "call_log call w1 = call_log call w @ [[OpRecvCloseOnServer]]"
    using accept_call_log [OF assms(2,3)] by blast
  then show thesis using that [of f w1] assms by (simp add: execute_unary_def rpc_context_new_def request_ctx_call_def)
qed

lemma server_succeeds:
  assumes "core_accepts core" "0 < w_ref_cnt w" "ser t (slice_default c) = Ret s"
  obtains res w1 where "unary_success c core ser t sc w = Ret (res, w1)"
    "call_log (sc_call sc) w1 = call_log (sc_call sc) w @ [[OpSendStatusFromServer 0 [] empty_array, OpSendMessage s 0, OpSendInitialMetadata empty_array 0]]"
proof -
  let ?ops = "call_send_status_from_server 0 [] None 1 (Some s) 0"
  have "unary_success c core ser t sc w =
      obind (with_cq_ref (check_run core (sc_call sc) Finish ?ops) w) (\<lambda>(res, w). Ret (case res of
              Inr f \<Rightarrow> \<lparr>us_cq_f = Some f, us_err = None\<rparr>
            | Inl e \<Rightarrow> \<lparr>us_cq_f = None, us_err = Some e\<rparr>, w))"
    using assms(3) by (simp add: unary_success_def unary_complete_def start_send_status_from_server_def status_trailer_def status_ok_simps)
  then show thesis using that start_batch_accepted [OF assms(1,2)] by (simp add: call_send_status_from_server_def array_move_None)
qed

lemma server_fails:
  assumes "slice_core_ok c" "core_accepts core" "0 < w_ref_cnt w" "code status \<noteq> OK"
  obtains res w1 md where "unary_fail c core ser status sc w = Ret (res, w1)"
    "call_log (sc_call sc) w1 = call_log (sc_call sc) w @ [[OpSendStatusFromServer (code_i32 (code status)) (message status) md, OpSendInitialMetadata empty_array 0]]"
    "entries md = (if details status = [] then [] else [(BINARY_ERROR_DETAILS_KEY, details status)])"
proof -
  obtain t where t: "status_trailer c status = Ret t" "entries (fst (array_move t)) =
      (if details status = [] then [] else [(BINARY_ERROR_DETAILS_KEY, details status)])"
    using status_trailer_entries [OF assms(1)] by blast
  then show thesis
    using that start_batch_accepted [OF assms(2,3)] assms(4)
    by (simp add: unary_fail_def unary_complete_def start_send_status_from_server_def call_send_status_from_server_def)
qed

text \<open>What the client's batch is resolved with, from what the server's last batch delivers.\<close>

lemma answer_ok:
  assumes "answer_delivered open_reader content [OpSendStatusFromServer 0 [] empty_array, OpSendMessage s 0, OpSendInitialMetadata empty_array 0] ctx"
  obtains m where "\<And>h. batch_resolve open_reader \<lparr>bp_ty = CheckRead, bp_ctx = ctx, bp_inner = f\<rparr> True h = Ret (set_result (Inr (Some m)) h)"
    "content m = as_slice s"
proof -
  obtain buf m where "bc_recv_message ctx = Some buf" "open_reader buf = Ret m" "content m = as_slice s" "bc_recv_status ctx = 0"
    using assms by (auto simp: answer_delivered_def message_delivered_def status_delivered_def)
  moreover from this have "code (rpc_status ctx) = OK" by (simp add: rpc_status_def status_ok_simps)
  ultimately show thesis
    using that [of m] by (simp add: batch_resolve_def handle_unary_response_def recv_message_def take_recv_message_def Let_def rust_assert_def)
qed

lemma answer_failed:
  assumes "answer_delivered open_reader content [OpSendStatusFromServer (code_i32 (code status)) (message status) md, OpSendInitialMetadata empty_array 0] ctx"
    and "entries md = (if details status = [] then [] else [(BINARY_ERROR_DETAILS_KEY, details status)])"
    and "utf8_valid (message status)" "code status \<noteq> OK"
  shows "batch_resolve open_reader \<lparr>bp_ty = CheckRead, bp_ctx = ctx, bp_inner = f\<rparr> True h = Ret (set_result (Inl (RpcFailure status)) h)"
proof -
  have "rpc_status ctx = status" using status_read_back [OF _ assms(2-4)] assms(1) by (simp add: answer_delivered_def)
  then show ?thesis using assms(4) by (simp add: batch_resolve_def handle_unary_response_def Let_def rust_assert_def)
qed

section \<open>A health check from end to end\<close>

text \<open>What a check should return, in terms of the statuses that were set.\<close>

definition check_result :: "('s, 'w, 'u) pb_runtime \<Rightarrow> bytes \<Rightarrow> health \<Rightarrow> 'u HealthCheckResponse result" where
  "check_result rt service h = (case map_of (he_status h) service of
     Some status \<Rightarrow> Inr \<lparr>resp_status = status, resp_unknown_fields = rt_unknown_default rt, resp_cached_size = 0\<rparr>
   | None \<Rightarrow> Inl (RpcFailure (with_message NOT_FOUND ''unknown service'')))"

lemma check_result_handled:
  "check_result rt service h = (case health_check service h of Inr status \<Rightarrow> Inr (build_response rt status) | Inl status \<Rightarrow> Inl (RpcFailure status))"
  by (simp add: check_result_def health_check_def build_response_def response_msg_new_def split: option.splits)

lemma request_ser_bytes:
  assumes "slice_core_ok c" "pb_laws rt" "utf8_valid (req_service q)" "length (req_service q) < 2 ^ 31" "req_unknown_fields q = rt_unknown_default rt"
  obtains s where "request_ser c rt q (slice_default c) = Ret s" "\<And>m. content m = as_slice s \<Longrightarrow> request_de rt content m = Inr (q\<lparr>req_cached_size := 0\<rparr>)"
proof -
  have wf: "slice_wf (slice_default c)" using assms(1) by (simp add: slice_core_ok_def slice_default_def)
  note q = request_bytes [OF assms(2-5)]
  obtain s where "request_ser c rt q (slice_default c) = Ret s" "as_slice s = pb_bytes (request_write_to rt) q"
    using codec_ser_bytes [OF assms(1) wf, of "pb_bytes (request_write_to rt)" q "\<lambda>m. unat (fst (request_compute_size rt m))", OF q(1)]
    by (auto simp: request_ser_def)
  then show thesis using that q(2) by (simp add: request_de_def codec_de_def merged_def)
qed

lemma response_ser_bytes:
  assumes "slice_core_ok c" "pb_laws rt"
  obtains s where "response_ser c rt (build_response rt v) (slice_default c) = Ret s"
    "\<And>m. content m = as_slice s \<Longrightarrow> response_de rt content m = Inr (build_response rt v)"
proof -
  have wf: "slice_wf (slice_default c)" using assms(1) by (simp add: slice_core_ok_def slice_default_def)
  have u: "resp_unknown_fields (build_response rt v) = rt_unknown_default rt" by (simp add: build_response_def response_msg_new_def)
  note p = response_bytes [OF assms(2) u]
  obtain s where "response_ser c rt (build_response rt v) (slice_default c) = Ret s" "as_slice s = pb_bytes (response_write_to rt) (build_response rt v)"
    using codec_ser_bytes [OF assms(1) wf, of "pb_bytes (response_write_to rt)" "build_response rt v" "\<lambda>m. unat (fst (response_compute_size rt m))", OF p(1)]
    by (auto simp: response_ser_def)
  moreover have "build_response rt v\<lparr>resp_cached_size := 0\<rparr> = build_response rt v" by (simp add: build_response_def response_msg_new_def)
  ultimately show thesis using that p(2) by (simp add: response_de_def codec_de_def merged_def)
qed

lemma handler_answers:
  assumes "slice_core_ok c" "core_accepts core" "0 < w_ref_cnt w" "pb_laws rt"
  obtains w1 ops where "health_check_handler c core rt ctx req sc (self, w) = Ret (self, w1)" "call_log (sc_call sc) w1 = call_log (sc_call sc) w @ [ops]"
    "\<And>cctx f. answer_delivered open_reader content ops cctx \<Longrightarrow> \<exists>a. (\<forall>h. batch_resolve open_reader \<lparr>bp_ty = CheckRead, bp_ctx = cctx, bp_inner = f\<rparr> True h
        = Ret (set_result (map_sum id Some a) h)) \<and> (case a of Inl e \<Rightarrow> Inl e | Inr m \<Rightarrow> response_de rt content m) = check_result rt (req_service req) self"
proof (cases "health_check (req_service req) self")
  case (Inr v)
  obtain s where s: "response_ser c rt (build_response rt v) (slice_default c) = Ret s"
    "\<And>m. content m = as_slice s \<Longrightarrow> response_de rt content m = Inr (build_response rt v)" using response_ser_bytes [OF assms(1,4)] by metis
  let ?ops = "[OpSendStatusFromServer 0 [] empty_array, OpSendMessage s 0, OpSendInitialMetadata empty_array 0]"
  obtain res w1 where w1: "unary_success c core (response_ser c rt) (build_response rt v) sc w = Ret (res, w1)"
    "call_log (sc_call sc) w1 = call_log (sc_call sc) w @ [?ops]" by (rule server_succeeds [OF assms(2,3), of "response_ser c rt" "build_response rt v" c s, OF s(1)])
  have "\<exists>a. (\<forall>h. batch_resolve open_reader \<lparr>bp_ty = CheckRead, bp_ctx = cctx, bp_inner = f\<rparr> True h = Ret (set_result (map_sum id Some a) h))
      \<and> (case a of Inl e \<Rightarrow> Inl e | Inr m \<Rightarrow> response_de rt content m) = check_result rt (req_service req) self"
    if ad: "answer_delivered open_reader content ?ops cctx" for cctx f
  proof -
    obtain m where "\<And>h. batch_resolve open_reader \<lparr>bp_ty = CheckRead, bp_ctx = cctx, bp_inner = f\<rparr> True h = Ret (set_result (Inr (Some m)) h)"
      "content m = as_slice s" using answer_ok [OF ad] by metis
    then show ?thesis using s(2) Inr by (intro exI [of _ "Inr m"]) (simp add: check_result_handled)
  qed
  then show thesis using that [of w1 ?ops] w1 Inr by (simp add: health_check_handler_def)
next
  case (Inl st)
  then have st: "st = with_message NOT_FOUND ''unknown service''" by (simp add: health_check_def split: option.splits)
  have bad: "code st \<noteq> OK" by (simp add: st with_message_def with_details_def)
  have u: "utf8_valid (message st)" unfolding st with_message_def with_details_def by code_simp
  obtain res w1 md where w1: "unary_fail c core (response_ser c rt) st sc w = Ret (res, w1)"
    "call_log (sc_call sc) w1 = call_log (sc_call sc) w @ [[OpSendStatusFromServer (code_i32 (code st)) (message st) md, OpSendInitialMetadata empty_array 0]]"
    "entries md = (if details st = [] then [] else [(BINARY_ERROR_DETAILS_KEY, details st)])" by (rule server_fails [OF assms(1-3) bad])
  let ?ops = "[OpSendStatusFromServer (code_i32 (code st)) (message st) md, OpSendInitialMetadata empty_array 0]"
  have "\<exists>a. (\<forall>h. batch_resolve open_reader \<lparr>bp_ty = CheckRead, bp_ctx = cctx, bp_inner = f\<rparr> True h = Ret (set_result (map_sum id Some a) h))
      \<and> (case a of Inl e \<Rightarrow> Inl e | Inr m \<Rightarrow> response_de rt content m) = check_result rt (req_service req) self"
    if ad: "answer_delivered open_reader content ?ops cctx" for cctx f
    using answer_failed [OF ad w1(3) u bad] Inl by (intro exI [of _ "Inl (RpcFailure st)"]) (simp add: check_result_handled)
  then show thesis using that [of w1 ?ops] w1 Inl by (simp add: health_check_handler_def)
qed

lemma create_health_check:
  "create_health c core dbg rt content watch METHOD_HEALTH_CHECK = Some \<lparr>h_method_type = Unary,
     h_cb = (\<lambda>ctx payload s. obind (unwrap payload) (\<lambda>p. execute_unary core dbg (request_de rt content) (health_check_handler c core rt) ctx p s))\<rparr>"
  by (simp add: create_health_def add_unary_handler_def add_server_streaming_handler_def METHOD_HEALTH_CHECK_def METHOD_HEALTH_WATCH_def)

text \<open>The server's side: from the request tag to the last batch, and what that batch tells the client.\<close>

lemma health_server_answers:
  assumes "slice_core_ok c" "core_accepts core" "0 < w_ref_cnt (qs_world s)"
    and "rc_request_call r = Some rc" "rq_call (rc_ctx r) = Some call" "request_method (rc_ctx r) = METHOD_HEALTH_CHECK"
    and "rcc_checkers rc = []" "rcc_registry rc = create_health c core dbg rt content watch"
    and "pb_laws rt" "open_reader buf = Ret m" "request_de rt content m = Inr q"
  obtains u w2 w3 ops where
    "request_resolve convert core req True r s = Ret (s\<lparr>qs_world := w2, qs_tags := qs_tags s @ [UnaryRequest u]\<rparr>)"
    "unary_request_resolve convert core req open_reader True (u\<lparr>ur_batch := (ur_batch u)\<lparr>bc_recv_message := Some buf\<rparr>\<rparr>) (s\<lparr>qs_world := w2\<rparr>)
       = request_call req rc (s\<lparr>qs_world := w3\<rparr>)"
    "call_log call w3 = call_log call (qs_world s) @ [[OpRecvMessage], [OpRecvCloseOnServer], ops]"
    "\<forall>ctx f. answer_delivered open_reader content ops ctx \<longrightarrow> (\<exists>a. (\<forall>h. batch_resolve open_reader \<lparr>bp_ty = CheckRead, bp_ctx = ctx, bp_inner = f\<rparr> True h
        = Ret (set_result (map_sum id Some a) h)) \<and> (case a of Inl e \<Rightarrow> Inl e | Inr m \<Rightarrow> response_de rt content m) = check_result rt (req_service q) (qs_user s))"
proof -
  let ?handler = "health_check_handler c core rt" and ?cx = "rpc_context_new convert (rc_ctx r)"
  let ?h = "\<lparr>h_method_type = Unary, h_cb = (\<lambda>ctx payload s. obind (unwrap payload) (\<lambda>p. execute_unary core dbg (request_de rt content) ?handler ctx p s))\<rparr>"
  have h: "rcc_registry rc (request_method (rc_ctx r)) = Some ?h" by (simp add: assms(6,8) create_health_check)
  obtain u w2 where w2: "request_resolve convert core req True r s = Ret (s\<lparr>qs_world := w2, qs_tags := qs_tags s @ [UnaryRequest u]\<rparr>)"
    "call_log call w2 = call_log call (qs_world s) @ [[OpRecvMessage]]" "0 < w_ref_cnt w2"
    "unary_request_resolve convert core req open_reader True (u\<lparr>ur_batch := (ur_batch u)\<lparr>bc_recv_message := Some buf\<rparr>\<rparr>) (s\<lparr>qs_world := w2\<rparr>) =
       obind (h_cb ?h ?cx (Some m) (qs_user s, w2)) (\<lambda>(e, w). request_call req rc (s\<lparr>qs_user := e, qs_world := w\<rparr>))"
    by (rule server_fetches [OF assms(4,5,2,3) h _ assms(7), of open_reader buf m, OF _ assms(10)]) simp
  obtain f w2' where acc: "execute_unary core dbg (request_de rt content) ?handler ?cx m (qs_user s, w2) = ?handler ?cx q (share_call_new call f) (qs_user s, w2')"
    "call_log call w2' = call_log call w2 @ [[OpRecvCloseOnServer]]" "0 < w_ref_cnt w2'"
    by (rule server_accepts [OF assms(5,2) w2(3), of "request_de rt content" m, OF assms(11)])
  obtain w3 ops where w3: "?handler ?cx q (share_call_new call f) (qs_user s, w2') = Ret (qs_user s, w3)"
    "call_log (sc_call (share_call_new call f)) w3 = call_log (sc_call (share_call_new call f)) w2' @ [ops]"
    "\<And>cctx f. answer_delivered open_reader content ops cctx \<Longrightarrow> \<exists>a. (\<forall>h. batch_resolve open_reader \<lparr>bp_ty = CheckRead, bp_ctx = cctx, bp_inner = f\<rparr> True h
      = Ret (set_result (map_sum id Some a) h)) \<and> (case a of Inl e \<Rightarrow> Inl e | Inr m \<Rightarrow> response_de rt content m) = check_result rt (req_service q) (qs_user s)"
    using handler_answers [OF assms(1,2) acc(3) assms(9)] by metis
  have "unary_request_resolve convert core req open_reader True (u\<lparr>ur_batch := (ur_batch u)\<lparr>bc_recv_message := Some buf\<rparr>\<rparr>) (s\<lparr>qs_world := w2\<rparr>)
      = request_call req rc (s\<lparr>qs_world := w3\<rparr>)" using w2(4) acc(1) w3(1) by (simp add: unwrap_def)
  moreover have "call_log call w3 = call_log call (qs_world s) @ [[OpRecvMessage], [OpRecvCloseOnServer], ops]"
    using w3(2) acc(2) w2(2) by (simp add: share_call_new_def)
  ultimately show thesis using that w2(1) w3(3) by blast
qed

text \<open>
  C11. A health check from end to end. The client's \<^verbatim>\<open>check\<close> starts one batch with the
  encoded request. If the core delivers its message to a server on which the health service is
  registered, the server fetches it, accepts the call and answers it with one last batch. If the
  core delivers the status and the message of that batch to the client, the blocked call wakes
  up and returns exactly what the service knows of the name: its status in a response, or
  NOT_FOUND as an error.
\<close>

theorem health_check_end_to_end:
  assumes "slice_core_ok c" "core_later core_c" "0 < w_ref_cnt wc"
    and "create METHOD_HEALTH_CHECK None (case co_timeout opt of None \<Rightarrow> inf_future | Some t \<Rightarrow> from t) = Some call"
    and "core_accepts core_s" "0 < w_ref_cnt (qs_world s)"
    and "rc_request_call r = Some rc" "rq_call (rc_ctx r) = Some scall" "request_method (rc_ctx r) = METHOD_HEALTH_CHECK"
    and "rcc_checkers rc = []" "rcc_registry rc = create_health c core_s dbg rt content watch"
    and "pb_laws rt" "utf8_valid (req_service q)" "length (req_service q) < 2 ^ 31" "req_unknown_fields q = rt_unknown_default rt"
  shows "\<exists>w1 b sl. check_async_opt c create inf_future from core_c rt q opt wc = Ret (Inr (call, w_next wc), w1)
    \<and> w_batches w1 = w_batches wc @ [b] \<and> br_call b = call \<and> OpSendMessage sl (co_write_flags opt) \<in> set (br_ops b)
    \<and> (\<forall>buf. message_delivered open_reader content sl buf \<longrightarrow> (\<exists>u w2 w3 ops.
        request_resolve convert core_s req True r s = Ret (s\<lparr>qs_world := w2, qs_tags := qs_tags s @ [UnaryRequest u]\<rparr>)
        \<and> unary_request_resolve convert core_s req open_reader True (u\<lparr>ur_batch := (ur_batch u)\<lparr>bc_recv_message := Some buf\<rparr>\<rparr>) (s\<lparr>qs_world := w2\<rparr>)
            = request_call req rc (s\<lparr>qs_world := w3\<rparr>)
        \<and> call_log scall w3 = call_log scall (qs_world s) @ [[OpRecvMessage], [OpRecvCloseOnServer], ops]
        \<and> (\<forall>ctx. answer_delivered open_reader content ops ctx \<longrightarrow>
            (\<exists>w4. check_opt c create inf_future from core_c rt content cx [finish_batch open_reader (w_next wc) ctx] q opt wc
              = Some (Ret (check_result rt (req_service q) (qs_user s), w4))))))"
proof -
  obtain sl where sl: "request_ser c rt q (slice_default c) = Ret sl" "\<And>m. content m = as_slice sl \<Longrightarrow> request_de rt content m = Inr (q\<lparr>req_cached_size := 0\<rparr>)"
    using request_ser_bytes [OF assms(1,12-15)] by metis
  obtain w1 b where w1: "unary_call_async c create inf_future from core_c (request_ser c rt) METHOD_HEALTH_CHECK q opt wc = Ret (Inr (call, w_next wc), w1)"
    "w_batches w1 = w_batches wc @ [b]" "br_call b = call" "br_ops b = call_start_unary sl (co_write_flags opt) (co_headers opt) (co_call_flags opt)"
    "w_cells w1 (w_next wc) = notify_new"
    by (rule client_starts [OF assms(2,3), of "request_ser c rt" q c sl create METHOD_HEALTH_CHECK inf_future "from" opt call, OF sl(1) assms(4)])
  let ?result = "check_result rt (req_service q) (qs_user s)"
  have woken: "\<exists>w4. check_opt c create inf_future from core_c rt content cx [finish_batch open_reader (w_next wc) ctx] q opt wc = Some (Ret (?result, w4))"
    if a: "\<forall>h. batch_resolve open_reader \<lparr>bp_ty = CheckRead, bp_ctx = ctx, bp_inner = w_next wc\<rparr> True h = Ret (set_result (map_sum id Some a) h)"
      "(case a of Inl e \<Rightarrow> Inl e | Inr m \<Rightarrow> response_de rt content m) = ?result" for ctx a
    using client_wakes [OF w1(5) a(1) [rule_format] refl, of "response_de rt content" cx] a(2) w1(1)
    by (simp add: check_opt_def unary_call_def del: block_on.simps)
  have served: "\<exists>u w2 w3 ops.
        request_resolve convert core_s req True r s = Ret (s\<lparr>qs_world := w2, qs_tags := qs_tags s @ [UnaryRequest u]\<rparr>)
        \<and> unary_request_resolve convert core_s req open_reader True (u\<lparr>ur_batch := (ur_batch u)\<lparr>bc_recv_message := Some buf\<rparr>\<rparr>) (s\<lparr>qs_world := w2\<rparr>)
            = request_call req rc (s\<lparr>qs_world := w3\<rparr>)
        \<and> call_log scall w3 = call_log scall (qs_world s) @ [[OpRecvMessage], [OpRecvCloseOnServer], ops]
        \<and> (\<forall>ctx. answer_delivered open_reader content ops ctx \<longrightarrow>
            (\<exists>w4. check_opt c create inf_future from core_c rt content cx [finish_batch open_reader (w_next wc) ctx] q opt wc = Some (Ret (?result, w4))))"
    if md: "message_delivered open_reader content sl buf" for buf
  proof -
    obtain m where m: "open_reader buf = Ret m" "content m = as_slice sl" using md by (auto simp: message_delivered_def)
    obtain u w2 w3 ops where sv: "request_resolve convert core_s req True r s = Ret (s\<lparr>qs_world := w2, qs_tags := qs_tags s @ [UnaryRequest u]\<rparr>)"
      "unary_request_resolve convert core_s req open_reader True (u\<lparr>ur_batch := (ur_batch u)\<lparr>bc_recv_message := Some buf\<rparr>\<rparr>) (s\<lparr>qs_world := w2\<rparr>)
         = request_call req rc (s\<lparr>qs_world := w3\<rparr>)"
      "call_log scall w3 = call_log scall (qs_world s) @ [[OpRecvMessage], [OpRecvCloseOnServer], ops]"
      "\<forall>ctx f. answer_delivered open_reader content ops ctx \<longrightarrow> (\<exists>a. (\<forall>h. batch_resolve open_reader \<lparr>bp_ty = CheckRead, bp_ctx = ctx, bp_inner = f\<rparr> True h
          = Ret (set_result (map_sum id Some a) h)) \<and> (case a of Inl e \<Rightarrow> Inl e | Inr m \<Rightarrow> response_de rt content m)
            = check_result rt (req_service (q\<lparr>req_cached_size := 0\<rparr>)) (qs_user s))"
      by (rule health_server_answers [where open_reader = open_reader and buf = buf and m = m and convert = convert and req = req, OF assms(1,5-12) m(1) sl(2) [OF m(2)]])
    have "\<exists>w4. check_opt c create inf_future from core_c rt content cx [finish_batch open_reader (w_next wc) ctx] q opt wc = Some (Ret (?result, w4))"
      if "answer_delivered open_reader content ops ctx" for ctx
      using sv(4) [rule_format, OF that, of "w_next wc"] woken by auto
    then show ?thesis using sv(1-3) by blast
  qed
  have "OpSendMessage sl (co_write_flags opt) \<in> set (br_ops b)" by (simp add: w1(4) call_start_unary_def)
  then show ?thesis using w1(1-3) served unfolding check_async_opt_def by blast
qed

definition e2e_health :: health where
  "e2e_health = set_serving_status ''db'' Serving health_new"

definition e2e_rcc :: "(health, bytes) request_call_context" where
  "e2e_rcc = \<lparr>rcc_registry = create_health sample_core ok_core (\<lambda>_. []) wire_rt id (\<lambda>_ _ _. Ret), rcc_checkers = []\<rparr>"

definition e2e_request :: "(health, bytes) request" where
  "e2e_request = \<lparr>rc_ctx = request_ctx_create\<lparr>rq_call := Some 7, rq_method := Refcounted 1 (length METHOD_HEALTH_CHECK) METHOD_HEALTH_CHECK\<rparr>,
     rc_request_call = Some e2e_rcc\<rparr>"

definition e2e_queue :: "(health, bytes, bytes) queue_sys" where
  "e2e_queue = \<lparr>qs_user = e2e_health, qs_world = world_new, qs_shutdown = False, qs_tags = []\<rparr>"

theorem health_check_end_to_end_witness:
  "\<exists>sl. \<forall>buf. buf = as_slice sl \<longrightarrow> (\<exists>(w3 :: bytes world) ops. call_log 7 w3 = [[OpRecvMessage], [OpRecvCloseOnServer], ops]
    \<and> (\<forall>ctx. answer_delivered Ret id ops ctx \<longrightarrow>
      (\<exists>w4. check_opt sample_core (\<lambda>_ _ _. Some 5) () (\<lambda>_. ()) ok_core wire_rt id 3 [finish_batch Ret 0 ctx]
         \<lparr>req_service = ''db'', req_unknown_fields = [], req_cached_size = 0\<rparr> call_option_default (world_new :: bytes world)
         = Some (Ret (Inr \<lparr>resp_status = Serving, resp_unknown_fields = [], resp_cached_size = 0\<rparr>, w4)))))"
proof -
  have later: "core_later (ok_core :: bytes core)" by (simp add: core_later_def ok_core_def)
  have w: "0 < w_ref_cnt (world_new :: bytes world)" "w_next (world_new :: bytes world) = 0" "call_log 7 (world_new :: bytes world) = []"
    by (simp_all add: world_new_def call_log_def)
  have r: "rc_request_call e2e_request = Some e2e_rcc" "rq_call (rc_ctx e2e_request) = Some 7"
    "request_method (rc_ctx e2e_request) = METHOD_HEALTH_CHECK" "rcc_checkers e2e_rcc = []"
    "rcc_registry e2e_rcc = create_health sample_core ok_core (\<lambda>_. []) wire_rt id (\<lambda>_ _ _. Ret)"
    by (simp_all add: e2e_request_def e2e_rcc_def request_method_def as_slice_def)
  let ?q = "\<lparr>req_service = ''db'', req_unknown_fields = [], req_cached_size = 0\<rparr> :: bytes HealthCheckRequest"
  have q: "utf8_valid (req_service ?q)" "length (req_service ?q) < 2 ^ 31" "req_unknown_fields ?q = rt_unknown_default wire_rt"
    by (simp, code_simp) (simp_all add: wire_rt_def)
  have s: "qs_world e2e_queue = world_new" "check_result wire_rt (req_service ?q) (qs_user e2e_queue) = Inr \<lparr>resp_status = Serving, resp_unknown_fields = [], resp_cached_size = 0\<rparr>"
    by (simp_all add: wire_rt_def e2e_queue_def e2e_health_def check_result_def health_check_def set_serving_status_def set_begin_def set_finish_def health_new_def)
  have w': "0 < w_ref_cnt (qs_world e2e_queue)" using w s by simp
  have create: "(\<lambda>_ _ _. Some 5) METHOD_HEALTH_CHECK (None :: bytes option) (case co_timeout call_option_default of None \<Rightarrow> () | Some t \<Rightarrow> ()) = Some 5" by simp
  have md: "message_delivered Ret id sl buf \<longleftrightarrow> buf = as_slice sl" for sl buf by (simp add: message_delivered_def)
  note e = health_check_end_to_end [where create = "\<lambda>_ _ _. Some 5" and inf_future = "()" and ?from = "\<lambda>_. ()" and opt = call_option_default
      and open_reader = Ret and convert = "\<lambda>t _. t" and req = "\<lambda>_. GRPC_CALL_OK" and cx = 3,
      OF sample_core_ok later w(1) create ok_core_accepts w' r wire_rt_laws q, unfolded md s w append_Nil]
  obtain sl where sl: "\<forall>buf. buf = as_slice sl \<longrightarrow> (\<exists>(u :: (health, bytes, bytes) unary_request) w2 w3 ops.
        request_resolve (\<lambda>t _. t) ok_core (\<lambda>_. GRPC_CALL_OK) True e2e_request e2e_queue = Ret (e2e_queue\<lparr>qs_world := w2, qs_tags := qs_tags e2e_queue @ [UnaryRequest u]\<rparr>)
        \<and> unary_request_resolve (\<lambda>t _. t) ok_core (\<lambda>_. GRPC_CALL_OK) Ret True (u\<lparr>ur_batch := (ur_batch u)\<lparr>bc_recv_message := Some buf\<rparr>\<rparr>) (e2e_queue\<lparr>qs_world := w2\<rparr>)
            = request_call (\<lambda>_. GRPC_CALL_OK) e2e_rcc (e2e_queue\<lparr>qs_world := w3\<rparr>)
        \<and> call_log 7 w3 = [[OpRecvMessage], [OpRecvCloseOnServer], ops]
        \<and> (\<forall>ctx. answer_delivered Ret id ops ctx \<longrightarrow>
            (\<exists>w4. check_opt sample_core (\<lambda>_ _ _. Some 5) () (\<lambda>_. ()) ok_core wire_rt id 3 [finish_batch Ret 0 ctx] ?q call_option_default world_new
              = Some (Ret (Inr \<lparr>resp_status = Serving, resp_unknown_fields = [], resp_cached_size = 0\<rparr>, w4)))))"
    using e by (elim exE conjE) assumption
  show ?thesis
  proof (intro exI [of _ sl] allI impI)
    fix buf :: bytes assume "buf = as_slice sl"
    with sl show "\<exists>(w3 :: bytes world) ops. call_log 7 w3 = [[OpRecvMessage], [OpRecvCloseOnServer], ops] \<and> (\<forall>ctx. answer_delivered Ret id ops ctx \<longrightarrow>
      (\<exists>w4. check_opt sample_core (\<lambda>_ _ _. Some 5) () (\<lambda>_. ()) ok_core wire_rt id 3 [finish_batch Ret 0 ctx] ?q call_option_default world_new
         = Some (Ret (Inr \<lparr>resp_status = Serving, resp_unknown_fields = [], resp_cached_size = 0\<rparr>, w4))))" by meson
  qed
qed

end
