(* ===== verification/Spec2Isabelle.thy ===== *)
theory Spec2Isabelle
  imports Grpc_Executor Grpc_Security Grpc_Health Grpc_Prost Grpc_Wrap Grpc_Descriptor Grpc_Endtoend
begin

text \<open>
  A model of grpc-rs, the Rust binding of the gRPC core, with the theorems that make it correct.

  \<^bold>\<open>The program.\<close> A program builds an environment: a number of completion queues, each polled
  by a thread. Channels and servers create calls. Each operation of a call is a batch that is
  given to the C core together with a tag; when the core has finished the batch, it puts the tag
  into a completion queue, whose thread resolves it. Resolving a tag fulfils the future that the
  caller polls, runs a handler of the server, or polls a spawned future. Messages and metadata
  cross the boundary through a C++ wrapper. Beside the library are a health service, the two
  code generators that make client and server stubs from a proto file, and maintenance tasks.

  \<^bold>\<open>How it is modelled.\<close> A Rust byte is a character, machine integers are words where they
  may wrap. A function that may panic returns an \<open>outcome\<close>, a function that may fail a sum
  with the type \<open>error\<close>, a poll the type \<open>poll\<close>. The state of the futures, the batches
  given to the core and the reference count of the queue are the record \<open>world\<close>, which is
  passed along. The core, the protobuf and prost libraries and the user's code are arguments of
  the functions that call them; what is needed of them are hypotheses of the theorems, each of
  which has an instance at a concrete argument. Where threads run against each other, a step is
  one atomic operation or one critical section, and the theorems hold for all reachable states.

  \<^bold>\<open>The theories.\<close>
  \<^item> \<^verbatim>\<open>Grpc_Prelude\<close>: outcomes, results, polls, characters; the locales
    \<open>invariant_system\<close>, \<open>refinement_system\<close> and \<open>iterator\<close>.
  \<^item> \<^verbatim>\<open>Grpc_Status\<close>: status codes and statuses (\<^verbatim>\<open>src/call/mod.rs\<close>) and errors
    (\<^verbatim>\<open>src/error.rs\<close>).
  \<^item> \<^verbatim>\<open>Grpc_Buf\<close>: slices, byte buffers, the message reader (\<^verbatim>\<open>src/buf.rs\<close>) and
    serialisation (\<^verbatim>\<open>src/codec.rs\<close>). Reading returns exactly the bytes of a message and
    releases every slice once; the locale \<open>buf_read\<close> has both views of the reader.
  \<^item> \<^verbatim>\<open>Grpc_Metadata\<close>: \<^verbatim>\<open>src/metadata.rs\<close> over the arrays of
    \<^verbatim>\<open>grpc-sys/grpc_wrap.cc\<close>. Which keys are accepted, and that what is added is found.
  \<^item> \<^verbatim>\<open>Grpc_Cq\<close>: the reference count and the work queue of \<^verbatim>\<open>src/cq.rs\<close>. The
    count refines an abstract queue with live references under every interleaving; the core's
    queue is shut down once and never under a live reference.
  \<^item> \<^verbatim>\<open>Grpc_Task\<close>: \<^verbatim>\<open>src/task/mod.rs\<close>, \<^verbatim>\<open>src/task/promise.rs\<close>. A
    completion is delivered once.
  \<^item> \<^verbatim>\<open>Grpc_Executor\<close>: \<^verbatim>\<open>src/task/executor.rs\<close> as a step relation. No wake-up is
    lost, no future is polled by two threads or after it is complete, and nothing panics.
  \<^item> \<^verbatim>\<open>Grpc_Call\<close>, \<^verbatim>\<open>Grpc_Stream\<close>: the calls and batches, the streams and sinks of
    \<^verbatim>\<open>src/call/mod.rs\<close>. Batches are started under a queue reference; streams yield the
    messages in order, each once (locale \<open>message_stream\<close>); the rule of enhanced batching.
  \<^item> \<^verbatim>\<open>Grpc_Client\<close>: \<^verbatim>\<open>src/call/client.rs\<close>. What the four kinds of call return.
  \<^item> \<^verbatim>\<open>Grpc_Server_Call\<close>, \<^verbatim>\<open>Grpc_Server\<close>: \<^verbatim>\<open>src/call/server.rs\<close>,
    \<^verbatim>\<open>src/server.rs\<close>, \<^verbatim>\<open>src/task/callback.rs\<close>. The order of what a handler sends,
    where a request goes, and that every queue keeps its request slots.
  \<^item> \<^verbatim>\<open>Grpc_Env\<close>: \<^verbatim>\<open>src/env.rs\<close>. The event loop serves its queue; queues are
    picked in turn.
  \<^item> \<^verbatim>\<open>Grpc_Channel\<close>: \<^verbatim>\<open>src/channel.rs\<close>, \<^verbatim>\<open>src/client.rs\<close>,
    \<^verbatim>\<open>src/quota.rs\<close>. The core sees every option and everything allocated for it is freed;
    a blocking call from the channel to the response.
  \<^item> \<^verbatim>\<open>Grpc_Security\<close>: \<^verbatim>\<open>src/security/credentials.rs\<close>,
    \<^verbatim>\<open>src/auth_context.rs\<close>, \<^verbatim>\<open>src/log_util.rs\<close>. The core gets the certificates
    that were set, and private keys are not left in freed memory; for the allocator it is only
    assumed that it may or may not move a block.
  \<^item> \<^verbatim>\<open>Grpc_Health\<close>: \<^verbatim>\<open>health/src/service.rs\<close>. Watchers miss no status that stays,
    and agree with checks outside of a running update.
  \<^item> \<^verbatim>\<open>Grpc_Names\<close>, \<^verbatim>\<open>Grpc_Codegen\<close>, \<^verbatim>\<open>Grpc_Prost\<close>: the code generators of
    \<^verbatim>\<open>compiler/src\<close>. Generated code has balanced brackets, both generators describe the
    methods alike, and both write the health stubs that are in the repository byte for byte.
  \<^item> \<^verbatim>\<open>Grpc_Wrap\<close>: the ownership of slices, buffers, arrays and calls in
    \<^verbatim>\<open>grpc-sys/grpc_wrap.cc\<close>, as a multiset of live references. Batch and request contexts
    neither leak nor free twice, whatever is sent, received and taken in between.
  \<^item> \<^verbatim>\<open>Grpc_Health_Proto\<close>, \<^verbatim>\<open>Grpc_Descriptor\<close>: the generated messages and the
    embedded descriptor of \<^verbatim>\<open>health/src/proto/protobuf/health.rs\<close>. Messages come back from
    their bytes for every runtime that keeps the laws \<open>pb_laws\<close>, and an implementation of the
    wire format keeps them.
  \<^item> \<^verbatim>\<open>Grpc_Xtask\<close>: the maintenance tasks of \<^verbatim>\<open>xtask/src/main.rs\<close> over files,
    processes and environment variables.
  \<^item> \<^verbatim>\<open>Grpc_Endtoend\<close>: \<^verbatim>\<open>health/src/proto/protobuf/health_grpc.rs\<close> and the handler
    of \<^verbatim>\<open>health/src/service.rs\<close> on the client and the server of the library. A check returns
    what the service knows, if the core delivers what it is given.

  \<^bold>\<open>Bounds and fuel.\<close> Loops over atomic exchanges take the list of spurious failures as an
  argument and return nothing only if the list ends first; the theorem on them says that one
  exchange that does not fail spuriously is enough. The loops of the reader, of
  \<^verbatim>\<open>wait_for_connected\<close> and of the event loop are driven by a list or a count in the same
  way, and their theorems say that they return and with what. The loop that merges a message's
  fields returns nothing only on a stream that never ends; the round trip shows that it
  returns. Taking fields apart has as much fuel as there are bytes, and each field has at least
  one. Recursions over names and UTF-8
  text terminate by the length of the text.

  \<^bold>\<open>Defects.\<close> Some theorems state behaviour that is not intended: a sink that is closed
  drops a buffered message (\<^verbatim>\<open>close_drops_buffered_message\<close>), an empty slice stops a
  reader (\<^verbatim>\<open>reader_stuck_on_empty_slice\<close>), a stopped sink panics when it is used again
  (\<^verbatim>\<open>stopped_sink_panics\<close>), a status can be broadcast after the shutdown of the health
  service (\<^verbatim>\<open>late_broadcast_after_shutdown\<close>), a replaced private key is not cleared
  (\<^verbatim>\<open>replaced_key_not_wiped\<close>), a service without methods makes the
  generators panic (\<^verbatim>\<open>empty_service_panics\<close>), the descriptor embedded in the health messages cannot be
  parsed (\<^verbatim>\<open>health_descriptor_broken\<close>), and a few more of this kind.

  \<^bold>\<open>Not modelled.\<close> The C core and its generated bindings are not part of the program, apart
  from the names of the channel arguments. The addresses and credentials of a server's ports
  (\<^verbatim>\<open>src/server.rs\<close>) are left out so far, as are the accessors of call contexts and the
  functions that cancel a call. A panic ends the model's run, so what unwinding frees is not
  recorded. Build scripts, the
  benchmark, the interoperability programs, tests and examples are not part of the library. Of
  the prost generator the parts that run \<^verbatim>\<open>protoc\<close> and read its output are input and output.
  Atomic operations are sequentially consistent in the model; weaker orderings are not modelled.
\<close>

end
